(* ===== verification/Prelude.thy ===== *)
theory Prelude
  imports Main "HOL-Library.AList" "HOL-Library.Word" "HOL-Library.Multiset"
begin

text \<open>
  The vocabulary every component of the session gateway shares: Go errors and results,
  Go maps as association lists, bytes and strings, instants and durations, and readers.

  \<^item> A Go error is a sentinel, a sentinel wrapped by \<open>fmt.Errorf("%w: ...")\<close>, or a plain text.
    \<open>errors_is\<close> is \<open>errors.Is\<close>.
  \<^item> A function that returns \<open>(T, error)\<close> returns \<open>error + T\<close>, with \<open>Inl\<close> for the error.
  \<^item> A Go map is a list of pairs with distinct keys; \<open>mget\<close>, \<open>mput\<close> and \<open>mdel\<close> are the
    index expression, the assignment and \<open>delete\<close>. A range loop is a fold over the pairs.
  \<^item> An instant is the number of nanoseconds since the Unix epoch, \<open>zero_time\<close> is \<open>time.Time{}\<close>;
    a duration is a signed 64-bit number of nanoseconds, whose sum wraps (\<open>dur_add\<close>).
\<close>

section \<open>Collections of rules\<close>

named_theorems gomap_simps \<open>lookup rules of association lists\<close>
named_theorems codec_simps \<open>round trips of the encoders\<close>

section \<open>Errors and results\<close>

text \<open>The sentinel errors of the session package, of the runtime package and of the standard library.\<close>

datatype sentinel =
    ErrInvalidRequest | ErrConflict | ErrFailedPrecondition | ErrInvalidTicket
  | ErrCapacity | ErrNotFound | ErrUnavailable
  | RtInvalidTarget | RtTargetNotFound | RtTargetNotReady | RtTargetChanged
  | RtAmbiguousContainer | RtBackpressure | RtUnavailable
  | IoEOF | IoErrClosedPipe | CtxCanceled | CtxDeadlineExceeded

datatype error = Sentinel sentinel | Wrap error string | ErrText string

type_synonym 'a result = "error + 'a"

fun errors_is :: "error \<Rightarrow> sentinel \<Rightarrow> bool" where
  "errors_is (Sentinel e) t = (e = t)"
| "errors_is (Wrap e _) t = errors_is e t"
| "errors_is (ErrText _) t = False"

text \<open>At most one sentinel lies at the root of an error.\<close>

lemma errors_is_unique: "errors_is e s \<Longrightarrow> errors_is e t \<Longrightarrow> s = t"
  by (induction e) auto

definition result_bind :: "'a result \<Rightarrow> ('a \<Rightarrow> 'b result) \<Rightarrow> 'b result" where
  "result_bind r f = (case r of Inl e \<Rightarrow> Inl e | Inr a \<Rightarrow> f a)"

abbreviation is_ok :: "'a result \<Rightarrow> bool" where
  "is_ok r \<equiv> \<exists>v. r = Inr v"

section \<open>Go maps\<close>

type_synonym ('k, 'v) gomap = "('k \<times> 'v) list"

definition mget :: "('k, 'v) gomap \<Rightarrow> 'k \<Rightarrow> 'v option" where
  "mget m k = map_of m k"

definition mput :: "'k \<Rightarrow> 'v \<Rightarrow> ('k, 'v) gomap \<Rightarrow> ('k, 'v) gomap" where
  "mput k v m = AList.update k v m"

definition mdel :: "'k \<Rightarrow> ('k, 'v) gomap \<Rightarrow> ('k, 'v) gomap" where
  "mdel k m = AList.delete k m"

definition mkeys :: "('k, 'v) gomap \<Rightarrow> 'k list" where
  "mkeys m = map fst m"

definition mwf :: "('k, 'v) gomap \<Rightarrow> bool" where
  "mwf m \<longleftrightarrow> distinct (mkeys m)"

lemma mget_Nil [simp, gomap_simps]: "mget [] k = None"
  by (simp add: mget_def)

lemma mget_Cons [simp, gomap_simps]: "mget ((k, v) # m) k' = (if k' = k then Some v else mget m k')"
  by (simp add: mget_def)

lemma mget_mput [simp, gomap_simps]: "mget (mput k v m) k' = (if k' = k then Some v else mget m k')"
  by (simp add: mget_def mput_def update_conv')

lemma mget_mdel [simp, gomap_simps]: "mget (mdel k m) k' = (if k' = k then None else mget m k')"
  by (simp add: mget_def mdel_def delete_conv')

lemma mwf_Nil [simp]: "mwf []"
  by (simp add: mwf_def mkeys_def)

lemma mwf_Cons [simp]: "mwf ((k, v) # m) \<longleftrightarrow> mget m k = None \<and> mwf m"
  by (auto simp: mwf_def mkeys_def mget_def map_of_eq_None_iff)

lemma mwf_mput [simp, intro]: "mwf m \<Longrightarrow> mwf (mput k v m)"
  by (simp add: mwf_def mkeys_def mput_def distinct_update)

lemma mwf_mdel [simp, intro]: "mwf m \<Longrightarrow> mwf (mdel k m)"
  by (simp add: mwf_def mkeys_def mdel_def distinct_delete)

lemma mget_iff: "mwf m \<Longrightarrow> mget m k = Some v \<longleftrightarrow> (k, v) \<in> set m"
  by (simp add: mwf_def mkeys_def mget_def)

lemma mget_set: "mget m k = Some v \<Longrightarrow> (k, v) \<in> set m"
  by (simp add: mget_def map_of_SomeD)

lemma mget_None_iff: "mget m k = None \<longleftrightarrow> k \<notin> set (mkeys m)"
  by (simp add: mget_def mkeys_def map_of_eq_None_iff)

text \<open>Counting the entries of a map is counting its keys.\<close>

lemma length_mwf: "mwf m \<Longrightarrow> length m = card {k. mget m k \<noteq> None}"
proof -
  assume wf: "mwf m"
  have eq: "{k. mget m k \<noteq> None} = set (mkeys m)"
    unfolding mget_None_iff by simp
  show ?thesis
    unfolding eq using wf by (simp add: mwf_def distinct_card) (simp add: mkeys_def)
qed

lemma filter_length_mwf:
  "mwf m \<Longrightarrow> length (filter (\<lambda>(k, v). P v) m) = card {k. \<exists>v. mget m k = Some v \<and> P v}"
proof (induction m)
  case Nil
  then show ?case by simp
next
  case (Cons p m)
  obtain k v where p: "p = (k, v)" by (cases p)
  have fin: "finite {j. \<exists>w. mget m j = Some w \<and> P w}"
    by (rule finite_subset [of _ "set (mkeys m)"]) (auto simp: mkeys_def dest!: mget_set intro: rev_image_eqI)
  have none: "mget m k = None" and wf: "mwf m" using Cons.prems by (simp_all add: p)
  have eq: "{j. \<exists>w. mget (p # m) j = Some w \<and> P w} =
      (if P v then insert k else (\<lambda>A. A)) {j. \<exists>w. mget m j = Some w \<and> P w}"
    using none by (auto simp: p)
  have "k \<notin> {j. \<exists>w. mget m j = Some w \<and> P w}"
    using none by simp
  then show ?case
    unfolding eq using fin Cons.IH [OF wf] by (simp add: p)
qed

text \<open>Two listings of the same entries are the same map: the order of a range loop is not observable.\<close>

lemma mwf_mset: "mwf m \<Longrightarrow> mset l = mset m \<Longrightarrow> mwf l"
  by (metis mkeys_def mset_eq_imp_distinct_iff mset_map mwf_def)

lemma mget_mset: "mwf m \<Longrightarrow> mset l = mset m \<Longrightarrow> mget l k = mget m k"
  by (metis mget_iff mwf_mset not_None_eq set_mset_mset)

lemma mget_code [code]: "mget m k = map_of m k"
  by (rule mget_def)

text \<open>Assigning to an absent key adds one entry; deleting removes at most one.\<close>

lemma mput_fresh: "mget m k = None \<Longrightarrow> mput k v m = m @ [(k, v)]"
  by (induction m) (auto simp: mget_def mput_def split: if_splits)

lemma length_mput_fresh: "mget m k = None \<Longrightarrow> length (mput k v m) = Suc (length m)"
  by (simp add: mput_fresh)

lemma length_mdel: "length (mdel k m) \<le> length m"
  by (simp add: mdel_def length_delete_le)

lemma set_mdel: "set (mdel k m) = {p \<in> set m. fst p \<noteq> k}"
  by (induction m) (auto simp: mdel_def)

lemma filter_length_mdel: "length (filter P (mdel k m)) \<le> length (filter P m)"
  by (induction m) (auto simp: mdel_def)

section \<open>Bytes and strings\<close>

type_synonym byte = "8 word"
type_synonym bytes = "byte list"

text \<open>A Go string is a sequence of bytes; \<open>[]byte(s)\<close> and \<open>string(b)\<close> change the type only.\<close>

definition byte_of_char :: "char \<Rightarrow> byte" where
  "byte_of_char c = word_of_nat (of_char c)"

definition char_of_byte :: "byte \<Rightarrow> char" where
  "char_of_byte b = char_of (unat b)"

definition str_bytes :: "string \<Rightarrow> bytes" where
  "str_bytes s = map byte_of_char s"

definition bytes_str :: "bytes \<Rightarrow> string" where
  "bytes_str b = map char_of_byte b"

lemma char_of_byte_of_char [simp]: "char_of_byte (byte_of_char c) = c"
  by (simp add: char_of_byte_def byte_of_char_def unat_of_nat)

lemma byte_of_char_of_byte [simp]: "byte_of_char (char_of_byte b) = b"
proof -
  have "unat b < 256"
    using unsigned_less [where w = b] by simp
  then show ?thesis
    by (simp add: char_of_byte_def byte_of_char_def)
qed

lemma bytes_str_str_bytes [simp, codec_simps]: "bytes_str (str_bytes s) = s"
  by (simp add: bytes_str_def str_bytes_def comp_def)

lemma str_bytes_bytes_str [simp, codec_simps]: "str_bytes (bytes_str b) = b"
  by (simp add: bytes_str_def str_bytes_def comp_def)

lemma str_bytes_inject [simp]: "str_bytes s = str_bytes t \<longleftrightarrow> s = t"
  by (metis bytes_str_str_bytes)

lemma length_str_bytes [simp]: "length (str_bytes s) = length s"
  by (simp add: str_bytes_def)

text \<open>\<open>strings.TrimSuffix\<close>, \<open>strings.Join\<close> and \<open>strings.HasPrefix\<close>.\<close>

definition trim_suffix :: "string \<Rightarrow> string \<Rightarrow> string" where
  "trim_suffix s suf =
     (if length suf \<le> length s \<and> drop (length s - length suf) s = suf
      then take (length s - length suf) s else s)"

fun join :: "'a list \<Rightarrow> 'a list list \<Rightarrow> 'a list" where
  "join sep [] = []"
| "join sep [x] = x"
| "join sep (x # y # xs) = x @ sep @ join sep (y # xs)"

definition has_prefix :: "string \<Rightarrow> string \<Rightarrow> bool" where
  "has_prefix s pre \<longleftrightarrow> take (length pre) s = pre"

section \<open>Instants and durations\<close>

type_synonym time = int
type_synonym duration = int

definition zero_time :: time where
  "zero_time = -62135596800 * 1000000000"

definition wrap64 :: "int \<Rightarrow> int" where
  "wrap64 x = (x + 2 ^ 63) mod 2 ^ 64 - 2 ^ 63"

definition dur_add :: "duration \<Rightarrow> duration \<Rightarrow> duration" where
  "dur_add a b = wrap64 (a + b)"

lemma wrap64_id: "- (2 ^ 63) \<le> x \<Longrightarrow> x < 2 ^ 63 \<Longrightarrow> wrap64 x = x"
  by (simp add: wrap64_def)

lemma wrap64_range: "- (2 ^ 63) \<le> wrap64 x \<and> wrap64 x < 2 ^ 63"
proof -
  have "0 \<le> (x + 2 ^ 63) mod 2 ^ 64" and "(x + 2 ^ 63) mod 2 ^ 64 < 2 ^ 64"
    by simp_all
  then show ?thesis
    unfolding wrap64_def by simp
qed

section \<open>Readers\<close>

text \<open>
  \<open>io.ReadFull(r, buf)\<close> on a reader that holds the given bytes: all of \<open>n\<close> bytes, or an
  error after consuming what was left.
\<close>

definition read_full :: "nat \<Rightarrow> bytes \<Rightarrow> bytes result \<times> bytes" where
  "read_full n r =
     (if n \<le> length r then (Inr (take n r), drop n r)
      else (Inl (if r = [] then Sentinel IoEOF else ErrText ''unexpected EOF''), []))"

lemma read_full_ok: "read_full n r = (Inr b, r') \<Longrightarrow> length b = n \<and> r = b @ r'"
  by (auto simp: read_full_def split: if_splits)

end
