(* ===== verification/Codecs.thy ===== *)
theory Codecs
  imports Prelude
begin

text \<open>
  The encoders of the standard library the gateway stores and transmits values with:
  \<open>encoding/hex\<close>, the unpadded alphabets of \<open>encoding/base64\<close>, \<open>strconv\<close> decimals and
  \<open>binary.BigEndian.PutUint32\<close>. Each decoder accepts what the library's does (hex in either
  case, base64 with line breaks skipped and non-zero trailing bits, a sign before an integer),
  and each encoder is undone by its decoder.
\<close>

section \<open>Hexadecimal\<close>

definition hex_digit :: "nat \<Rightarrow> char" where
  "hex_digit n = (if n < 10 then char_of (48 + n) else char_of (87 + n))"

definition hex_value :: "char \<Rightarrow> nat option" where
  "hex_value c =
     (let n = of_char c :: nat in
      if 48 \<le> n \<and> n \<le> 57 then Some (n - 48)
      else if 97 \<le> n \<and> n \<le> 102 then Some (n - 87)
      else if 65 \<le> n \<and> n \<le> 70 then Some (n - 55)
      else None)"

definition hex_byte :: "byte \<Rightarrow> string" where
  "hex_byte b = [hex_digit (unat b div 16), hex_digit (unat b mod 16)]"

definition hex_encode :: "bytes \<Rightarrow> string" where
  "hex_encode bs = concat (map hex_byte bs)"

fun hex_decode :: "string \<Rightarrow> bytes option" where
  "hex_decode [] = Some []"
| "hex_decode [c] = None"
| "hex_decode (c # d # s) =
     (case (hex_value c, hex_value d, hex_decode s) of
        (Some x, Some y, Some bs) \<Rightarrow> Some (word_of_nat (16 * x + y) # bs)
      | _ \<Rightarrow> None)"

lemma hex_value_digit [simp]: "n < 16 \<Longrightarrow> hex_value (hex_digit n) = Some n"
  by (auto simp: hex_value_def hex_digit_def Let_def)

lemma byte_unat_bound [simp]: "unat (b :: byte) < 256"
  using unsigned_less [where w = b] by simp

lemma word_of_nat_unat_byte: "word_of_nat (unat (b :: byte)) = b"
  by simp

lemma byte_nibbles [simp]: "(word_of_nat (16 * (unat b div 16) + unat b mod 16) :: byte) = b"
proof -
  have "16 * (unat b div 16) + unat b mod 16 = unat b" by simp
  then show ?thesis by (simp only: word_of_nat_unat_byte)
qed

lemma hex_decode_encode [simp, codec_simps]: "hex_decode (hex_encode bs) = Some bs"
proof (induction bs)
  case Nil
  show ?case by (simp add: hex_encode_def)
next
  case (Cons b bs)
  have "unat b div 16 < 16"
    using byte_unat_bound [of b] by linarith
  then have "hex_decode (hex_byte b @ hex_encode bs) = Some (b # bs)"
    using Cons by (simp add: hex_byte_def del: byte_unat_bound)
  then show ?case by (simp add: hex_encode_def)
qed

lemma hex_encode_inject [simp]: "hex_encode a = hex_encode b \<longleftrightarrow> a = b"
  by (metis hex_decode_encode option.inject)

lemma length_hex_encode [simp]: "length (hex_encode bs) = 2 * length bs"
  by (induction bs) (simp_all add: hex_encode_def hex_byte_def)

section \<open>Base64 without padding\<close>

definition b64_common :: string where
  "b64_common =
     ''ABCDEFGHIJKLMNOPQRSTUVWXYZabcdefghijklmnopqrstuvwxyz0123456789''"

definition b64_std :: string where
  "b64_std = b64_common @ ''+/''"

definition b64_url :: string where
  "b64_url = b64_common @ ''-_''"

fun b64_sextets :: "nat list \<Rightarrow> nat list" where
  "b64_sextets [] = []"
| "b64_sextets [a] = [a div 4, a mod 4 * 16]"
| "b64_sextets [a, b] = [a div 4, a mod 4 * 16 + b div 16, b mod 16 * 4]"
| "b64_sextets (a # b # c # s) =
     a div 4 # (a mod 4 * 16 + b div 16) # (b mod 16 * 4 + c div 64) # c mod 64 # b64_sextets s"

fun b64_octets :: "nat list \<Rightarrow> nat list option" where
  "b64_octets [] = Some []"
| "b64_octets [w] = None"
| "b64_octets [w, x] = Some [(w * 4 + x div 16) mod 256]"
| "b64_octets [w, x, y] = Some [(w * 4 + x div 16) mod 256, (x * 16 + y div 4) mod 256]"
| "b64_octets (w # x # y # z # s) =
     map_option (\<lambda>r. (w * 4 + x div 16) mod 256 # (x * 16 + y div 4) mod 256
                     # (y * 64 + z) mod 256 # r) (b64_octets s)"

fun index_of :: "'a \<Rightarrow> 'a list \<Rightarrow> nat option" where
  "index_of x [] = None"
| "index_of x (y # ys) = (if x = y then Some 0 else map_option Suc (index_of x ys))"

fun traverse :: "('a \<Rightarrow> 'b option) \<Rightarrow> 'a list \<Rightarrow> 'b list option" where
  "traverse f [] = Some []"
| "traverse f (x # xs) =
     (case (f x, traverse f xs) of (Some y, Some ys) \<Rightarrow> Some (y # ys) | _ \<Rightarrow> None)"

definition b64_encode :: "string \<Rightarrow> bytes \<Rightarrow> string" where
  "b64_encode alphabet bs = map (\<lambda>i. alphabet ! i) (b64_sextets (map unat bs))"

definition b64_decode :: "string \<Rightarrow> string \<Rightarrow> bytes option" where
  "b64_decode alphabet s =
     (case traverse (\<lambda>c. index_of c alphabet)
             (filter (\<lambda>c. c \<noteq> CHR 0x0A \<and> c \<noteq> CHR 0x0D) s) of
        None \<Rightarrow> None
      | Some ix \<Rightarrow> map_option (map word_of_nat) (b64_octets ix))"

lemma b64_alphabets [simp]:
  "length b64_std = 64" "length b64_url = 64" "distinct b64_std" "distinct b64_url"
  "CHR 0x0A \<notin> set b64_std" "CHR 0x0D \<notin> set b64_std"
  "CHR 0x0A \<notin> set b64_url" "CHR 0x0D \<notin> set b64_url"
  by (simp_all add: b64_std_def b64_url_def b64_common_def)

lemma index_of_nth: "distinct xs \<Longrightarrow> i < length xs \<Longrightarrow> index_of (xs ! i) xs = Some i"
proof (induction xs arbitrary: i)
  case Nil
  then show ?case by simp
next
  case (Cons x xs)
  then show ?case by (cases i) auto
qed

lemma traverse_map:
  "(\<And>x. x \<in> set xs \<Longrightarrow> f (g x) = Some (h x)) \<Longrightarrow> traverse f (map g xs) = Some (map h xs)"
  by (induction xs) auto

lemma b64_sextets_bound: "\<forall>a \<in> set ns. a < 256 \<Longrightarrow> \<forall>i \<in> set (b64_sextets ns). i < 64"
  by (induction ns rule: b64_sextets.induct) (auto; presburger)+

lemma b64_octets_sextets:
  "\<forall>a \<in> set ns. a < 256 \<Longrightarrow> b64_octets (b64_sextets ns) = Some ns"
  by (induction ns rule: b64_sextets.induct) (auto; presburger)+

lemma length_b64_sextets: "length (b64_sextets ns) = (4 * length ns + 2) div 3"
  by (induction ns rule: b64_sextets.induct) auto

lemma length_b64_encode: "length (b64_encode alphabet bs) = (4 * length bs + 2) div 3"
  by (simp add: b64_encode_def length_b64_sextets)

lemma b64_decode_encode:
  assumes len: "length alphabet = 64" and dist: "distinct alphabet"
    and "CHR 0x0A \<notin> set alphabet" and "CHR 0x0D \<notin> set alphabet"
  shows "b64_decode alphabet (b64_encode alphabet bs) = Some bs"
proof -
  let ?ix = "b64_sextets (map unat bs)"
  have bound: "\<forall>i \<in> set ?ix. i < 64"
    by (rule b64_sextets_bound) simp
  have "filter (\<lambda>c. c \<noteq> CHR 0x0A \<and> c \<noteq> CHR 0x0D) (b64_encode alphabet bs) =
      b64_encode alphabet bs"
    using bound assms(3,4) len by (auto simp: b64_encode_def filter_id_conv in_set_conv_nth)
  moreover have "traverse (\<lambda>c. index_of c alphabet) (b64_encode alphabet bs) = Some ?ix"
    using traverse_map [of ?ix "\<lambda>c. index_of c alphabet" "\<lambda>i. alphabet ! i" "\<lambda>i. i"]
      bound len dist by (simp add: b64_encode_def index_of_nth)
  moreover have "b64_octets ?ix = Some (map unat bs)"
    by (rule b64_octets_sextets) simp
  ultimately show ?thesis
    by (simp add: b64_decode_def comp_def)
qed

lemma b64_std_round [simp, codec_simps]: "b64_decode b64_std (b64_encode b64_std bs) = Some bs"
  by (rule b64_decode_encode) simp_all

lemma b64_url_round [simp, codec_simps]: "b64_decode b64_url (b64_encode b64_url bs) = Some bs"
  by (rule b64_decode_encode) simp_all

lemma b64_url_inject [simp]: "b64_encode b64_url a = b64_encode b64_url b \<longleftrightarrow> a = b"
  by (metis b64_url_round option.inject)

lemma b64_encode_subset: "length alphabet = 64 \<Longrightarrow> set (b64_encode alphabet bs) \<subseteq> set alphabet"
  using b64_sextets_bound [of "map unat bs"] by (auto simp: b64_encode_def)

section \<open>Decimal integers\<close>

fun dec_nat :: "nat \<Rightarrow> string" where
  "dec_nat n =
     (if n < 10 then [char_of (48 + n)] else dec_nat (n div 10) @ [char_of (48 + n mod 10)])"

declare dec_nat.simps [simp del]

definition dec_int :: "int \<Rightarrow> string" where
  "dec_int i = (if i < 0 then CHR ''-'' # dec_nat (nat (- i)) else dec_nat (nat i))"

definition is_digit :: "char \<Rightarrow> bool" where
  "is_digit c \<longleftrightarrow> (48::nat) \<le> of_char c \<and> of_char c \<le> (57::nat)"

definition digits_value :: "string \<Rightarrow> nat" where
  "digits_value s = foldl (\<lambda>acc c. acc * 10 + (of_char c - 48)) 0 s"

definition parse_nat :: "string \<Rightarrow> nat option" where
  "parse_nat s = (if s \<noteq> [] \<and> list_all is_digit s then Some (digits_value s) else None)"

text \<open>
  \<open>strconv.ParseInt(s, 10, 64)\<close> with its error dropped: the value the caller sees is 0 after a
  syntax error and the nearest bound after a range error. \<open>parse_uint16\<close> is
  \<open>strconv.ParseUint(s, 10, 16)\<close> read the same way.
\<close>

definition clamp64 :: "int \<Rightarrow> int" where
  "clamp64 i = max (- (2 ^ 63)) (min i (2 ^ 63 - 1))"

definition parse_int64 :: "string \<Rightarrow> int" where
  "parse_int64 s =
     (case s of
        [] \<Rightarrow> 0
      | c # t \<Rightarrow>
          if c = CHR ''-'' then (case parse_nat t of None \<Rightarrow> 0 | Some n \<Rightarrow> clamp64 (- int n))
          else if c = CHR ''+'' then (case parse_nat t of None \<Rightarrow> 0 | Some n \<Rightarrow> clamp64 (int n))
          else (case parse_nat s of None \<Rightarrow> 0 | Some n \<Rightarrow> clamp64 (int n)))"

definition parse_uint16 :: "string \<Rightarrow> nat" where
  "parse_uint16 s = (case parse_nat s of None \<Rightarrow> 0 | Some n \<Rightarrow> min n 65535)"

lemma dec_nat_digits: "list_all is_digit (dec_nat n)"
proof (induction n rule: dec_nat.induct)
  case (1 n)
  then show ?case
    by (cases "n < 10") (auto simp: dec_nat.simps [of n] is_digit_def)
qed

lemma dec_nat_nonempty [simp]: "dec_nat n \<noteq> []"
  by (simp add: dec_nat.simps [of n])

lemma digits_value_dec_nat: "digits_value (dec_nat n) = n"
proof (induction n rule: dec_nat.induct)
  case (1 n)
  show ?case
  proof (cases "n < 10")
    case True
    then show ?thesis by (simp add: dec_nat.simps [of n] digits_value_def)
  next
    case False
    with 1 have "digits_value (dec_nat (n div 10)) = n div 10" by simp
    with False show ?thesis by (simp add: dec_nat.simps [of n] digits_value_def)
  qed
qed

lemma parse_nat_dec_nat [simp, codec_simps]: "parse_nat (dec_nat n) = Some n"
  by (simp add: parse_nat_def dec_nat_digits digits_value_dec_nat)

lemma dec_nat_inject [simp]: "dec_nat m = dec_nat n \<longleftrightarrow> m = n"
  by (metis digits_value_dec_nat)

lemma dec_nat_head: "dec_nat n = c # t \<Longrightarrow> is_digit c"
  using dec_nat_digits [of n] by simp

lemma dec_int_inject [simp]: "dec_int i = dec_int j \<longleftrightarrow> i = j"
proof
  have minus: "\<not> is_digit (CHR ''-'')" by (simp add: is_digit_def)
  assume eq: "dec_int i = dec_int j"
  show "i = j"
    using eq minus dec_nat_head [of "nat i"] dec_nat_head [of "nat j"]
    by (auto simp: dec_int_def split: if_splits) (metis dec_nat_head)+
qed simp

lemma parse_int64_dec_int [codec_simps]:
  assumes "- (2 ^ 63) \<le> i" and "i < 2 ^ 63"
  shows "parse_int64 (dec_int i) = i"
proof (cases "i < 0")
  case True
  with assms show ?thesis by (simp add: parse_int64_def dec_int_def clamp64_def)
next
  case False
  obtain c t where ct: "dec_nat (nat i) = c # t"
    by (meson dec_nat_nonempty neq_Nil_conv)
  then have "is_digit c" by (rule dec_nat_head)
  then have "c \<noteq> CHR ''-''" and "c \<noteq> CHR ''+''" by (auto simp: is_digit_def)
  with False assms ct parse_nat_dec_nat [of "nat i"] show ?thesis
    by (simp add: parse_int64_def dec_int_def clamp64_def)
qed

lemma parse_uint16_dec_nat [codec_simps]: "n < 65536 \<Longrightarrow> parse_uint16 (dec_nat n) = n"
  by (simp add: parse_uint16_def)

section \<open>Big-endian lengths\<close>

text \<open>\<open>binary.BigEndian.PutUint32(b, uint32(n))\<close>: the length is taken modulo \<open>2 ^ 32\<close>.\<close>

definition be32 :: "nat \<Rightarrow> bytes" where
  "be32 n = [word_of_nat (n div 2 ^ 24), word_of_nat (n div 2 ^ 16),
             word_of_nat (n div 2 ^ 8), word_of_nat n]"

definition be32_value :: "bytes \<Rightarrow> nat" where
  "be32_value bs = foldl (\<lambda>acc b. acc * 256 + unat b) 0 bs"

lemma length_be32 [simp]: "length (be32 n) = 4"
  by (simp add: be32_def)

lemma be32_value_be32 [codec_simps]: "be32_value (be32 n) = n mod 2 ^ 32"
proof -
  have "be32_value (be32 n) =
      ((n div 2 ^ 24 mod 256 * 256 + n div 2 ^ 16 mod 256) * 256 + n div 2 ^ 8 mod 256) * 256
        + n mod 256"
    by (simp add: be32_def be32_value_def unat_of_nat)
  also have "\<dots> = n mod (256 * (256 * (256 * 256)))"
    unfolding mod_mult2_eq [of n 256] mod_mult2_eq [of "n div 256" 256]
      mod_mult2_eq [of "n div 256 div 256" 256]
    by (simp add: div_mult2_eq [symmetric] algebra_simps)
  finally show ?thesis by simp
qed

end
