(* ===== verification/SessionModel.thy ===== *)
theory SessionModel
  imports Codecs
begin

text \<open>
  The data of \<open>internal/session/model.go\<close> and the \<open>Store\<close> interface of
  \<open>internal/session/store.go\<close>. A Go string type with named constants is a datatype with one
  constructor per constant and one for every other string; its zero value is the empty other
  string. Record fields carry a prefix for the struct they belong to.
\<close>

section \<open>Named string types\<close>

datatype session_state = StateIssued | StateClaimed | StateClosed | StateOther string

fun state_str :: "session_state \<Rightarrow> string" where
  "state_str StateIssued = ''issued''"
| "state_str StateClaimed = ''claimed''"
| "state_str StateClosed = ''closed''"
| "state_str (StateOther s) = s"

definition state_of_str :: "string \<Rightarrow> session_state" where
  "state_of_str s =
     (if s = ''issued'' then StateIssued else if s = ''claimed'' then StateClaimed
      else if s = ''closed'' then StateClosed else StateOther s)"

datatype mode = ModeExec | ModeSerial | ModeVNC | ModeOther string

fun mode_str :: "mode \<Rightarrow> string" where
  "mode_str ModeExec = ''exec''"
| "mode_str ModeSerial = ''serial''"
| "mode_str ModeVNC = ''vnc''"
| "mode_str (ModeOther s) = s"

definition mode_of_str :: "string \<Rightarrow> mode" where
  "mode_of_str s =
     (if s = ''exec'' then ModeExec else if s = ''serial'' then ModeSerial
      else if s = ''vnc'' then ModeVNC else ModeOther s)"

datatype workload_kind =
  WorkloadContainer | WorkloadGPUContainer | WorkloadSandbox | WorkloadVM | WorkloadOther string

fun kind_str :: "workload_kind \<Rightarrow> string" where
  "kind_str WorkloadContainer = ''container''"
| "kind_str WorkloadGPUContainer = ''gpu_container''"
| "kind_str WorkloadSandbox = ''sandbox''"
| "kind_str WorkloadVM = ''vm''"
| "kind_str (WorkloadOther s) = s"

definition kind_of_str :: "string \<Rightarrow> workload_kind" where
  "kind_of_str s =
     (if s = ''container'' then WorkloadContainer
      else if s = ''gpu_container'' then WorkloadGPUContainer
      else if s = ''sandbox'' then WorkloadSandbox
      else if s = ''vm'' then WorkloadVM else WorkloadOther s)"

text \<open>
  A value of these types is canonical when its other-constructor does not spell a constant;
  Go has one value per string, so every value that occurs in the code is canonical.
\<close>

definition mode_canonical :: "mode \<Rightarrow> bool" where
  "mode_canonical m \<longleftrightarrow> mode_of_str (mode_str m) = m"

definition kind_canonical :: "workload_kind \<Rightarrow> bool" where
  "kind_canonical k \<longleftrightarrow> kind_of_str (kind_str k) = k"

definition state_canonical :: "session_state \<Rightarrow> bool" where
  "state_canonical s \<longleftrightarrow> state_of_str (state_str s) = s"

lemma mode_canonical_consts [simp]:
  "mode_canonical ModeExec" "mode_canonical ModeSerial" "mode_canonical ModeVNC"
  by (simp_all add: mode_canonical_def mode_of_str_def)

lemma kind_canonical_consts [simp]:
  "kind_canonical WorkloadContainer" "kind_canonical WorkloadGPUContainer"
  "kind_canonical WorkloadSandbox" "kind_canonical WorkloadVM"
  by (simp_all add: kind_canonical_def kind_of_str_def)

lemma state_canonical_consts [simp]:
  "state_canonical StateIssued" "state_canonical StateClaimed" "state_canonical StateClosed"
  by (simp_all add: state_canonical_def state_of_str_def)

lemma mode_str_inject: "mode_canonical m \<Longrightarrow> mode_canonical n \<Longrightarrow> mode_str m = mode_str n \<Longrightarrow> m = n"
  by (metis mode_canonical_def)

lemma kind_str_inject: "kind_canonical m \<Longrightarrow> kind_canonical n \<Longrightarrow> kind_str m = kind_str n \<Longrightarrow> m = n"
  by (metis kind_canonical_def)

section \<open>Structs\<close>

type_synonym u16 = "16 word"

record terminal_size =
  ts_Rows :: u16
  ts_Cols :: u16

record instance_binding =
  ib_Enabled :: bool
  ib_Version :: int
  ib_ClusterID :: string
  ib_Namespace :: string
  ib_NotebookName :: string
  ib_NotebookUID :: string
  ib_PodName :: string
  ib_PodUID :: string
  ib_ContainerName :: string
  ib_Shell :: string

record vm_binding =
  vb_Enabled :: bool
  vb_TenantID :: string
  vb_VMID :: string
  vb_Version :: int
  vb_ClusterID :: string
  vb_Namespace :: string
  vb_VMName :: string
  vb_VMUID :: string
  vb_VMIName :: string
  vb_VMIUID :: string
  vb_NamespaceUID :: string

definition zero_instance_binding :: instance_binding where
  "zero_instance_binding = \<lparr> ib_Enabled = False, ib_Version = 0, ib_ClusterID = [],
     ib_Namespace = [], ib_NotebookName = [], ib_NotebookUID = [], ib_PodName = [],
     ib_PodUID = [], ib_ContainerName = [], ib_Shell = [] \<rparr>"

definition zero_vm_binding :: vm_binding where
  "zero_vm_binding = \<lparr> vb_Enabled = False, vb_TenantID = [], vb_VMID = [], vb_Version = 0,
     vb_ClusterID = [], vb_Namespace = [], vb_VMName = [], vb_VMUID = [], vb_VMIName = [],
     vb_VMIUID = [], vb_NamespaceUID = [] \<rparr>"

record request =
  rq_InstanceBinding :: instance_binding
  rq_VMBinding :: vm_binding
  rq_RequestID :: string
  rq_IdempotencyKey :: string
  rq_TenantID :: string
  rq_SubjectID :: string
  rq_InstanceID :: string
  rq_WorkloadName :: string
  rq_WorkloadKind :: workload_kind
  rq_Mode :: mode
  rq_Container :: string
  rq_Command :: "string list"
  rq_TTY :: bool
  rq_Rows :: u16
  rq_Cols :: u16
  rq_RequestedProtocol :: string

record session =
  s_InstanceBinding :: instance_binding
  s_VMBinding :: vm_binding
  s_ID :: string
  s_IdempotencyKey :: string
  s_RequestFingerprint :: bytes
  s_TicketDigest :: bytes
  s_TicketCiphertext :: bytes
  s_TenantID :: string
  s_SubjectID :: string
  s_InstanceID :: string
  s_WorkloadName :: string
  s_WorkloadKind :: workload_kind
  s_Mode :: mode
  s_Container :: string
  s_Command :: "string list"
  s_TTY :: bool
  s_Rows :: u16
  s_Cols :: u16
  s_RequestedProtocol :: string
  s_State :: session_state
  s_CreatedAt :: time
  s_TicketExpiresAt :: time
  s_ExpiresAt :: time
  s_TombstoneExpiresAt :: time
  s_ClaimedAt :: time
  s_ClosedAt :: time
  s_CloseReason :: string
  s_LeaseID :: string

text \<open>\<open>session.Session{}\<close>, the value a missing map entry reads as.\<close>

definition zero_session :: session where
  "zero_session = \<lparr> s_InstanceBinding = zero_instance_binding, s_VMBinding = zero_vm_binding,
     s_ID = [], s_IdempotencyKey = [], s_RequestFingerprint = replicate 32 0,
     s_TicketDigest = replicate 32 0, s_TicketCiphertext = [], s_TenantID = [],
     s_SubjectID = [], s_InstanceID = [], s_WorkloadName = [],
     s_WorkloadKind = WorkloadOther [], s_Mode = ModeOther [], s_Container = [],
     s_Command = [], s_TTY = False, s_Rows = 0, s_Cols = 0, s_RequestedProtocol = [],
     s_State = StateOther [], s_CreatedAt = zero_time, s_TicketExpiresAt = zero_time,
     s_ExpiresAt = zero_time, s_TombstoneExpiresAt = zero_time, s_ClaimedAt = zero_time,
     s_ClosedAt = zero_time, s_CloseReason = [], s_LeaseID = [] \<rparr>"

record issued =
  is_Session :: session
  is_Ticket :: string
  is_Replayed :: bool

record claim_limits =
  cl_MaxActive :: int
  cl_MaxActivePerSubject :: int
  cl_SessionMaxDuration :: duration
  cl_IdempotencyTTL :: duration

record session_lease =
  le_ID :: string
  le_Session :: session
  le_ExpiresAt :: time

record exec_options =
  eo_Container :: string
  eo_Command :: "string list"
  eo_TTY :: bool
  eo_Size :: terminal_size

record identity =
  id_TenantID :: string
  id_SubjectID :: string
  id_InstanceID :: string

record target =
  tg_InstanceBinding :: instance_binding
  tg_VMBinding :: vm_binding
  tg_WorkloadName :: string
  tg_WorkloadKind :: workload_kind

record claimed_access =
  ca_SessionID :: string
  ca_LeaseID :: string
  ca_ExpiresAt :: time
  ca_Identity :: identity
  ca_Target :: target
  ca_Mode :: mode
  ca_Exec :: "exec_options option"

record replay_request =
  rr_IdempotencyKey :: string
  rr_TenantID :: string
  rr_SubjectID :: string
  rr_InstanceID :: string
  rr_ExpectedVersion :: int

section \<open>The Store interface\<close>

text \<open>
  An implementation of \<open>session.Store\<close> with state \<open>'s\<close>: each method takes the state and
  returns its results with the state it leaves. The context argument carries no data.
\<close>

record 's store_ops =
  st_CreateOrGet :: "string \<Rightarrow> session \<Rightarrow> 's \<Rightarrow> (session \<times> bool) result \<times> 's"
  st_GetByKey :: "string \<Rightarrow> 's \<Rightarrow> session result \<times> 's"
  st_ClaimAndReserve :: "string \<Rightarrow> bytes \<Rightarrow> time \<Rightarrow> claim_limits \<Rightarrow> 's \<Rightarrow> session_lease result \<times> 's"
  st_CloseAndRelease :: "string \<Rightarrow> string \<Rightarrow> string \<Rightarrow> time \<Rightarrow> 's \<Rightarrow> unit result \<times> 's"
  st_Ready :: "'s \<Rightarrow> unit result"
  st_Mode :: string

text \<open>
  The two ways a session leaves the issued or claimed state, as both stores write them: the
  ticket ciphertext never survives.
\<close>

definition closed_session :: "time \<Rightarrow> string \<Rightarrow> session \<Rightarrow> session" where
  "closed_session at reason st = st\<lparr> s_State := StateClosed, s_ClosedAt := at,
     s_CloseReason := reason, s_TicketCiphertext := [] \<rparr>"

lemma closed_session_simps [simp]:
  "s_State (closed_session at reason st) = StateClosed"
  "s_ClosedAt (closed_session at reason st) = at"
  "s_CloseReason (closed_session at reason st) = reason"
  "s_TicketCiphertext (closed_session at reason st) = []"
  "s_ID (closed_session at reason st) = s_ID st"
  "s_TicketDigest (closed_session at reason st) = s_TicketDigest st"
  "s_RequestFingerprint (closed_session at reason st) = s_RequestFingerprint st"
  "s_SubjectID (closed_session at reason st) = s_SubjectID st"
  "s_TombstoneExpiresAt (closed_session at reason st) = s_TombstoneExpiresAt st"
  "s_ExpiresAt (closed_session at reason st) = s_ExpiresAt st"
  "s_LeaseID (closed_session at reason st) = s_LeaseID st"
  by (simp_all add: closed_session_def)

end
