(* ===== verification/KubernetesExec.thy ===== *)
theory KubernetesExec
  imports SessionModel
begin

text \<open>
  \<open>internal/runtime/stream.go\<close> and \<open>internal/runtime/kubernetes\<close>: the targets of the runtime port, the
  resolution of an exec target to a pod and a container, the exec request, and the stream object with
  its resize queue.

  The Kubernetes API is a parameter: \<open>list_pods\<close> answers a list request for a namespace and a set of
  required labels, \<open>dns_label\<close> is \<open>validation.IsDNS1123Label\<close> without complaints, and the executor
  factory says whether an executor could be built. A pod carries the fields the code reads; a label
  that is absent reads as the empty string.
\<close>

section \<open>Targets\<close>

record exec_target =
  et_InstanceID :: string
  et_InstanceBinding :: instance_binding
  et_TenantID :: string
  et_WorkloadName :: string
  et_WorkloadKind :: workload_kind
  et_Container :: string
  et_Command :: "string list"
  et_TTY :: bool

record vm_target =
  vt_TenantID :: string
  vt_InstanceID :: string
  vt_WorkloadName :: string
  vt_Binding :: vm_binding

section \<open>Pods\<close>

record pod =
  po_Namespace :: string
  po_Name :: string
  po_UID :: string
  po_Labels :: "(string, string) gomap"
  po_Deleting :: bool
  po_Phase :: string
  po_Conditions :: "(string \<times> string) list"
  po_Created :: int
  po_Containers :: "string list"

definition label_value :: "(string, string) gomap \<Rightarrow> string \<Rightarrow> string" where
  "label_value m k = (case mget m k of Some v \<Rightarrow> v | None \<Rightarrow> [])"

abbreviation tenantLabel :: string where "tenantLabel \<equiv> ''ani.kubercloud.io/tenant-id''"
abbreviation instanceLabel :: string where "instanceLabel \<equiv> ''ani.kubercloud.io/instance''"
abbreviation resourceTenantLabel :: string where
  "resourceTenantLabel \<equiv> ''accelerator.ani.io/resource-tenant-id''"
abbreviation resourceIDLabel :: string where "resourceIDLabel \<equiv> ''accelerator.ani.io/resource-id''"
abbreviation ownerServiceLabel :: string where "ownerServiceLabel \<equiv> ''accelerator.ani.io/owner-service''"

definition namespace_for_tenant :: "(string \<Rightarrow> bool) \<Rightarrow> string \<Rightarrow> string result" where
  "namespace_for_tenant dns_label tenantID =
     (let namespace = ''ani-tenant-'' @ tenantID in
      if tenantID = [] \<or> \<not> dns_label namespace then Inl (Sentinel RtInvalidTarget) else Inr namespace)"

fun pod_ready :: "(string \<times> string) list \<Rightarrow> bool" where
  "pod_ready [] = False"
| "pod_ready ((t, s) # cs) = (if t = ''Ready'' \<and> s = ''True'' then True else pod_ready cs)"

definition pod_matches :: "exec_target \<Rightarrow> string \<Rightarrow> pod \<Rightarrow> bool" where
  "pod_matches target namespace p =
     (if ib_Enabled (et_InstanceBinding target) then
        (let b = et_InstanceBinding target in
         \<not> (po_Namespace p \<noteq> namespace \<or> po_Name p \<noteq> ib_PodName b \<or> po_UID p \<noteq> ib_PodUID b \<or>
            label_value (po_Labels p) resourceTenantLabel \<noteq> et_TenantID target \<or>
            label_value (po_Labels p) resourceIDLabel \<noteq> et_InstanceID target \<or>
            label_value (po_Labels p) ownerServiceLabel \<noteq> ''ani-resource-service''))
      else
        \<not> (label_value (po_Labels p) tenantLabel \<noteq> et_TenantID target \<or>
           label_value (po_Labels p) instanceLabel \<noteq> et_WorkloadName target))"

definition pod_eligible :: "pod \<Rightarrow> bool" where
  "pod_eligible p \<longleftrightarrow> \<not> po_Deleting p \<and> po_Phase p = ''Running'' \<and> pod_ready (po_Conditions p)"

text \<open>The loop over the listed pods: whether any matched, and the eligible ones.\<close>

fun collect_pods :: "exec_target \<Rightarrow> string \<Rightarrow> pod list \<Rightarrow> bool \<times> pod list \<Rightarrow> bool \<times> pod list" where
  "collect_pods target namespace [] acc = acc"
| "collect_pods target namespace (p # ps) (matched, eligible) =
     (if \<not> pod_matches target namespace p then collect_pods target namespace ps (matched, eligible)
      else collect_pods target namespace ps
             (True, if pod_eligible p then eligible @ [p] else eligible))"

text \<open>
  The order of \<open>sort.Slice\<close>: newest first, then by name. Pods of one namespace have different names,
  so the sorted list is unique and the sorting algorithm does not matter.
\<close>

fun str_less :: "string \<Rightarrow> string \<Rightarrow> bool" where
  "str_less s [] = False"
| "str_less [] (d # t) = True"
| "str_less (c # s) (d # t) = (if c = d then str_less s t else (of_char c :: nat) < of_char d)"

definition pod_before :: "pod \<Rightarrow> pod \<Rightarrow> bool" where
  "pod_before p q =
     (if po_Created p = po_Created q then str_less (po_Name p) (po_Name q)
      else po_Created p > po_Created q)"

fun insert_pod :: "pod \<Rightarrow> pod list \<Rightarrow> pod list" where
  "insert_pod p [] = [p]"
| "insert_pod p (q # qs) = (if pod_before q p then q # insert_pod p qs else p # q # qs)"

definition sort_pods :: "pod list \<Rightarrow> pod list" where
  "sort_pods ps = foldr insert_pod ps []"

record resolved_pod =
  rp_Namespace :: string
  rp_Name :: string
  rp_Container :: string

definition required_labels :: "exec_target \<Rightarrow> (string, string) gomap" where
  "required_labels target =
     (if ib_Enabled (et_InstanceBinding target) then
        [(resourceTenantLabel, et_TenantID target), (resourceIDLabel, et_InstanceID target),
         (ownerServiceLabel, ''ani-resource-service'')]
      else [(tenantLabel, et_TenantID target), (instanceLabel, et_WorkloadName target)])"

definition target_namespace :: "(string \<Rightarrow> bool) \<Rightarrow> exec_target \<Rightarrow> string result" where
  "target_namespace dns_label target =
     (if ib_Enabled (et_InstanceBinding target) then
        (let namespace = ib_Namespace (et_InstanceBinding target) in
         if \<not> dns_label namespace then Inl (Sentinel RtInvalidTarget) else Inr namespace)
      else namespace_for_tenant dns_label (et_TenantID target))"

definition choose_container :: "exec_target \<Rightarrow> pod \<Rightarrow> string result" where
  "choose_container target p =
     (if et_Container target = [] then
        (case po_Containers p of
           [c] \<Rightarrow> Inr c
         | _ \<Rightarrow> Inl (Sentinel RtAmbiguousContainer))
      else if et_Container target \<in> set (po_Containers p) then Inr (et_Container target)
      else Inl (Sentinel RtInvalidTarget))"

definition resolve ::
  "(string \<Rightarrow> bool) \<Rightarrow> (string \<Rightarrow> (string, string) gomap \<Rightarrow> pod list result) \<Rightarrow> exec_target
     \<Rightarrow> resolved_pod result" where
  "resolve dns_label list_pods target =
     (if et_WorkloadKind target \<noteq> WorkloadContainer \<and> et_WorkloadKind target \<noteq> WorkloadGPUContainer \<and>
         et_WorkloadKind target \<noteq> WorkloadSandbox
      then Inl (Sentinel RtInvalidTarget)
      else
        (case target_namespace dns_label target of
           Inl e \<Rightarrow> Inl e
         | Inr namespace \<Rightarrow>
             (case list_pods namespace (required_labels target) of
                Inl _ \<Rightarrow> Inl (Wrap (Sentinel RtUnavailable) ''list eligible pods'')
              | Inr items \<Rightarrow>
                  (case collect_pods target namespace items (False, []) of
                     (matched, eligible) \<Rightarrow>
                       (case sort_pods eligible of
                          [] \<Rightarrow> Inl (Sentinel (if matched then RtTargetNotReady else RtTargetNotFound))
                        | selected # _ \<Rightarrow>
                            if ib_Enabled (et_InstanceBinding target) \<and> length eligible \<noteq> 1
                            then Inl (Sentinel RtInvalidTarget)
                            else
                              (case choose_container target selected of
                                 Inl e \<Rightarrow> Inl e
                               | Inr c \<Rightarrow> Inr \<lparr> rp_Namespace = namespace, rp_Name = po_Name selected,
                                                rp_Container = c \<rparr>))))))"

section \<open>Opening an exec\<close>

record exec_request =
  er_Namespace :: string
  er_Pod :: string
  er_Container :: string
  er_Command :: "string list"
  er_Stdin :: bool
  er_Stdout :: bool
  er_Stderr :: bool
  er_TTY :: bool

record exec_adapter =
  ea_InstanceValidator :: "(string \<Rightarrow> string \<Rightarrow> instance_binding \<Rightarrow> error option) option"
  ea_ClusterID :: string
  ea_RequestTimeout :: duration

definition uid_guard :: string where
  "uid_guard = ''[ \"$ANI_INSTANCE_POD_UID\" = \"$1\" ] || exit 126; shift; exec \"$@\"''"

definition exec_command :: "exec_target \<Rightarrow> string list" where
  "exec_command target =
     (let command = (if et_Command target = [] then [''/bin/sh''] else et_Command target);
          b = et_InstanceBinding target in
      if ib_Enabled b
      then [ib_Shell b, ''-c'', uid_guard, ''instance-uid-guard'', ib_PodUID b] @ command
      else command)"

text \<open>
  The stream object: the context that ends it, the resize queue, and what \<open>Wait\<close> will return once the
  executor has finished. Pipes carry the payload and are not part of the state here.
\<close>

record exec_stream =
  xs_Cancelled :: bool
  xs_TTY :: bool
  xs_Resize :: "terminal_size list"
  xs_Result :: "(int \<times> error option) option"

abbreviation resize_slots :: nat where "resize_slots \<equiv> 8"

definition new_exec_stream :: "bool \<Rightarrow> terminal_size \<Rightarrow> exec_stream" where
  "new_exec_stream tty initial =
     \<lparr> xs_Cancelled = False, xs_TTY = tty,
       xs_Resize = (if ts_Rows initial > 0 \<and> ts_Cols initial > 0 then [initial] else []),
       xs_Result = None \<rparr>"

definition open_exec ::
  "exec_adapter \<Rightarrow> (string \<Rightarrow> bool) \<Rightarrow> (string \<Rightarrow> (string, string) gomap \<Rightarrow> pod list result)
     \<Rightarrow> (exec_request \<Rightarrow> bool) \<Rightarrow> exec_target \<Rightarrow> terminal_size \<Rightarrow> (exec_request \<times> exec_stream) result" where
  "open_exec a dns_label list_pods new_executor target sz =
     (if ea_RequestTimeout a \<le> 0 then Inl (Sentinel RtUnavailable)
      else
        (let b = et_InstanceBinding target;
             refused =
               (if \<not> ib_Enabled b then None
                else
                  (case ea_InstanceValidator a of
                     None \<Rightarrow> Some (Sentinel RtInvalidTarget)
                   | Some validate \<Rightarrow>
                       if ea_ClusterID a = [] \<or> ea_ClusterID a \<noteq> ib_ClusterID b
                       then Some (Sentinel RtInvalidTarget)
                       else if validate (et_TenantID target) (et_InstanceID target) b \<noteq> None
                       then Some (Sentinel RtTargetNotReady) else None)) in
         case refused of
           Some e \<Rightarrow> Inl e
         | None \<Rightarrow>
             (case resolve dns_label list_pods target of
                Inl e \<Rightarrow> Inl e
              | Inr resolved \<Rightarrow>
                  let req = \<lparr> er_Namespace = rp_Namespace resolved, er_Pod = rp_Name resolved,
                              er_Container = rp_Container resolved, er_Command = exec_command target,
                              er_Stdin = True, er_Stdout = True, er_Stderr = \<not> et_TTY target,
                              er_TTY = et_TTY target \<rparr> in
                  if \<not> new_executor req then Inl (Sentinel RtUnavailable)
                  else Inr (req, new_exec_stream (et_TTY target) sz))))"

section \<open>The stream\<close>

text \<open>How \<open>StreamWithContext\<close> ends: without an error, with an exit status, or with another error.\<close>

datatype executor_end = EndOk | EndExit int | EndError error

definition stream_finished :: "executor_end \<Rightarrow> exec_stream \<Rightarrow> exec_stream" where
  "stream_finished e s =
     s\<lparr> xs_Cancelled := True,
        xs_Result := Some (case e of EndOk \<Rightarrow> (0, None) | EndExit code \<Rightarrow> (code, None)
                           | EndError err \<Rightarrow> (0, Some err)) \<rparr>"

text \<open>
  \<open>Resize\<close>: the select takes any ready case, so its result is chosen by \<open>ctx_first\<close> when both the
  context has ended and the queue has room.
\<close>

definition resize_stream :: "bool \<Rightarrow> terminal_size \<Rightarrow> exec_stream \<Rightarrow> unit result \<times> exec_stream" where
  "resize_stream ctx_first sz s =
     (if ts_Rows sz = 0 \<or> ts_Cols sz = 0 then (Inl (Sentinel RtInvalidTarget), s)
      else
        (let room = length (xs_Resize s) < resize_slots in
         if xs_Cancelled s \<and> (ctx_first \<or> \<not> room) then (Inl (Sentinel CtxCanceled), s)
         else if room then (Inr (), s\<lparr> xs_Resize := xs_Resize s @ [sz] \<rparr>)
         else (Inl (Sentinel RtBackpressure), s)))"

definition close_stream :: "exec_stream \<Rightarrow> unit result \<times> exec_stream" where
  "close_stream s = (Inr (), s\<lparr> xs_Cancelled := True \<rparr>)"

text \<open>\<open>sizeQueue.Next\<close>, which the executor calls only when the queue was passed to it: for a TTY.\<close>

definition size_queue_next :: "bool \<Rightarrow> exec_stream \<Rightarrow> (terminal_size option \<times> exec_stream) option" where
  "size_queue_next ctx_first s =
     (if \<not> xs_TTY s then None
      else if xs_Cancelled s \<and> (ctx_first \<or> xs_Resize s = []) then Some (None, s)
      else
        (case xs_Resize s of
           [] \<Rightarrow> None
         | sz # rest \<Rightarrow> Some (Some sz, s\<lparr> xs_Resize := rest \<rparr>)))"

inductive stream_step :: "exec_stream \<Rightarrow> exec_stream \<Rightarrow> bool" where
  resize: "resize_stream b sz s = (r, s') \<Longrightarrow> stream_step s s'"
| drain: "size_queue_next b s = Some (v, s') \<Longrightarrow> stream_step s s'"
| finished: "xs_Result s = None \<Longrightarrow> stream_step s (stream_finished e s)"
| closed: "stream_step s (snd (close_stream s))"

abbreviation stream_reach :: "exec_stream \<Rightarrow> exec_stream \<Rightarrow> bool" where
  "stream_reach \<equiv> stream_step\<^sup>*\<^sup>*"

section \<open>Selection of the pod\<close>

lemma collect_pods_eq:
  "collect_pods t ns ps (m, el) =
     (m \<or> (\<exists>p \<in> set ps. pod_matches t ns p), el @ filter (\<lambda>p. pod_matches t ns p \<and> pod_eligible p) ps)"
  by (induction ps arbitrary: m el) auto

lemma str_less_asym: "str_less s t \<Longrightarrow> \<not> str_less t s"
  by (induction s t rule: str_less.induct) (auto split: if_splits)

lemma str_less_neg_trans: "\<not> str_less x y \<Longrightarrow> \<not> str_less y z \<Longrightarrow> \<not> str_less x z"
proof (induction x y arbitrary: z rule: str_less.induct)
  case (1 s)
  then show ?case by (cases z; cases s) auto
next
  case (2 d t)
  then show ?case by simp
next
  case (3 c s d t)
  then show ?case by (cases z) (auto split: if_splits)
qed

lemma pod_before_asym: "pod_before p q \<Longrightarrow> \<not> pod_before q p"
  by (auto simp: pod_before_def dest: str_less_asym split: if_splits)

lemma pod_before_neg_trans: "\<not> pod_before p q \<Longrightarrow> \<not> pod_before q r \<Longrightarrow> \<not> pod_before p r"
  by (auto simp: pod_before_def dest: str_less_neg_trans split: if_splits)

lemma set_insert_pod [simp]: "set (insert_pod p l) = insert p (set l)"
  by (induction l) auto

lemma sort_pods_simps [simp]: "sort_pods [] = []" "sort_pods (p # ps) = insert_pod p (sort_pods ps)"
  by (simp_all add: sort_pods_def)

lemma set_sort_pods [simp]: "set (sort_pods ps) = set ps"
  by (induction ps) auto

lemma insert_pod_first:
  assumes "insert_pod p l = h # r" and "\<And>h' r'. l = h' # r' \<Longrightarrow> \<forall>x \<in> set l. \<not> pod_before x h'"
  shows "\<forall>x \<in> insert p (set l). \<not> pod_before x h"
proof (cases l)
  case Nil
  with assms(1) show ?thesis using pod_before_asym by auto
next
  case (Cons q qs)
  then have q: "\<forall>x \<in> set l. \<not> pod_before x q" using assms(2) by blast
  show ?thesis
  proof (cases "pod_before q p")
    case True
    then have "h = q" using assms(1) Cons by simp
    with q True pod_before_asym show ?thesis by blast
  next
    case False
    then have "h = p" using assms(1) Cons by simp
    with q False pod_before_neg_trans pod_before_asym show ?thesis by blast
  qed
qed

lemma sort_pods_first: "sort_pods ps = h # r \<Longrightarrow> \<forall>x \<in> set ps. \<not> pod_before x h"
proof (induction ps arbitrary: h r)
  case (Cons p ps)
  from Cons.prems have "insert_pod p (sort_pods ps) = h # r" by simp
  moreover have "\<forall>x \<in> set (sort_pods ps). \<not> pod_before x h'" if "sort_pods ps = h' # r'" for h' r'
    using Cons.IH [OF that] by simp
  ultimately have "\<forall>x \<in> insert p (set (sort_pods ps)). \<not> pod_before x h"
    by (rule insert_pod_first)
  then show ?case by simp
qed simp

lemma choose_container_in: "choose_container t p = Inr c \<Longrightarrow> c \<in> set (po_Containers p)"
  by (auto simp: choose_container_def split: if_splits list.splits)

lemma resolve_ok:
  assumes "resolve dns_label list_pods t = Inr r"
  obtains items p where "target_namespace dns_label t = Inr (rp_Namespace r)"
    "list_pods (rp_Namespace r) (required_labels t) = Inr items" "p \<in> set items"
    "pod_matches t (rp_Namespace r) p" "pod_eligible p" "po_Name p = rp_Name r"
    "choose_container t p = Inr (rp_Container r)"
    "\<forall>q \<in> set items. pod_matches t (rp_Namespace r) q \<and> pod_eligible q \<longrightarrow> \<not> pod_before q p"
    "ib_Enabled (et_InstanceBinding t) \<Longrightarrow>
       filter (\<lambda>q. pod_matches t (rp_Namespace r) q \<and> pod_eligible q) items = [p]"
proof -
  obtain ns items where ns: "target_namespace dns_label t = Inr ns"
      and items: "list_pods ns (required_labels t) = Inr items"
    using assms by (auto simp: resolve_def split: if_splits sum.splits)
  let ?el = "filter (\<lambda>q. pod_matches t ns q \<and> pod_eligible q) items"
  obtain p rest c where first: "sort_pods ?el = p # rest" and c: "choose_container t p = Inr c"
    and r: "r = \<lparr> rp_Namespace = ns, rp_Name = po_Name p, rp_Container = c \<rparr>"
    and one: "ib_Enabled (et_InstanceBinding t) \<Longrightarrow> length ?el = 1"
    using assms ns items
    by (auto simp: resolve_def collect_pods_eq split: if_splits sum.splits list.splits)
  have mem: "p \<in> set ?el"
    using set_sort_pods [of ?el] first by (metis list.set_intros(1))
  show ?thesis
  proof (rule that [of items p])
    show "ib_Enabled (et_InstanceBinding t) \<Longrightarrow>
        filter (\<lambda>q. pod_matches t (rp_Namespace r) q \<and> pod_eligible q) items = [p]"
      using one mem r by (cases ?el) auto
  qed (use ns items mem c r sort_pods_first [OF first] in auto)
qed

section \<open>The resize queue\<close>

inductive_cases stream_stepE: "stream_step s s'"

text \<open>What a step keeps: the terminal kind, the end of the context, the bound of the queue.\<close>

lemma stream_step_keeps:
  assumes "stream_step s s'"
  shows "xs_TTY s' = xs_TTY s" and "xs_Cancelled s \<Longrightarrow> xs_Cancelled s'"
    and "length (xs_Resize s) \<le> resize_slots \<Longrightarrow> length (xs_Resize s') \<le> resize_slots"
    and "\<not> xs_TTY s \<Longrightarrow> length (xs_Resize s) \<le> length (xs_Resize s')"
  using assms
  by (auto elim!: stream_stepE simp: resize_stream_def size_queue_next_def stream_finished_def
      close_stream_def Let_def split: if_splits list.splits)

lemma stream_reach_keeps:
  assumes "stream_reach s s'"
  shows "xs_TTY s' = xs_TTY s" and "xs_Cancelled s \<Longrightarrow> xs_Cancelled s'"
    and "length (xs_Resize s) \<le> resize_slots \<Longrightarrow> length (xs_Resize s') \<le> resize_slots"
    and "\<not> xs_TTY s \<Longrightarrow> length (xs_Resize s) \<le> length (xs_Resize s')"
  using assms
proof (induction rule: rtranclp_induct)
  case (step y z)
  { case 1 then show ?case using step stream_step_keeps(1) by simp }
  { case 2 then show ?case using step stream_step_keeps(2) by simp }
  { case 3 then show ?case using step stream_step_keeps(3) by simp }
  { case 4 then show ?case using step stream_step_keeps(4) [of y z] by (meson order_trans) }
qed simp_all

lemma new_exec_stream_bound: "length (xs_Resize (new_exec_stream tty initial)) \<le> 1"
  by (simp add: new_exec_stream_def)

text \<open>A run of accepted resizes.\<close>

lemma resizes_reach:
  assumes "\<not> xs_Cancelled s" and "length (xs_Resize s) + length zs \<le> resize_slots"
    and "list_all (\<lambda>z. ts_Rows z \<noteq> 0 \<and> ts_Cols z \<noteq> 0) zs"
  shows "stream_reach s (s\<lparr> xs_Resize := xs_Resize s @ zs \<rparr>)"
  using assms
proof (induction zs arbitrary: s)
  case (Cons z zs)
  let ?s = "s\<lparr> xs_Resize := xs_Resize s @ [z] \<rparr>"
  have "resize_stream False z s = (Inr (), ?s)"
    using Cons.prems by (simp add: resize_stream_def Let_def)
  then have "stream_step s ?s" by (rule stream_step.resize)
  moreover have "stream_reach ?s (?s\<lparr> xs_Resize := xs_Resize ?s @ zs \<rparr>)"
    using Cons.prems by (intro Cons.IH) auto
  ultimately show ?case by simp
qed simp

section \<open>Concrete pods\<close>

definition demo_pod :: "string \<Rightarrow> int \<Rightarrow> pod" where
  "demo_pod name created = \<lparr> po_Namespace = ''ani-tenant-a'', po_Name = name, po_UID = ''uid-'' @ name,
     po_Labels = [(tenantLabel, ''a''), (instanceLabel, ''w''), (resourceTenantLabel, ''a''),
       (resourceIDLabel, ''i''), (ownerServiceLabel, ''ani-resource-service'')],
     po_Deleting = False, po_Phase = ''Running'', po_Conditions = [(''Ready'', ''True'')],
     po_Created = created, po_Containers = [''main''] \<rparr>"

definition demo_list :: "string \<Rightarrow> (string, string) gomap \<Rightarrow> pod list result" where
  "demo_list ns ls = (if ns = ''ani-tenant-a''
     then Inr [demo_pod ''old'' 10, demo_pod ''new'' 20] else Inr [])"

definition demo_exec_target :: exec_target where
  "demo_exec_target = \<lparr> et_InstanceID = ''i'', et_InstanceBinding = zero_instance_binding,
     et_TenantID = ''a'', et_WorkloadName = ''w'', et_WorkloadKind = WorkloadContainer, et_Container = [],
     et_Command = [], et_TTY = False \<rparr>"

definition demo_managed_target :: exec_target where
  "demo_managed_target = demo_exec_target\<lparr> et_Container := ''main'', et_InstanceBinding :=
     \<lparr> ib_Enabled = True, ib_Version = 1, ib_ClusterID = ''c'', ib_Namespace = ''ani-tenant-a'',
       ib_NotebookName = ''nb'', ib_NotebookUID = ''nu'', ib_PodName = ''old'', ib_PodUID = ''uid-old'',
       ib_ContainerName = ''main'', ib_Shell = ''/bin/sh'' \<rparr> \<rparr>"

definition demo_adapter :: exec_adapter where
  "demo_adapter = \<lparr> ea_InstanceValidator = Some (\<lambda>_ _ _. None), ea_ClusterID = ''c'',
     ea_RequestTimeout = 30 \<rparr>"

lemmas demo_exec_defs = demo_pod_def demo_list_def demo_exec_target_def demo_managed_target_def
  demo_adapter_def resolve_def target_namespace_def namespace_for_tenant_def Let_def collect_pods_eq
  pod_matches_def pod_eligible_def label_value_def pod_before_def choose_container_def zero_instance_binding_def

lemma demo_resolved:
  "resolve (\<lambda>_. True) demo_list demo_exec_target =
     Inr \<lparr> rp_Namespace = ''ani-tenant-a'', rp_Name = ''new'', rp_Container = ''main'' \<rparr>"
  by (simp add: demo_exec_defs)

section \<open>Properties\<close>

text \<open>
  C21: an exec reaches a pod of its own tenant, and the newest one. A resolved target names a listed
  pod of the target's namespace that carries the target's labels, runs, is ready and is not being
  deleted, and no such pod is newer; the container is one of the pod's, the requested one or the only
  one; and an unmanaged target stays in its tenant's namespace.
\<close>

theorem resolve_selects_newest_ready:
  assumes "resolve dns_label list_pods t = Inr r"
  shows "\<exists>items p. list_pods (rp_Namespace r) (required_labels t) = Inr items \<and> p \<in> set items \<and>
    po_Name p = rp_Name r \<and> pod_matches t (rp_Namespace r) p \<and> pod_eligible p \<and>
    (\<forall>q \<in> set items. pod_matches t (rp_Namespace r) q \<and> pod_eligible q \<longrightarrow> po_Created q \<le> po_Created p) \<and>
    rp_Container r \<in> set (po_Containers p) \<and>
    (if et_Container t = [] then po_Containers p = [rp_Container r] else rp_Container r = et_Container t) \<and>
    (ib_Enabled (et_InstanceBinding t) \<or> rp_Namespace r = ''ani-tenant-'' @ et_TenantID t)"
proof -
  obtain items p where ns: "target_namespace dns_label t = Inr (rp_Namespace r)"
    and rest: "list_pods (rp_Namespace r) (required_labels t) = Inr items" "p \<in> set items"
      "pod_matches t (rp_Namespace r) p" "pod_eligible p" "po_Name p = rp_Name r"
    and c: "choose_container t p = Inr (rp_Container r)"
    and first: "\<forall>q \<in> set items. pod_matches t (rp_Namespace r) q \<and> pod_eligible q \<longrightarrow> \<not> pod_before q p"
    by (rule resolve_ok [OF assms])
  have "po_Created q \<le> po_Created p" if "\<not> pod_before q p" for q
    using that by (auto simp: pod_before_def split: if_splits)
  moreover have "ib_Enabled (et_InstanceBinding t) \<or> rp_Namespace r = ''ani-tenant-'' @ et_TenantID t"
    using ns by (auto simp: target_namespace_def namespace_for_tenant_def Let_def split: if_splits)
  moreover have "if et_Container t = [] then po_Containers p = [rp_Container r] else rp_Container r = et_Container t"
    using c by (auto simp: choose_container_def split: if_splits list.splits)
  moreover have "\<forall>q \<in> set items. pod_matches t (rp_Namespace r) q \<and> pod_eligible q \<longrightarrow> po_Created q \<le> po_Created p"
    using first calculation(1) by blast
  ultimately show ?thesis
    using rest choose_container_in [OF c] by blast
qed

theorem resolve_selects_newest_ready_witness:
  "\<exists>items p. demo_list ''ani-tenant-a'' (required_labels demo_exec_target) = Inr items \<and> p \<in> set items \<and>
     po_Name p = ''new'' \<and> pod_eligible p"
  using resolve_selects_newest_ready [OF demo_resolved] by auto

text \<open>
  Resolution fails for the reason it names. When the pods can be listed, the target is reported
  as not found exactly when no listed pod matches it, and as not ready exactly when some pod matches
  but none of the matching pods is running, ready and undeleted.
\<close>

lemma resolve_failure_reasons:
  assumes "et_WorkloadKind t \<in> {WorkloadContainer, WorkloadGPUContainer, WorkloadSandbox}"
    and "target_namespace dns_label t = Inr ns" and "list_pods ns (required_labels t) = Inr items"
  shows "(resolve dns_label list_pods t = Inl (Sentinel RtTargetNotFound) \<longleftrightarrow>
      filter (pod_matches t ns) items = []) \<and>
    (resolve dns_label list_pods t = Inl (Sentinel RtTargetNotReady) \<longleftrightarrow>
      filter (pod_matches t ns) items \<noteq> [] \<and> filter pod_eligible (filter (pod_matches t ns) items) = [])"
proof -
  let ?el = "filter (\<lambda>p. pod_matches t ns p \<and> pod_eligible p) items"
  have nil: "sort_pods ?el = [] \<longleftrightarrow> ?el = []"
    using set_sort_pods [of ?el] by (metis set_empty)
  have el: "filter pod_eligible (filter (pod_matches t ns) items) = ?el"
    by (simp add: conj_commute)
  have other: "choose_container t p \<noteq> Inl (Sentinel RtTargetNotFound)"
    "choose_container t p \<noteq> Inl (Sentinel RtTargetNotReady)" for p
    by (auto simp: choose_container_def split: list.splits)
  show ?thesis
  proof (cases "sort_pods ?el")
    case Nil
    then have "?el = []" using nil by blast
    then have "resolve dns_label list_pods t =
        Inl (Sentinel (if \<exists>p \<in> set items. pod_matches t ns p then RtTargetNotReady else RtTargetNotFound))"
      using assms Nil by (auto simp: resolve_def collect_pods_eq)
    with \<open>?el = []\<close> el show ?thesis by (auto simp: filter_empty_conv)
  next
    case (Cons p rest)
    then have "p \<in> set ?el"
      using set_sort_pods [of ?el] by (metis list.set_intros(1))
    moreover have "resolve dns_label list_pods t =
        (if ib_Enabled (et_InstanceBinding t) \<and> length ?el \<noteq> 1 then Inl (Sentinel RtInvalidTarget)
         else case choose_container t p of Inl e \<Rightarrow> Inl e
           | Inr c \<Rightarrow> Inr \<lparr> rp_Namespace = ns, rp_Name = po_Name p, rp_Container = c \<rparr>)"
      using assms Cons by (auto simp: resolve_def collect_pods_eq)
    ultimately show ?thesis
      unfolding el using other by (auto simp: filter_empty_conv split: sum.splits)
  qed
qed

text \<open>
  C22: a managed exec runs in the frozen pod or not at all. It is opened only when the validator
  accepts the binding and the adapter serves the binding's cluster; it is addressed to the bound
  namespace and pod, whose listed identity carries the bound UID and which is the only match; and the
  command is wrapped in the guard that compares the pod's own UID with the bound one before it runs
  the requested command.
\<close>

theorem managed_exec_frozen_pod:
  assumes "open_exec a dns_label list_pods new_executor t sz = Inr (req, st)"
    and "ib_Enabled (et_InstanceBinding t)"
  shows "(\<exists>validate. ea_InstanceValidator a = Some validate \<and>
      validate (et_TenantID t) (et_InstanceID t) (et_InstanceBinding t) = None) \<and>
    ea_ClusterID a = ib_ClusterID (et_InstanceBinding t) \<and>
    er_Namespace req = ib_Namespace (et_InstanceBinding t) \<and> er_Pod req = ib_PodName (et_InstanceBinding t) \<and>
    (\<exists>items p. list_pods (er_Namespace req) (required_labels t) = Inr items \<and>
       filter (\<lambda>q. pod_matches t (er_Namespace req) q \<and> pod_eligible q) items = [p] \<and>
       po_UID p = ib_PodUID (et_InstanceBinding t)) \<and>
    er_Command req = [ib_Shell (et_InstanceBinding t), ''-c'', uid_guard, ''instance-uid-guard'',
        ib_PodUID (et_InstanceBinding t)] @ (if et_Command t = [] then [''/bin/sh''] else et_Command t)"
proof -
  obtain resolved where r: "resolve dns_label list_pods t = Inr resolved"
    and req: "er_Namespace req = rp_Namespace resolved" "er_Pod req = rp_Name resolved"
      "er_Command req = exec_command t"
    using assms by (auto simp: open_exec_def Let_def split: if_splits option.splits sum.splits)
  obtain items p where o: "target_namespace dns_label t = Inr (rp_Namespace resolved)"
    "list_pods (rp_Namespace resolved) (required_labels t) = Inr items"
    "pod_matches t (rp_Namespace resolved) p" "po_Name p = rp_Name resolved"
    "ib_Enabled (et_InstanceBinding t) \<Longrightarrow>
       filter (\<lambda>q. pod_matches t (rp_Namespace resolved) q \<and> pod_eligible q) items = [p]"
    using resolve_ok [OF r] by metis
  have "(\<exists>validate. ea_InstanceValidator a = Some validate \<and>
      validate (et_TenantID t) (et_InstanceID t) (et_InstanceBinding t) = None) \<and>
    ea_ClusterID a = ib_ClusterID (et_InstanceBinding t)"
    using assms by (auto simp: open_exec_def Let_def split: if_splits option.splits sum.splits)
  moreover have "rp_Namespace resolved = ib_Namespace (et_InstanceBinding t)"
    using o(1) assms(2) by (auto simp: target_namespace_def Let_def split: if_splits)
  moreover have "po_Name p = ib_PodName (et_InstanceBinding t)" "po_UID p = ib_PodUID (et_InstanceBinding t)"
    using o(3) assms(2) by (simp_all add: pod_matches_def Let_def)
  ultimately show ?thesis
    using o(2,4) o(5) [OF assms(2)] req assms(2) by (auto simp: exec_command_def Let_def)
qed

theorem managed_exec_frozen_pod_witness:
  "\<exists>req st. open_exec demo_adapter (\<lambda>_. True) demo_list (\<lambda>_. True) demo_managed_target
       \<lparr> ts_Rows = 30, ts_Cols = 120 \<rparr> = Inr (req, st) \<and>
     er_Pod req = ''old'' \<and> length (er_Command req) = 6"
proof -
  obtain req st where o: "open_exec demo_adapter (\<lambda>_. True) demo_list (\<lambda>_. True) demo_managed_target
       \<lparr> ts_Rows = 30, ts_Cols = 120 \<rparr> = Inr (req, st)"
    by (simp add: open_exec_def demo_exec_defs)
  have "ib_Enabled (et_InstanceBinding demo_managed_target)" by (simp add: demo_managed_target_def)
  from managed_exec_frozen_pod [OF o this] o show ?thesis
    by (auto simp: demo_managed_target_def demo_exec_target_def)
qed

text \<open>
  C23: resizes are bounded, and only a terminal consumes them. In every state of a stream at most
  eight sizes wait. A stream without a TTY never hands its queue to the executor, so once eight sizes
  wait (the initial size is the first of them) every later valid resize of the live stream fails with
  backpressure, whatever happened in between.
\<close>

theorem resize_queue_stalls_without_tty:
  assumes "stream_reach (new_exec_stream tty initial) s"
  shows "length (xs_Resize s) \<le> resize_slots \<and>
    (\<not> tty \<and> length (xs_Resize s) = resize_slots \<longrightarrow>
      (\<forall>s' b z. stream_reach s s' \<and> \<not> xs_Cancelled s' \<and> ts_Rows z \<noteq> 0 \<and> ts_Cols z \<noteq> 0 \<longrightarrow>
        resize_stream b z s' = (Inl (Sentinel RtBackpressure), s')))"
proof -
  have "length (xs_Resize (new_exec_stream tty initial)) \<le> resize_slots"
    using new_exec_stream_bound [of tty initial] by simp
  then have bound: "length (xs_Resize s) \<le> resize_slots"
    using stream_reach_keeps(3) [OF assms] by blast
  have "resize_stream b z s' = (Inl (Sentinel RtBackpressure), s')"
    if full: "length (xs_Resize s) = resize_slots" and "\<not> tty"
      and r: "stream_reach s s'" and live: "\<not> xs_Cancelled s'" and z: "ts_Rows z \<noteq> 0" "ts_Cols z \<noteq> 0"
    for s' b z
  proof -
    have "\<not> xs_TTY s"
      using stream_reach_keeps(1) [OF assms] \<open>\<not> tty\<close> by (simp add: new_exec_stream_def)
    then have "\<not> length (xs_Resize s') < resize_slots"
      using stream_reach_keeps(4) [OF r] full by simp
    then show ?thesis using live z by (simp add: resize_stream_def Let_def)
  qed
  with bound show ?thesis by blast
qed

theorem resize_queue_stalls_without_tty_witness:
  "resize_stream False \<lparr> ts_Rows = 1, ts_Cols = 1 \<rparr>
     ((new_exec_stream False \<lparr> ts_Rows = 30, ts_Cols = 120 \<rparr>)\<lparr> xs_Resize :=
        \<lparr> ts_Rows = 30, ts_Cols = 120 \<rparr> # replicate 7 \<lparr> ts_Rows = 1, ts_Cols = 1 \<rparr> \<rparr>) =
   (Inl (Sentinel RtBackpressure),
     (new_exec_stream False \<lparr> ts_Rows = 30, ts_Cols = 120 \<rparr>)\<lparr> xs_Resize :=
        \<lparr> ts_Rows = 30, ts_Cols = 120 \<rparr> # replicate 7 \<lparr> ts_Rows = 1, ts_Cols = 1 \<rparr> \<rparr>)"
proof -
  let ?new = "new_exec_stream False \<lparr> ts_Rows = 30, ts_Cols = 120 \<rparr>"
  have "stream_reach ?new (?new\<lparr> xs_Resize := xs_Resize ?new @ replicate 7 \<lparr> ts_Rows = 1, ts_Cols = 1 \<rparr> \<rparr>)"
    by (rule resizes_reach) (simp_all add: new_exec_stream_def list_all_iff)
  from resize_queue_stalls_without_tty [OF this] show ?thesis
    by (simp add: new_exec_stream_def)
qed

end
