(* ===== verification/Fingerprinting.thy ===== *)
theory Fingerprinting
  imports SessionModel
begin

text \<open>
  \<open>Fingerprint\<close> of \<open>internal/session/manager.go\<close>: the request fields, each written with its length
  as four big-endian bytes before it, are hashed. \<open>fingerprint_fields\<close> is the sequence of written
  values and \<open>fingerprint_preimage\<close> the bytes the hash reads.

  The framing is injective on lists of strings below 4 GiB. The list itself does not say how many
  of its entries are command words nor whether a binding follows, so the preimage determines the
  request among requests with the same kinds of binding, and only among those.
\<close>

section \<open>The hashed bytes\<close>

definition fp_write :: "string \<Rightarrow> bytes" where
  "fp_write v = be32 (length v) @ str_bytes v"

definition instance_fields :: "instance_binding \<Rightarrow> string list" where
  "instance_fields b =
     (if ib_Enabled b then
        [dec_int (ib_Version b), ib_ClusterID b, ib_Namespace b, ib_NotebookName b, ib_NotebookUID b,
         ib_PodName b, ib_PodUID b, ib_ContainerName b, ib_Shell b]
      else [])"

definition vm_fields :: "vm_binding \<Rightarrow> string list" where
  "vm_fields b =
     (if vb_Enabled b then
        [''vm.console.v1'', vb_TenantID b, vb_VMID b, dec_int (vb_Version b), vb_ClusterID b,
         vb_Namespace b, vb_VMName b, vb_VMUID b, vb_VMIName b, vb_VMIUID b, vb_NamespaceUID b]
      else [])"

definition fingerprint_fields :: "request \<Rightarrow> string list" where
  "fingerprint_fields r =
     [rq_TenantID r, rq_SubjectID r, rq_InstanceID r, rq_WorkloadName r, kind_str (rq_WorkloadKind r),
      mode_str (rq_Mode r), rq_Container r] @ rq_Command r @
     [if rq_TTY r then ''true'' else ''false'', dec_nat (unat (rq_Rows r)), dec_nat (unat (rq_Cols r)),
      rq_RequestedProtocol r] @ instance_fields (rq_InstanceBinding r) @ vm_fields (rq_VMBinding r)"

definition fingerprint_preimage :: "request \<Rightarrow> bytes" where
  "fingerprint_preimage r = concat (map fp_write (fingerprint_fields r))"

definition fingerprint :: "(bytes \<Rightarrow> bytes) \<Rightarrow> request \<Rightarrow> bytes" where
  "fingerprint sha256 r = sha256 (fingerprint_preimage r)"

section \<open>The framing is injective\<close>

definition short :: "string \<Rightarrow> bool" where
  "short v \<longleftrightarrow> length v < 2 ^ 32"

lemma fp_write_append_inject:
  assumes "fp_write v @ a = fp_write w @ b" and "short v" and "short w"
  shows "v = w \<and> a = b"
proof -
  have eq: "be32 (length v) = be32 (length w) \<and> str_bytes v @ a = str_bytes w @ b"
    using assms(1) by (simp add: fp_write_def)
  then have "length v mod 2 ^ 32 = length w mod 2 ^ 32"
    by (metis be32_value_be32)
  then have "length v = length w"
    using assms(2,3) by (simp add: short_def)
  with eq show ?thesis by simp
qed

lemma fp_write_nonempty [simp]: "fp_write v \<noteq> []"
  by (simp add: fp_write_def be32_def)

lemma frames_inject:
  "concat (map fp_write vs) = concat (map fp_write ws) \<Longrightarrow> list_all short vs \<Longrightarrow> list_all short ws \<Longrightarrow> vs = ws"
proof (induction vs arbitrary: ws)
  case Nil
  then show ?case by (cases ws) auto
next
  case (Cons v vs)
  then obtain w ws' where ws: "ws = w # ws'" by (cases ws) auto
  from Cons.prems have "v = w \<and> concat (map fp_write vs) = concat (map fp_write ws')"
    by (intro fp_write_append_inject) (simp_all add: ws)
  with Cons show ?case by (simp add: ws)
qed

section \<open>What the preimage determines\<close>

text \<open>
  \<open>same_intent\<close>: the two requests agree on everything but their request identifier, their
  idempotency key and the contents of disabled bindings.
\<close>

definition same_intent :: "request \<Rightarrow> request \<Rightarrow> bool" where
  "same_intent r q \<longleftrightarrow>
     rq_TenantID r = rq_TenantID q \<and> rq_SubjectID r = rq_SubjectID q \<and>
     rq_InstanceID r = rq_InstanceID q \<and> rq_WorkloadName r = rq_WorkloadName q \<and>
     rq_WorkloadKind r = rq_WorkloadKind q \<and> rq_Mode r = rq_Mode q \<and>
     rq_Container r = rq_Container q \<and> rq_Command r = rq_Command q \<and> rq_TTY r = rq_TTY q \<and>
     rq_Rows r = rq_Rows q \<and> rq_Cols r = rq_Cols q \<and>
     rq_RequestedProtocol r = rq_RequestedProtocol q \<and>
     (if ib_Enabled (rq_InstanceBinding r) \<or> ib_Enabled (rq_InstanceBinding q)
      then rq_InstanceBinding r = rq_InstanceBinding q else True) \<and>
     (if vb_Enabled (rq_VMBinding r) \<or> vb_Enabled (rq_VMBinding q)
      then rq_VMBinding r = rq_VMBinding q else True)"

definition request_canonical :: "request \<Rightarrow> bool" where
  "request_canonical r \<longleftrightarrow> mode_canonical (rq_Mode r) \<and> kind_canonical (rq_WorkloadKind r) \<and>
     list_all short (fingerprint_fields r)"

lemma instance_fields_inject:
  assumes "ib_Enabled a = ib_Enabled b" and "instance_fields a = instance_fields b" and "ib_Enabled a"
  shows "a = b"
  using assms by (cases a; cases b) (simp add: instance_fields_def)

lemma vm_fields_inject:
  assumes "vb_Enabled a = vb_Enabled b" and "vm_fields a = vm_fields b" and "vb_Enabled a"
  shows "a = b"
  using assms by (cases a; cases b) (simp add: vm_fields_def)

lemma append_same_tail: "length b = length d \<Longrightarrow> a @ b = c @ d \<Longrightarrow> a = c \<and> b = d"
  by (simp add: append_eq_append_conv)

lemma fields_length:
  "length (instance_fields a) = (if ib_Enabled a then 9 else 0)"
  "length (vm_fields b) = (if vb_Enabled b then 11 else 0)"
  by (simp_all add: instance_fields_def vm_fields_def)

lemma same_intent_fields:
  "same_intent r q \<Longrightarrow> fingerprint_fields r = fingerprint_fields q"
  by (auto simp: same_intent_def fingerprint_fields_def instance_fields_def vm_fields_def
      split: if_splits)

lemma fingerprint_fields_inject:
  assumes eq: "fingerprint_fields r = fingerprint_fields q"
    and c: "request_canonical r" "request_canonical q"
    and ib: "ib_Enabled (rq_InstanceBinding r) = ib_Enabled (rq_InstanceBinding q)"
    and vb: "vb_Enabled (rq_VMBinding r) = vb_Enabled (rq_VMBinding q)"
  shows "same_intent r q"
proof -
  let ?tail = "\<lambda>r. [if rq_TTY r then ''true'' else ''false'', dec_nat (unat (rq_Rows r)),
      dec_nat (unat (rq_Cols r)), rq_RequestedProtocol r] @ instance_fields (rq_InstanceBinding r) @
      vm_fields (rq_VMBinding r)"
  have "length (?tail r) = length (?tail q)"
    using ib vb by (simp add: fields_length)
  moreover have "rq_Command r @ ?tail r = rq_Command q @ ?tail q"
    using eq by (simp add: fingerprint_fields_def)
  ultimately have "rq_Command r = rq_Command q \<and> ?tail r = ?tail q"
    by (rule append_same_tail)
  then have cmd: "rq_Command r = rq_Command q" and tail: "?tail r = ?tail q"
    by blast+
  have "instance_fields (rq_InstanceBinding r) @ vm_fields (rq_VMBinding r) =
      instance_fields (rq_InstanceBinding q) @ vm_fields (rq_VMBinding q)"
    using tail by simp
  then have ibf: "instance_fields (rq_InstanceBinding r) = instance_fields (rq_InstanceBinding q)"
    and vbf: "vm_fields (rq_VMBinding r) = vm_fields (rq_VMBinding q)"
    using ib by (simp_all add: fields_length append_eq_append_conv)
  have tty: "rq_TTY r = rq_TTY q"
    using tail by (auto split: if_splits)
  have "unat (rq_Rows r) = unat (rq_Rows q)" and "unat (rq_Cols r) = unat (rq_Cols q)"
    using tail by simp_all
  then have size: "rq_Rows r = rq_Rows q" "rq_Cols r = rq_Cols q"
    using unsigned_word_eqI by blast+
  have "kind_str (rq_WorkloadKind r) = kind_str (rq_WorkloadKind q)"
    and "mode_str (rq_Mode r) = mode_str (rq_Mode q)"
    using eq by (simp_all add: fingerprint_fields_def)
  then have "rq_WorkloadKind r = rq_WorkloadKind q" and "rq_Mode r = rq_Mode q"
    using c mode_str_inject kind_str_inject by (auto simp: request_canonical_def)
  then show ?thesis
    unfolding same_intent_def
    using eq cmd tail tty size ib vb instance_fields_inject [OF ib ibf] vm_fields_inject [OF vb vbf]
    by (simp add: fingerprint_fields_def)
qed

section \<open>Properties\<close>

text \<open>
  C14: the fingerprint's preimage identifies the intent. Two requests that carry the same kinds of
  binding and have fields below 4 GiB are hashed from the same bytes exactly when they agree on
  tenant, subject, target, mode and every mode option; the request identifier and the idempotency
  key play no part.
\<close>

theorem fingerprint_identifies_intent:
  assumes "request_canonical r" and "request_canonical q"
    and "ib_Enabled (rq_InstanceBinding r) = ib_Enabled (rq_InstanceBinding q)"
    and "vb_Enabled (rq_VMBinding r) = vb_Enabled (rq_VMBinding q)"
  shows "fingerprint_preimage r = fingerprint_preimage q \<longleftrightarrow> same_intent r q"
proof
  assume "fingerprint_preimage r = fingerprint_preimage q"
  then have "fingerprint_fields r = fingerprint_fields q"
    unfolding fingerprint_preimage_def
    by (rule frames_inject) (use assms(1,2) in \<open>simp_all add: request_canonical_def\<close>)
  then show "same_intent r q"
    using assms by (rule fingerprint_fields_inject)
next
  assume "same_intent r q"
  then show "fingerprint_preimage r = fingerprint_preimage q"
    by (simp add: fingerprint_preimage_def same_intent_fields)
qed

definition demo_request :: request where
  "demo_request = \<lparr> rq_InstanceBinding = zero_instance_binding, rq_VMBinding = zero_vm_binding,
     rq_RequestID = ''request'', rq_IdempotencyKey = ''idem'', rq_TenantID = ''tenant-a'',
     rq_SubjectID = ''subject-a'', rq_InstanceID = ''instance-a'', rq_WorkloadName = ''workload-a'',
     rq_WorkloadKind = WorkloadContainer, rq_Mode = ModeExec, rq_Container = [],
     rq_Command = [''/bin/sh''], rq_TTY = True, rq_Rows = 30, rq_Cols = 120,
     rq_RequestedProtocol = [] \<rparr>"

theorem fingerprint_identifies_intent_witness:
  "fingerprint_preimage demo_request = fingerprint_preimage (demo_request\<lparr> rq_RequestID := ''other'' \<rparr>) \<and>
   fingerprint_preimage demo_request \<noteq> fingerprint_preimage (demo_request\<lparr> rq_Command := [''/bin/bash''] \<rparr>)"
proof -
  have c: "request_canonical (demo_request\<lparr> rq_RequestID := i, rq_Command := [x] \<rparr>)" if "length x < 10" for i x
    using that by (simp add: request_canonical_def demo_request_def short_def fingerprint_fields_def
        instance_fields_def vm_fields_def zero_instance_binding_def zero_vm_binding_def
        dec_nat.simps)
  have c0: "request_canonical demo_request"
    and c1: "request_canonical (demo_request\<lparr> rq_RequestID := ''other'' \<rparr>)"
    and c2: "request_canonical (demo_request\<lparr> rq_Command := [''/bin/bash''] \<rparr>)"
    using c [of "''/bin/sh''" "''request''"] c [of "''/bin/sh''" "''other''"]
      c [of "''/bin/bash''" "''request''"]
    by (simp_all add: demo_request_def)
  show ?thesis
    using fingerprint_identifies_intent [OF c0 c1] fingerprint_identifies_intent [OF c0 c2]
    by (simp add: same_intent_def demo_request_def zero_instance_binding_def zero_vm_binding_def)
qed

end
