(* ===== verification/StoreContract.thy ===== *)
theory StoreContract
  imports SessionModel
begin

text \<open>
  What \<open>internal/session/store.go\<close> promises its clients, as an interface.

  The life of one session identifier is a small machine (\<open>life_step\<close>): an issued ticket may be
  claimed or expire, a claimed session may close, and any record may be purged. A store is an
  implementation of the operations with an invariant and a phase for every identifier such that
  each operation moves each identifier along that machine only, and succeeds only where the machine
  allows it (\<open>session_store\<close>). Because every operation is atomic (a mutex, a Redis script), a
  concurrent history is a list of events run one after the other (\<open>run_events\<close>).
\<close>

section \<open>The life of a session identifier\<close>

datatype phase = Absent | PIssued bytes | PClaimed string | PClosed

inductive life_step :: "phase \<Rightarrow> phase \<Rightarrow> bool" where
  claim: "life_step (PIssued d) (PClaimed l)"
| ticket_expired: "life_step (PIssued d) PClosed"
| close: "life_step (PClaimed l) PClosed"
| purge: "p \<noteq> Absent \<Longrightarrow> life_step p Absent"

inductive_cases from_issued: "life_step (PIssued d) q"
inductive_cases from_claimed: "life_step (PClaimed l) q"
inductive_cases from_closed: "life_step PClosed q"
inductive_simps life_step_absent [simp]: "life_step Absent q"
inductive_simps life_step_to_issued [simp]: "life_step p (PIssued d)"
inductive_simps life_step_to_claimed: "life_step p (PClaimed l)"

abbreviation lives :: "phase \<Rightarrow> phase \<Rightarrow> bool" where
  "lives \<equiv> life_step\<^sup>*\<^sup>*"

lemma lives_Absent [simp]: "lives Absent q \<longleftrightarrow> q = Absent"
  by (auto elim: converse_rtranclpE)

lemma lives_to_issued [simp]: "lives p (PIssued d) \<longleftrightarrow> p = PIssued d"
  by (auto elim: rtranclp.cases)

lemma lives_purge [simp, intro]: "lives p Absent"
  by (cases "p = Absent") (auto intro: life_step.purge)

lemma lives_PClosed_iff: "lives PClosed q \<longleftrightarrow> q = PClosed \<or> q = Absent"
proof
  assume "lives PClosed q"
  then show "q = PClosed \<or> q = Absent"
    by (induction rule: rtranclp_induct) (auto elim: from_closed)
qed auto

lemma lives_PClaimed_iff: "lives (PClaimed l) q \<longleftrightarrow> q = PClaimed l \<or> q = PClosed \<or> q = Absent"
proof
  assume "lives (PClaimed l) q"
  then show "q = PClaimed l \<or> q = PClosed \<or> q = Absent"
    by (induction rule: rtranclp_induct) (auto elim: from_closed from_claimed)
qed (auto intro: life_step.intros)

lemma lives_steps [simp]:
  "lives (PIssued d) PClosed" "lives (PIssued d) (PClaimed l)" "lives (PClaimed l) PClosed"
  by (auto intro: life_step.intros)

definition session_phase :: "session \<Rightarrow> phase" where
  "session_phase st =
     (case s_State st of
        StateIssued \<Rightarrow> PIssued (s_TicketDigest st)
      | StateClaimed \<Rightarrow> PClaimed (s_LeaseID st)
      | _ \<Rightarrow> PClosed)"

section \<open>Histories\<close>

datatype store_event =
    EvCreate string session
  | EvGet string
  | EvClaim string bytes time claim_limits
  | EvClose string string string time

datatype store_reply =
    RCreate "(session \<times> bool) result"
  | RGet "session result"
  | RClaim "session_lease result"
  | RClose "unit result"

fun exec_event :: "'s store_ops \<Rightarrow> store_event \<Rightarrow> 's \<Rightarrow> store_reply \<times> 's" where
  "exec_event ops (EvCreate key c) s = apfst RCreate (st_CreateOrGet ops key c s)"
| "exec_event ops (EvGet key) s = apfst RGet (st_GetByKey ops key s)"
| "exec_event ops (EvClaim sid d now lim) s = apfst RClaim (st_ClaimAndReserve ops sid d now lim s)"
| "exec_event ops (EvClose sid lid reason now) s =
     apfst RClose (st_CloseAndRelease ops sid lid reason now s)"

fun run_events :: "'s store_ops \<Rightarrow> store_event list \<Rightarrow> 's \<Rightarrow> store_reply list \<times> 's" where
  "run_events ops [] s = ([], s)"
| "run_events ops (e # es) s =
     (let (r, s1) = exec_event ops e s; (rs, s2) = run_events ops es s1 in (r # rs, s2))"

lemma run_events_Cons [simp]:
  "run_events ops (e # es) s =
     (fst (exec_event ops e s) # fst (run_events ops es (snd (exec_event ops e s))),
      snd (run_events ops es (snd (exec_event ops e s))))"
  by (simp add: Let_def split: prod.split)

declare run_events.simps(2) [simp del]

text \<open>The successful claims of one session identifier in a history with its replies.\<close>

fun claim_won :: "string \<Rightarrow> store_event \<Rightarrow> store_reply \<Rightarrow> bool" where
  "claim_won sid (EvClaim i d now lim) (RClaim (Inr l)) = (i = sid)"
| "claim_won sid _ _ = False"

definition claims_won :: "string \<Rightarrow> store_event list \<Rightarrow> store_reply list \<Rightarrow> nat" where
  "claims_won sid es rs = length (filter (\<lambda>(e, r). claim_won sid e r) (zip es rs))"

lemma claims_won_Nil [simp]: "claims_won sid [] rs = 0"
  by (simp add: claims_won_def)

lemma claims_won_Cons [simp]:
  "claims_won sid (e # es) (r # rs) = (if claim_won sid e r then 1 else 0) + claims_won sid es rs"
  by (simp add: claims_won_def)

fun created_id :: "store_event \<Rightarrow> string list" where
  "created_id (EvCreate key c) = [s_ID c]"
| "created_id _ = []"

fun creates_issued :: "store_event \<Rightarrow> bool" where
  "creates_issued (EvCreate key c) = (s_State c = StateIssued)"
| "creates_issued _ = True"

definition created_ids :: "store_event list \<Rightarrow> string list" where
  "created_ids es = concat (map created_id es)"

lemma created_ids_simps [simp]:
  "created_ids [] = []" "created_ids (e # es) = created_id e @ created_ids es"
  by (simp_all add: created_ids_def)

text \<open>A history that creates no identifier twice, and none the store already holds.\<close>

definition fresh_history :: "('s \<Rightarrow> string \<Rightarrow> phase) \<Rightarrow> 's \<Rightarrow> store_event list \<Rightarrow> bool" where
  "fresh_history phase_of s es \<longleftrightarrow> distinct (created_ids es) \<and> list_all creates_issued es \<and>
     list_all (\<lambda>i. phase_of s i = Absent) (created_ids es)"

section \<open>The contract\<close>

locale session_store =
  fixes ops :: "'s store_ops"
    and inv :: "'s \<Rightarrow> bool"
    and phase_of :: "'s \<Rightarrow> string \<Rightarrow> phase"
  assumes create_step:
      "inv s \<Longrightarrow> phase_of s (s_ID c) = Absent \<Longrightarrow> s_State c = StateIssued \<Longrightarrow>
       st_CreateOrGet ops key c s = (r, s') \<Longrightarrow>
       inv s' \<and> (\<forall>j. j \<noteq> s_ID c \<longrightarrow> lives (phase_of s j) (phase_of s' j)) \<and>
       phase_of s' (s_ID c) \<in> {Absent, PIssued (s_TicketDigest c)}"
    and create_new:
      "inv s \<Longrightarrow> phase_of s (s_ID c) = Absent \<Longrightarrow> s_State c = StateIssued \<Longrightarrow>
       st_CreateOrGet ops key c s = (Inr (st, False), s') \<Longrightarrow>
       phase_of s' (s_ID c) = PIssued (s_TicketDigest c) \<and> s_ID st = s_ID c \<and>
       s_TicketDigest st = s_TicketDigest c"
    and create_replay:
      "inv s \<Longrightarrow> phase_of s (s_ID c) = Absent \<Longrightarrow> s_State c = StateIssued \<Longrightarrow>
       st_CreateOrGet ops key c s = (Inr (st, True), s') \<Longrightarrow>
       phase_of s' (s_ID st) = PIssued (s_TicketDigest st) \<and>
       s_RequestFingerprint st = s_RequestFingerprint c"
    and get_step:
      "inv s \<Longrightarrow> st_GetByKey ops key s = (rg, s') \<Longrightarrow>
       inv s' \<and> (\<forall>j. lives (phase_of s j) (phase_of s' j))"
    and claim_step:
      "inv s \<Longrightarrow> st_ClaimAndReserve ops sid d now lim s = (rl, s') \<Longrightarrow>
       inv s' \<and> (\<forall>j. lives (phase_of s j) (phase_of s' j))"
    and claim_ok:
      "inv s \<Longrightarrow> st_ClaimAndReserve ops sid d now lim s = (Inr l, s') \<Longrightarrow>
       phase_of s sid = PIssued d \<and> phase_of s' sid = PClaimed (le_ID l) \<and> s_ID (le_Session l) = sid"
    and close_step:
      "inv s \<Longrightarrow> st_CloseAndRelease ops sid lid reason now s = (ru, s') \<Longrightarrow>
       inv s' \<and> (\<forall>j. lives (phase_of s j) (phase_of s' j))"
    and close_ok:
      "inv s \<Longrightarrow> st_CloseAndRelease ops sid lid reason now s = (Inr (), s') \<Longrightarrow>
       phase_of s' sid = PClosed"
begin

lemma exec_event_step:
  assumes "inv s" and "fresh_history phase_of s (e # es)" and "exec_event ops e s = (r, s')"
  shows "inv s' \<and> (\<forall>j. j \<notin> set (created_id e) \<longrightarrow> lives (phase_of s j) (phase_of s' j))"
proof (cases e)
  case (EvCreate key c)
  then show ?thesis
    using assms create_step [of s c key]
    by (cases "st_CreateOrGet ops key c s") (auto simp: fresh_history_def list_all_iff)
next
  case (EvGet key)
  then show ?thesis
    using assms get_step [of s key] by (cases "st_GetByKey ops key s") auto
next
  case (EvClaim sid d now lim)
  then show ?thesis
    using assms claim_step [of s sid d now lim]
    by (cases "st_ClaimAndReserve ops sid d now lim s") auto
next
  case (EvClose sid lid reason now)
  then show ?thesis
    using assms close_step [of s sid lid reason now]
    by (cases "st_CloseAndRelease ops sid lid reason now s") auto
qed

lemma fresh_history_step:
  assumes "inv s" and "fresh_history phase_of s (e # es)" and "exec_event ops e s = (r, s')"
  shows "inv s'" and "fresh_history phase_of s' es"
proof -
  note step = exec_event_step [OF assms]
  then show "inv s'" by blast
  have "phase_of s' i = Absent" if "i \<in> set (created_ids es)" for i
  proof -
    have "i \<notin> set (created_id e)" and "phase_of s i = Absent"
      using assms(2) that by (auto simp: fresh_history_def list_all_iff)
    with step show ?thesis by (metis lives_Absent)
  qed
  then show "fresh_history phase_of s' es"
    using assms(2) by (auto simp: fresh_history_def list_all_iff)
qed

text \<open>Once an identifier is no longer issued, and is not created again, no claim succeeds.\<close>

lemma no_claim_after:
  assumes "inv s" and "fresh_history phase_of s es" and "sid \<notin> set (created_ids es)"
    and "\<And>d. phase_of s sid \<noteq> PIssued d"
  shows "claims_won sid es (fst (run_events ops es s)) = 0"
  using assms
proof (induction es arbitrary: s)
  case Nil
  then show ?case by simp
next
  case (Cons e es)
  obtain r s' where ex: "exec_event ops e s = (r, s')" by fastforce
  have nots: "sid \<notin> set (created_id e)" "sid \<notin> set (created_ids es)"
    using Cons.prems(3) by auto
  have inv': "inv s'" and fresh': "fresh_history phase_of s' es"
    using fresh_history_step [OF Cons.prems(1,2) ex] by blast+
  have "\<And>d. phase_of s' sid \<noteq> PIssued d"
    using exec_event_step [OF Cons.prems(1,2) ex] nots Cons.prems(4) by (metis lives_to_issued)
  with Cons.IH [OF inv' fresh' nots(2)]
  have rest: "claims_won sid es (fst (run_events ops es s')) = 0" by blast
  have "\<not> claim_won sid e r"
    using ex Cons.prems(1,4) by (auto elim!: claim_won.elims simp: apfst_def map_prod_def
        split: prod.splits dest!: claim_ok)
  with rest ex show ?case by simp
qed

text \<open>In any history that never reuses an identifier, a session is claimed at most once.\<close>

lemma claimed_at_most_once:
  assumes "inv s" and "fresh_history phase_of s es"
  shows "claims_won sid es (fst (run_events ops es s)) \<le> 1"
  using assms
proof (induction es arbitrary: s)
  case Nil
  then show ?case by simp
next
  case (Cons e es)
  obtain r s' where ex: "exec_event ops e s = (r, s')" by fastforce
  have inv': "inv s'" and fresh': "fresh_history phase_of s' es"
    using fresh_history_step [OF Cons.prems ex] by blast+
  show ?case
  proof (cases "claim_won sid e r")
    case False
    with Cons.IH [OF inv' fresh'] ex show ?thesis by simp
  next
    case True
    then obtain d now lim l where e: "e = EvClaim sid d now lim" and r: "r = RClaim (Inr l)"
      by (auto elim: claim_won.elims)
    then have "st_ClaimAndReserve ops sid d now lim s = (Inr l, s')"
      using ex by (cases "st_ClaimAndReserve ops sid d now lim s") auto
    then have "phase_of s sid = PIssued d" and claimed: "phase_of s' sid = PClaimed (le_ID l)"
      using claim_ok [OF Cons.prems(1)] by blast+
    then have "sid \<notin> set (created_ids es)"
      using Cons.prems(2) by (auto simp: fresh_history_def list_all_iff)
    then have "claims_won sid es (fst (run_events ops es s')) = 0"
      using no_claim_after [OF inv' fresh'] claimed by simp
    with ex show ?thesis by simp
  qed
qed

end

end
