(* ===== verification/Urls.thy ===== *)
theory Urls
  imports Codecs
begin

text \<open>
  What the gateway uses of \<open>net/url\<close>: percent escaping of paths, path segments and query components,
  \<open>url.Values\<close> with \<open>Set\<close>, \<open>Get\<close> and \<open>Encode\<close>, the parser of a raw query, and the text of a URL.
  \<open>url.Values\<close> is a map from keys to the list of their values.
\<close>

section \<open>Percent escaping\<close>

datatype escape_mode =
  EncodePath | EncodePathSegment | EncodeHost | EncodeZone | EncodeUserPassword | EncodeQueryComponent | EncodeFragment

definition unreserved :: "char \<Rightarrow> bool" where
  "unreserved c \<longleftrightarrow>
     (let n = (of_char c :: nat) in
      (48 \<le> n \<and> n \<le> 57) \<or> (65 \<le> n \<and> n \<le> 90) \<or> (97 \<le> n \<and> n \<le> 122)) \<or> c \<in> set ''-_.~''"

definition should_escape :: "escape_mode \<Rightarrow> char \<Rightarrow> bool" where
  "should_escape m c =
     (if unreserved c then False
      else if m \<in> {EncodeHost, EncodeZone} \<and> c \<in> set (CHR 0x27 # ''!$&()*+,;=:[]<>\"'') then False
      else if c \<in> set ''$&+,/:;=?@'' then
        (case m of
           EncodePath \<Rightarrow> c = CHR ''?''
         | EncodePathSegment \<Rightarrow> c \<in> set ''/;,?''
         | EncodeUserPassword \<Rightarrow> c \<in> set ''@/?:''
         | EncodeFragment \<Rightarrow> False
         | _ \<Rightarrow> True)
      else if m = EncodeFragment \<and> c \<in> set ''!()*'' then False
      else True)"

definition upper_hex :: "nat \<Rightarrow> char" where
  "upper_hex n = (if n < 10 then char_of (48 + n) else char_of (55 + n))"

definition escape_char :: "escape_mode \<Rightarrow> char \<Rightarrow> string" where
  "escape_char m c =
     (if should_escape m c then
        (if c = CHR '' '' \<and> m = EncodeQueryComponent then ''+''
         else [CHR ''%'', upper_hex (of_char c div 16), upper_hex (of_char c mod 16)])
      else [c])"

definition url_escape :: "escape_mode \<Rightarrow> string \<Rightarrow> string" where
  "url_escape m s = concat (map (escape_char m) s)"

definition unhex :: "char \<Rightarrow> nat option" where
  "unhex c =
     (let n = (of_char c :: nat) in
      if 48 \<le> n \<and> n \<le> 57 then Some (n - 48)
      else if 97 \<le> n \<and> n \<le> 102 then Some (n - 87)
      else if 65 \<le> n \<and> n \<le> 70 then Some (n - 55) else None)"

fun query_unescape :: "string \<Rightarrow> string option" where
  "query_unescape [] = Some []"
| "query_unescape (c # cs) =
     (if c = CHR ''%'' then
        (case cs of
           a # b # rest \<Rightarrow>
             (case (unhex a, unhex b, query_unescape rest) of
                (Some h, Some l, Some out) \<Rightarrow> Some (char_of (16 * h + l) # out)
              | _ \<Rightarrow> None)
         | _ \<Rightarrow> None)
      else map_option ((#) (if c = CHR ''+'' then CHR '' '' else c)) (query_unescape cs))"

section \<open>Query values\<close>

type_synonym url_values = "(string, string list) gomap"

definition values_Set :: "string \<Rightarrow> string \<Rightarrow> url_values \<Rightarrow> url_values" where
  "values_Set k v q = mput k [v] q"

definition values_Get :: "string \<Rightarrow> url_values \<Rightarrow> string" where
  "values_Get k q = (case mget q k of Some (v # _) \<Rightarrow> v | _ \<Rightarrow> [])"

fun str_less_eq :: "string \<Rightarrow> string \<Rightarrow> bool" where
  "str_less_eq [] t = True"
| "str_less_eq (c # s) [] = False"
| "str_less_eq (c # s) (d # t) =
     (if c = d then str_less_eq s t else (of_char c :: nat) < of_char d)"

fun insort_key :: "string \<times> string list \<Rightarrow> url_values \<Rightarrow> url_values" where
  "insort_key p [] = [p]"
| "insort_key p (q # qs) = (if str_less_eq (fst p) (fst q) then p # q # qs else q # insort_key p qs)"

definition values_Encode :: "url_values \<Rightarrow> string" where
  "values_Encode q =
     join ''&'' (concat (map (\<lambda>(k, vs). map (\<lambda>v.
        url_escape EncodeQueryComponent k @ ''='' @ url_escape EncodeQueryComponent v) vs)
       (foldr insort_key q [])))"

fun split_on :: "char \<Rightarrow> string \<Rightarrow> string list" where
  "split_on sep [] = [[]]"
| "split_on sep (c # cs) =
     (if c = sep then [] # split_on sep cs
      else (case split_on sep cs of w # ws \<Rightarrow> (c # w) # ws | [] \<Rightarrow> [[c]]))"

definition cut :: "char \<Rightarrow> string \<Rightarrow> string \<times> string" where
  "cut sep s = (takeWhile (\<lambda>c. c \<noteq> sep) s, drop 1 (dropWhile (\<lambda>c. c \<noteq> sep) s))"

text \<open>\<open>(*URL).Query\<close>: malformed pairs are skipped.\<close>

definition query_pair :: "string \<Rightarrow> url_values \<Rightarrow> url_values" where
  "query_pair piece q =
     (if CHR '';'' \<in> set piece \<or> piece = [] then q
      else
        (case cut (CHR ''='') piece of (k, v) \<Rightarrow>
           (case (query_unescape k, query_unescape v) of
              (Some k', Some v') \<Rightarrow>
                mput k' ((case mget q k' of Some vs \<Rightarrow> vs | None \<Rightarrow> []) @ [v']) q
            | _ \<Rightarrow> q)))"

definition parse_query :: "string \<Rightarrow> url_values" where
  "parse_query raw = fold query_pair (split_on (CHR ''&'') raw) []"

section \<open>Escaping is inverted by unescaping\<close>

lemma unhex_upper_hex [simp]: "n < 16 \<Longrightarrow> unhex (upper_hex n) = Some n"
  by (simp add: unhex_def upper_hex_def)

lemma query_unescape_escape_char:
  "query_unescape (escape_char EncodeQueryComponent c @ rest) = map_option ((#) c) (query_unescape rest)"
proof (cases "should_escape EncodeQueryComponent c")
  case True
  have "(of_char c :: nat) div 16 < 16"
    using nat_of_char_less_256 [of c] by linarith
  moreover have "char_of (16 * ((of_char c :: nat) div 16) + of_char c mod 16) = c"
    by simp
  ultimately show ?thesis
    using True by (auto simp: escape_char_def split: option.split)
next
  case False
  then have "c \<noteq> CHR ''%'' \<and> c \<noteq> CHR ''+''"
    by (auto simp: should_escape_def unreserved_def split: if_splits)
  with False show ?thesis by (simp add: escape_char_def)
qed

lemma query_unescape_escape [simp, codec_simps]:
  "query_unescape (url_escape EncodeQueryComponent s) = Some s"
proof (induction s)
  case Nil
  then show ?case by (simp add: url_escape_def)
next
  case (Cons c s)
  then show ?case
    by (simp add: url_escape_def query_unescape_escape_char)
qed

lemma url_escape_unreserved: "list_all unreserved s \<Longrightarrow> url_escape m s = s"
  by (induction s) (auto simp: url_escape_def escape_char_def should_escape_def)

lemma split_on_absent: "sep \<notin> set s \<Longrightarrow> split_on sep s = [s]"
  by (induction s) auto

lemma cut_first: "sep \<notin> set k \<Longrightarrow> cut sep (k @ sep # v) = (k, v)"
  by (induction k) (auto simp: cut_def)

lemma url_escape_append: "url_escape m (s @ t) = url_escape m s @ url_escape m t"
  by (simp add: url_escape_def)

lemma unreserved_special [simp]:
  "\<not> unreserved (CHR ''&'')" "\<not> unreserved (CHR '';'')" "\<not> unreserved (CHR ''='')"
  by (simp_all add: unreserved_def)

lemma unreserved_special_absent:
  "list_all unreserved s \<Longrightarrow> CHR ''&'' \<notin> set s \<and> CHR '';'' \<notin> set s \<and> CHR ''='' \<notin> set s"
  using unreserved_special by (auto simp: list_all_iff)

text \<open>A single parameter of unreserved characters is parsed back as it was written.\<close>

lemma parse_query_single:
  assumes "list_all unreserved v" and "list_all unreserved k" and "k \<noteq> []"
  shows "values_Get k (parse_query (k @ ''='' @ v)) = v"
proof -
  note s = unreserved_special_absent [OF assms(1)] unreserved_special_absent [OF assms(2)]
  have "split_on (CHR ''&'') (k @ ''='' @ v) = [k @ ''='' @ v]"
    using s by (intro split_on_absent) auto
  moreover have "cut (CHR ''='') (k @ ''='' @ v) = (k, v)"
    using s cut_first [of "CHR ''=''" k v] by simp
  moreover have "query_unescape k = Some k" "query_unescape v = Some v"
    using query_unescape_escape [of k] query_unescape_escape [of v] assms
    by (simp_all add: url_escape_unreserved)
  ultimately show ?thesis
    using s by (simp add: parse_query_def query_pair_def values_Get_def)
qed

end
