(* ===== verification/SessionManager.thy ===== *)
theory SessionManager
  imports Fingerprinting StoreContract Urls
begin

text \<open>
  \<open>internal/session/manager.go\<close>: validation, issuing, replaying, claiming and closing of sessions
  over any implementation of the \<open>Store\<close> interface.

  The cryptographic primitives (SHA-256, AES-GCM under the configured key) are fields of
  \<open>crypto\<close>; a property that needs more than their types states it as a hypothesis. The random source
  is the list of bytes it will deliver, the clock readings are arguments, and the two external
  validators are optional functions to an optional error, as the nil-able interfaces are. Each
  operation takes and returns the state of the store, and \<open>issue\<close> the random source as well. The
  second result of \<open>issue\<close> and \<open>claim\<close> is the label the metrics observer is called with.
\<close>

section \<open>Configuration\<close>

record crypto =
  cr_sha256 :: "bytes \<Rightarrow> bytes"
  cr_Seal :: "bytes \<Rightarrow> bytes \<Rightarrow> bytes \<Rightarrow> bytes"
  cr_Open :: "bytes \<Rightarrow> bytes \<Rightarrow> bytes \<Rightarrow> bytes option"

text \<open>The base URL has a scheme and a host; \<open>bu_Query\<close> is its parsed query.\<close>

record base_url =
  bu_Scheme :: string
  bu_Host :: string
  bu_Path :: string
  bu_Query :: url_values

record manager_config =
  mc_InstanceValidator :: "(string \<Rightarrow> string \<Rightarrow> instance_binding \<Rightarrow> error option) option"
  mc_VMValidator :: "(vm_binding \<Rightarrow> error option) option"
  mc_PublicWSBaseURL :: "base_url option"
  mc_TicketKey :: bytes
  mc_TicketTTL :: duration
  mc_SessionMaxDuration :: duration
  mc_IdempotencyTTL :: duration
  mc_MaxActive :: int
  mc_MaxActivePerSubject :: int

text \<open>\<open>NewManager\<close>; the cipher over a 32-byte key always exists.\<close>

definition new_manager :: "bool \<Rightarrow> manager_config \<Rightarrow> manager_config result" where
  "new_manager store_present cfg =
     (if \<not> store_present \<or> mc_PublicWSBaseURL cfg = None
      then Inl (ErrText ''store and public WebSocket base URL are required'')
      else if mc_TicketTTL cfg \<le> 0 \<or> mc_SessionMaxDuration cfg \<le> 0 \<or> mc_IdempotencyTTL cfg \<le> 0 \<or>
              mc_MaxActive cfg \<le> 0 \<or> mc_MaxActivePerSubject cfg \<le> 0
      then Inl (ErrText ''positive session limits are required'')
      else Inr cfg)"

section \<open>Validation\<close>

definition valid_vm_binding :: "vm_binding \<Rightarrow> bool" where
  "valid_vm_binding b \<longleftrightarrow>
     vb_Enabled b \<and> vb_TenantID b \<noteq> [] \<and> vb_VMID b \<noteq> [] \<and> vb_Version b > 0 \<and>
     vb_ClusterID b \<noteq> [] \<and> vb_Namespace b \<noteq> [] \<and> vb_VMName b \<noteq> [] \<and> vb_VMUID b \<noteq> [] \<and>
     vb_VMIName b \<noteq> [] \<and> vb_VMIUID b \<noteq> [] \<and> vb_NamespaceUID b \<noteq> []"

abbreviation invalid_because :: "string \<Rightarrow> error" where
  "invalid_because msg \<equiv> Wrap (Sentinel ErrInvalidRequest) msg"

definition validate_request :: "request \<Rightarrow> error option" where
  "validate_request r =
     (let vb = rq_VMBinding r; ib = rq_InstanceBinding r in
      if vb_Enabled vb \<and>
         (ib_Enabled ib \<or> rq_WorkloadKind r \<noteq> WorkloadVM \<or> rq_Mode r \<noteq> ModeVNC \<or>
          vb_TenantID vb \<noteq> rq_TenantID r \<or> vb_VMID vb \<noteq> rq_InstanceID r \<or>
          vb_VMName vb \<noteq> rq_WorkloadName r \<or> \<not> valid_vm_binding vb)
      then Some (Sentinel ErrInvalidRequest)
      else if ib_Enabled ib \<and>
         (ib_Version ib < 1 \<or> ib_ClusterID ib = [] \<or> ib_Namespace ib = [] \<or> ib_NotebookName ib = [] \<or>
          ib_NotebookUID ib = [] \<or> ib_PodName ib = [] \<or> ib_PodUID ib = [] \<or>
          ib_ContainerName ib \<noteq> rq_Container r \<or> ib_Shell ib = [] \<or> rq_Mode r \<noteq> ModeExec)
      then Some (Sentinel ErrInvalidRequest)
      else if rq_IdempotencyKey r = [] \<or> rq_TenantID r = [] \<or> rq_SubjectID r = [] \<or>
              rq_InstanceID r = [] \<or> rq_WorkloadName r = []
      then Some (invalid_because ''idempotency key, principal, instance, and workload are required'')
      else
        (case rq_Mode r of
           ModeExec \<Rightarrow>
             if rq_WorkloadKind r \<noteq> WorkloadContainer \<and> rq_WorkloadKind r \<noteq> WorkloadGPUContainer \<and>
                rq_WorkloadKind r \<noteq> WorkloadSandbox
             then Some (invalid_because ''exec requires a container workload'')
             else if rq_Rows r = 0 \<or> rq_Cols r = 0 \<or> rq_Rows r > 4096 \<or> rq_Cols r > 4096
             then Some (invalid_because ''exec terminal size must be between 1 and 4096'')
             else None
         | ModeSerial \<Rightarrow>
             if rq_WorkloadKind r \<noteq> WorkloadVM
             then Some (invalid_because ''VM console requires a VM workload'') else None
         | ModeVNC \<Rightarrow>
             if rq_WorkloadKind r \<noteq> WorkloadVM
             then Some (invalid_because ''VM console requires a VM workload'') else None
         | ModeOther _ \<Rightarrow> Some (invalid_because ''unsupported session mode'')))"

section \<open>Ticket material\<close>

abbreviation gcm_nonce_size :: nat where
  "gcm_nonce_size \<equiv> 12"

definition encrypt :: "crypto \<Rightarrow> manager_config \<Rightarrow> bytes \<Rightarrow> bytes \<Rightarrow> bytes result \<times> bytes" where
  "encrypt cr cfg plaintext rng =
     (case read_full gcm_nonce_size rng of
        (Inl e, rng') \<Rightarrow> (Inl e, rng')
      | (Inr nonce, rng') \<Rightarrow> (Inr (nonce @ cr_Seal cr (mc_TicketKey cfg) nonce plaintext), rng'))"

definition decrypt :: "crypto \<Rightarrow> manager_config \<Rightarrow> bytes \<Rightarrow> bytes result" where
  "decrypt cr cfg ciphertext =
     (if length ciphertext < gcm_nonce_size then Inl (ErrText ''invalid ciphertext'')
      else
        (case cr_Open cr (mc_TicketKey cfg) (take gcm_nonce_size ciphertext)
                (drop gcm_nonce_size ciphertext) of
           None \<Rightarrow> Inl (ErrText ''cipher: message authentication failed'')
         | Some plaintext \<Rightarrow> Inr plaintext))"

text \<open>\<open>randomID\<close>: a version 4 UUID from 16 random bytes.\<close>

definition uuid_bits :: "bytes \<Rightarrow> bytes" where
  "uuid_bits raw =
     raw[6 := or (and (raw ! 6) 0x0f) 0x40, 8 := or (and (raw ! 8) 0x3f) 0x80]"

definition uuid_format :: "bytes \<Rightarrow> string" where
  "uuid_format raw =
     hex_encode (take 4 raw) @ ''-'' @ hex_encode (take 2 (drop 4 raw)) @ ''-'' @
     hex_encode (take 2 (drop 6 raw)) @ ''-'' @ hex_encode (take 2 (drop 8 raw)) @ ''-'' @
     hex_encode (drop 10 raw)"

definition random_id :: "bytes \<Rightarrow> string result \<times> bytes" where
  "random_id rng =
     (case read_full 16 rng of
        (Inl e, rng') \<Rightarrow> (Inl e, rng')
      | (Inr raw, rng') \<Rightarrow> (Inr (uuid_format (uuid_bits raw)), rng'))"

section \<open>Issue\<close>

definition observe_result :: "error option \<Rightarrow> string" where
  "observe_result err =
     (case err of
        None \<Rightarrow> ''success''
      | Some e \<Rightarrow>
          if errors_is e ErrInvalidRequest then ''invalid''
          else if errors_is e ErrInvalidTicket then ''invalid_ticket''
          else if errors_is e ErrNotFound then ''not_found''
          else if errors_is e ErrConflict then ''conflict''
          else if errors_is e ErrFailedPrecondition then ''failed_precondition''
          else if errors_is e ErrCapacity then ''capacity''
          else if errors_is e ErrUnavailable then ''unavailable''
          else ''error'')"

text \<open>The checks before anything is generated: an error with its label, or admission.\<close>

definition issue_admission :: "manager_config \<Rightarrow> request \<Rightarrow> (error \<times> string) option" where
  "issue_admission cfg r =
     (case validate_request r of
        Some e \<Rightarrow> Some (e, ''invalid'')
      | None \<Rightarrow>
          if mc_VMValidator cfg \<noteq> None \<and> rq_Mode r = ModeVNC \<and> \<not> vb_Enabled (rq_VMBinding r)
          then Some (Sentinel ErrInvalidRequest, ''error'')
          else
            (case (if ib_Enabled (rq_InstanceBinding r) then
                     (case mc_InstanceValidator cfg of
                        None \<Rightarrow> Some (Sentinel ErrUnavailable)
                      | Some validate \<Rightarrow>
                          validate (rq_TenantID r) (rq_InstanceID r) (rq_InstanceBinding r))
                   else None) of
               Some e \<Rightarrow> Some (e, ''error'')
             | None \<Rightarrow>
                 (case (if vb_Enabled (rq_VMBinding r) then
                          (case mc_VMValidator cfg of
                             None \<Rightarrow> Some (Sentinel ErrUnavailable)
                           | Some validate \<Rightarrow> validate (rq_VMBinding r))
                        else None) of
                    Some e \<Rightarrow> Some (e, ''error'')
                  | None \<Rightarrow> None)))"

definition issue_candidate ::
  "crypto \<Rightarrow> manager_config \<Rightarrow> request \<Rightarrow> time \<Rightarrow> string \<Rightarrow> bytes \<Rightarrow> string \<Rightarrow> session" where
  "issue_candidate cr cfg r now ticket ciphertext sid =
     \<lparr> s_InstanceBinding = rq_InstanceBinding r, s_VMBinding = rq_VMBinding r, s_ID = sid,
       s_IdempotencyKey = rq_IdempotencyKey r,
       s_RequestFingerprint = fingerprint (cr_sha256 cr) r,
       s_TicketDigest = cr_sha256 cr (str_bytes ticket), s_TicketCiphertext = ciphertext,
       s_TenantID = rq_TenantID r, s_SubjectID = rq_SubjectID r, s_InstanceID = rq_InstanceID r,
       s_WorkloadName = rq_WorkloadName r, s_WorkloadKind = rq_WorkloadKind r, s_Mode = rq_Mode r,
       s_Container = rq_Container r, s_Command = rq_Command r, s_TTY = rq_TTY r,
       s_Rows = rq_Rows r, s_Cols = rq_Cols r, s_RequestedProtocol = rq_RequestedProtocol r,
       s_State = StateIssued, s_CreatedAt = now, s_TicketExpiresAt = now + mc_TicketTTL cfg,
       s_ExpiresAt = zero_time,
       s_TombstoneExpiresAt = now + dur_add (mc_TicketTTL cfg) (mc_IdempotencyTTL cfg),
       s_ClaimedAt = zero_time, s_ClosedAt = zero_time, s_CloseReason = [], s_LeaseID = [] \<rparr>"

text \<open>The ticket, its ciphertext and the identifier, drawn from the random source in this order.\<close>

definition issue_generate ::
  "crypto \<Rightarrow> manager_config \<Rightarrow> bytes \<Rightarrow> (string \<times> bytes \<times> string) result \<times> bytes" where
  "issue_generate cr cfg rng =
     (case read_full 32 rng of
        (Inl e, rng1) \<Rightarrow> (Inl (Wrap e ''generate ticket''), rng1)
      | (Inr ticket_bytes, rng1) \<Rightarrow>
          let ticket = b64_encode b64_url ticket_bytes in
          (case encrypt cr cfg (str_bytes ticket) rng1 of
             (Inl e, rng2) \<Rightarrow> (Inl (Wrap e ''encrypt ticket''), rng2)
           | (Inr ciphertext, rng2) \<Rightarrow>
               (case random_id rng2 of
                  (Inl e, rng3) \<Rightarrow> (Inl (Wrap e ''generate session ID''), rng3)
                | (Inr sid, rng3) \<Rightarrow> (Inr (ticket, ciphertext, sid), rng3))))"

definition issue ::
  "crypto \<Rightarrow> manager_config \<Rightarrow> 's store_ops \<Rightarrow> request \<Rightarrow> time \<Rightarrow> bytes \<times> 's
     \<Rightarrow> issued result \<times> string \<times> bytes \<times> 's" where
  "issue cr cfg ops r now st =
     (case st of (rng, s) \<Rightarrow>
      case issue_admission cfg r of
        Some (e, label) \<Rightarrow> (Inl e, label, rng, s)
      | None \<Rightarrow>
          (case issue_generate cr cfg rng of
             (Inl e, rng') \<Rightarrow> (Inl e, ''error'', rng', s)
           | (Inr (ticket, ciphertext, sid), rng') \<Rightarrow>
               (case st_CreateOrGet ops (rq_IdempotencyKey r)
                       (issue_candidate cr cfg r now ticket ciphertext sid) s of
                  (Inl e, s') \<Rightarrow> (Inl e, observe_result (Some e), rng', s')
                | (Inr (stored, replayed), s') \<Rightarrow>
                    if replayed then
                      (case decrypt cr cfg (s_TicketCiphertext stored) of
                         Inl _ \<Rightarrow> (Inl (Sentinel ErrFailedPrecondition), ''failed_precondition'', rng', s')
                       | Inr plaintext \<Rightarrow>
                           (Inr \<lparr> is_Session = stored, is_Ticket = bytes_str plaintext,
                                  is_Replayed = True \<rparr>, ''replayed'', rng', s'))
                    else
                      (Inr \<lparr> is_Session = stored, is_Ticket = ticket, is_Replayed = False \<rparr>,
                       ''success'', rng', s'))))"

text \<open>
  \<open>ConnectURL\<close>, with what \<open>(*URL).String\<close> writes for a URL that has a scheme, a host, a path that
  starts with a slash and a non-empty query. \<open>new_manager\<close> refuses an absent base URL, so the other
  case of the option does not occur.
\<close>

definition url_string :: "base_url \<Rightarrow> string" where
  "url_string u =
     bu_Scheme u @ ''://'' @ url_escape EncodeHost (bu_Host u) @ url_escape EncodePath (bu_Path u) @ ''?'' @
     values_Encode (bu_Query u)"

definition connect_url :: "manager_config \<Rightarrow> issued \<Rightarrow> string" where
  "connect_url cfg iss =
     (case mc_PublicWSBaseURL cfg of
        None \<Rightarrow> []
      | Some u \<Rightarrow>
          url_string (u\<lparr> bu_Path := trim_suffix (bu_Path u) ''/'' @ ''/sessions/'' @
                            url_escape EncodePathSegment (s_ID (is_Session iss)),
                          bu_Query := values_Set ''ticket'' (is_Ticket iss) (bu_Query u) \<rparr>))"

section \<open>Replay, Claim and Close\<close>

text \<open>\<open>Replay\<close> reads the clock twice, \<open>now1\<close> for the tombstone and \<open>now2\<close> for the ticket.\<close>

definition replay ::
  "crypto \<Rightarrow> manager_config \<Rightarrow> 's store_ops \<Rightarrow> replay_request \<Rightarrow> time \<Rightarrow> time \<Rightarrow> 's
     \<Rightarrow> issued result \<times> 's" where
  "replay cr cfg ops r now1 now2 s =
     (if rr_IdempotencyKey r = [] \<or> rr_TenantID r = [] \<or> rr_SubjectID r = [] \<or> rr_InstanceID r = [] \<or>
         rr_ExpectedVersion r < 1
      then (Inl (Sentinel ErrInvalidRequest), s)
      else
        (case st_GetByKey ops (rr_IdempotencyKey r) s of
           (Inl e, s') \<Rightarrow> (Inl e, s')
         | (Inr stored, s') \<Rightarrow>
             ((if s_TenantID stored \<noteq> rr_TenantID r \<or> s_SubjectID stored \<noteq> rr_SubjectID r
               then Inl (Sentinel ErrNotFound)
               else if \<not> now1 < s_TombstoneExpiresAt stored then Inl (Sentinel ErrNotFound)
               else if s_InstanceID stored \<noteq> rr_InstanceID r \<or> \<not> vb_Enabled (s_VMBinding stored) \<or>
                       s_WorkloadKind stored \<noteq> WorkloadVM \<or> s_Mode stored \<noteq> ModeVNC \<or>
                       vb_Version (s_VMBinding stored) \<noteq> rr_ExpectedVersion r
               then Inl (Sentinel ErrConflict)
               else if s_State stored \<noteq> StateIssued \<or> \<not> now2 < s_TicketExpiresAt stored
               then Inl (Sentinel ErrFailedPrecondition)
               else
                 (case decrypt cr cfg (s_TicketCiphertext stored) of
                    Inl _ \<Rightarrow> Inl (Sentinel ErrFailedPrecondition)
                  | Inr ticket \<Rightarrow>
                      Inr \<lparr> is_Session = stored, is_Ticket = bytes_str ticket, is_Replayed = True \<rparr>)),
              s')))"

definition config_limits :: "manager_config \<Rightarrow> claim_limits" where
  "config_limits cfg =
     \<lparr> cl_MaxActive = mc_MaxActive cfg, cl_MaxActivePerSubject = mc_MaxActivePerSubject cfg,
       cl_SessionMaxDuration = mc_SessionMaxDuration cfg, cl_IdempotencyTTL = mc_IdempotencyTTL cfg \<rparr>"

definition access_of_lease :: "session_lease \<Rightarrow> claimed_access" where
  "access_of_lease lease =
     (let s = le_Session lease in
      \<lparr> ca_SessionID = s_ID s, ca_LeaseID = le_ID lease, ca_ExpiresAt = le_ExpiresAt lease,
        ca_Identity = \<lparr> id_TenantID = s_TenantID s, id_SubjectID = s_SubjectID s,
                        id_InstanceID = s_InstanceID s \<rparr>,
        ca_Target = \<lparr> tg_InstanceBinding = s_InstanceBinding s, tg_VMBinding = s_VMBinding s,
                      tg_WorkloadName = s_WorkloadName s, tg_WorkloadKind = s_WorkloadKind s \<rparr>,
        ca_Mode = s_Mode s,
        ca_Exec = (if s_Mode s = ModeExec
                   then Some \<lparr> eo_Container = s_Container s, eo_Command = s_Command s,
                               eo_TTY = s_TTY s,
                               eo_Size = \<lparr> ts_Rows = s_Rows s, ts_Cols = s_Cols s \<rparr> \<rparr>
                   else None) \<rparr>)"

definition claim ::
  "crypto \<Rightarrow> manager_config \<Rightarrow> 's store_ops \<Rightarrow> string \<Rightarrow> string \<Rightarrow> time \<Rightarrow> 's
     \<Rightarrow> claimed_access result \<times> string \<times> 's" where
  "claim cr cfg ops sid ticket now s =
     (case st_ClaimAndReserve ops sid (cr_sha256 cr (str_bytes ticket)) now (config_limits cfg) s of
        (Inl e, s') \<Rightarrow> (Inl e, observe_result (Some e), s')
      | (Inr lease, s') \<Rightarrow> (Inr (access_of_lease lease), observe_result None, s'))"

definition close_session ::
  "'s store_ops \<Rightarrow> string \<Rightarrow> string \<Rightarrow> string \<Rightarrow> time \<Rightarrow> 's \<Rightarrow> unit result \<times> 's" where
  "close_session ops sid lid reason now s = st_CloseAndRelease ops sid lid reason now s"

end
