(* ===== verification/Json.thy ===== *)
theory Json
  imports Codecs
begin

text \<open>
  What the gateway uses of \<open>unicode/utf8\<close> and \<open>encoding/json\<close>: decoding and encoding of runes, quoting
  of strings with the HTML escapes of \<open>json.Marshal\<close>, a tokenizer and the pushdown automaton of the
  scanner with its nesting limit, and the decoding of objects into structs (exact field name first,
  then the name under case folding; \<open>null\<close> leaves a field alone; the first mismatch is an error).
  A Go string is a sequence of bytes that need not be UTF-8: marshalling replaces every byte that is
  not part of a valid sequence by U+FFFD (\<open>utf8_sanitize\<close>), and that is all a round trip changes.
\<close>

section \<open>UTF-8\<close>

abbreviation code_of :: "char \<Rightarrow> nat" where
  "code_of c \<equiv> of_char c"

definition rune_error :: nat where
  "rune_error = 65533"

definition between :: "nat \<Rightarrow> nat \<Rightarrow> nat \<Rightarrow> bool" where
  "between lo hi n \<longleftrightarrow> lo \<le> n \<and> n \<le> hi"

text \<open>\<open>utf8.DecodeRune\<close>: the rune and its width; a byte that starts no valid sequence is U+FFFD of width 1.\<close>

definition second_range :: "nat \<Rightarrow> nat \<times> nat" where
  "second_range b =
     (if b = 224 then (160, 191) else if b = 237 then (128, 159)
      else if b = 240 then (144, 191) else if b = 244 then (128, 143) else (128, 191))"

fun decode_rune_bytes :: "nat list \<Rightarrow> nat \<times> nat" where
  "decode_rune_bytes [] = (rune_error, 0)"
| "decode_rune_bytes (b # bs) =
     (if b < 128 then (b, 1)
      else if between 194 223 b then
        (case bs of
           b1 # _ \<Rightarrow> if between 128 191 b1 then ((b - 192) * 64 + (b1 - 128), 2) else (rune_error, 1)
         | _ \<Rightarrow> (rune_error, 1))
      else if between 224 239 b then
        (case bs of
           b1 # b2 # _ \<Rightarrow>
             if between (fst (second_range b)) (snd (second_range b)) b1 \<and> between 128 191 b2
             then ((b - 224) * 4096 + (b1 - 128) * 64 + (b2 - 128), 3) else (rune_error, 1)
         | _ \<Rightarrow> (rune_error, 1))
      else if between 240 244 b then
        (case bs of
           b1 # b2 # b3 # _ \<Rightarrow>
             if between (fst (second_range b)) (snd (second_range b)) b1 \<and> between 128 191 b2 \<and>
                between 128 191 b3
             then ((b - 240) * 262144 + (b1 - 128) * 4096 + (b2 - 128) * 64 + (b3 - 128), 4)
             else (rune_error, 1)
         | _ \<Rightarrow> (rune_error, 1))
      else (rune_error, 1))"

definition decode_rune :: "string \<Rightarrow> nat \<times> nat" where
  "decode_rune s = decode_rune_bytes (map code_of (take 4 s))"

definition surrogate :: "nat \<Rightarrow> bool" where
  "surrogate n \<longleftrightarrow> between 55296 57343 n"

definition valid_rune :: "nat \<Rightarrow> bool" where
  "valid_rune n \<longleftrightarrow> n \<le> 1114111 \<and> \<not> surrogate n"

text \<open>\<open>utf8.AppendRune\<close>: an invalid rune is written as U+FFFD.\<close>

definition rune_bytes :: "nat \<Rightarrow> nat list" where
  "rune_bytes n =
     (if n < 128 then [n]
      else if n < 2048 then [192 + n div 64, 128 + n mod 64]
      else if n < 65536 then [224 + n div 4096, 128 + n div 64 mod 64, 128 + n mod 64]
      else [240 + n div 262144, 128 + n div 4096 mod 64, 128 + n div 64 mod 64, 128 + n mod 64])"

definition encode_rune :: "nat \<Rightarrow> string" where
  "encode_rune n = map char_of (rune_bytes (if valid_rune n then n else rune_error))"

lemma decode_rune_size:
  assumes "s \<noteq> []"
  shows "1 \<le> snd (decode_rune s)" and "snd (decode_rune s) \<le> length s"
proof -
  have "1 \<le> snd (decode_rune_bytes bs) \<and> snd (decode_rune_bytes bs) \<le> length bs" if "bs \<noteq> []" for bs
    using that by (cases bs) (auto split: list.split)
  from this [of "map code_of (take 4 s)"] assms
  show "1 \<le> snd (decode_rune s)" and "snd (decode_rune s) \<le> length s"
    by (auto simp: decode_rune_def)
qed

lemma sextets3:
  assumes "y < 64" and "z < (64::nat)"
  shows "(x * 4096 + y * 64 + z) div 4096 = x" "(x * 4096 + y * 64 + z) div 64 mod 64 = y"
    "(x * 4096 + y * 64 + z) mod 64 = z"
proof -
  have eq: "x * 4096 + y * 64 + z = (x * 64 + y) * 64 + z" by simp
  have d: "(x * 4096 + y * 64 + z) div 64 = x * 64 + y" unfolding eq using assms(2) by simp
  have "(x * 4096 + y * 64 + z) div 4096 = (x * 4096 + y * 64 + z) div 64 div 64"
    by (simp flip: div_mult2_eq)
  then show "(x * 4096 + y * 64 + z) div 4096 = x" using assms(1) by (simp add: d)
  show "(x * 4096 + y * 64 + z) div 64 mod 64 = y" using assms(1) by (simp add: d)
  show "(x * 4096 + y * 64 + z) mod 64 = z" unfolding eq mod_mult_self3 using assms(2) by simp
qed

lemma sextets4:
  assumes "x < 64" and "y < 64" and "z < (64::nat)"
  shows "(w * 262144 + x * 4096 + y * 64 + z) div 262144 = w"
    "(w * 262144 + x * 4096 + y * 64 + z) div 4096 mod 64 = x"
    "(w * 262144 + x * 4096 + y * 64 + z) div 64 mod 64 = y"
    "(w * 262144 + x * 4096 + y * 64 + z) mod 64 = z"
proof -
  have eq: "w * 262144 + x * 4096 + y * 64 + z = (w * 64 + x) * 4096 + y * 64 + z" by simp
  have d: "(w * 262144 + x * 4096 + y * 64 + z) div 4096 = w * 64 + x"
    unfolding eq using assms by (intro sextets3)
  have "(w * 262144 + x * 4096 + y * 64 + z) div 262144 = (w * 262144 + x * 4096 + y * 64 + z) div 4096 div 64"
    by (simp flip: div_mult2_eq)
  then show "(w * 262144 + x * 4096 + y * 64 + z) div 262144 = w" using assms(1) by (simp add: d)
  show "(w * 262144 + x * 4096 + y * 64 + z) div 4096 mod 64 = x" using assms(1) by (simp add: d)
  show "(w * 262144 + x * 4096 + y * 64 + z) div 64 mod 64 = y"
    "(w * 262144 + x * 4096 + y * 64 + z) mod 64 = z"
    unfolding eq using sextets3 [OF assms(2,3)] by blast+
qed

text \<open>A rune of a valid sequence is a valid rune, and the sequence is its encoding.\<close>

lemma decode_rune_bytes_valid:
  assumes "decode_rune_bytes bs = (r, k)" and "bs \<noteq> []" and "\<not> (r = rune_error \<and> k = 1)"
  shows "valid_rune r \<and> take k bs = rune_bytes r"
proof -
  obtain b cs where bs: "bs = b # cs" using assms(2) by (cases bs) auto
  consider (one) "b < 128" | (two) "between 194 223 b" | (three) "between 224 239 b"
    | (four) "between 240 244 b"
    using assms(1,3) by (auto simp: bs split: if_splits)
  then show ?thesis
  proof cases
    case one
    then show ?thesis
      using assms(1) by (auto simp: bs valid_rune_def surrogate_def between_def rune_bytes_def)
  next
    case two
    then obtain b1 ds where "cs = b1 # ds" and r: "between 128 191 b1"
      using assms by (auto simp: bs between_def split: list.splits if_splits)
    moreover define x where "x = b - 192"
    moreover define y where "y = b1 - 128"
    ultimately have "b = x + 192" "b1 = y + 128" "2 \<le> x" "x < 32" "y < 64" "cs = b1 # ds"
      using two by (auto simp: between_def)
    then show ?thesis
      using assms(1) by (auto simp: bs valid_rune_def surrogate_def between_def rune_bytes_def)
  next
    case three
    then obtain b1 b2 ds where cs: "cs = b1 # b2 # ds"
      and r: "between (fst (second_range b)) (snd (second_range b)) b1" "between 128 191 b2"
      using assms by (auto simp: bs between_def split: list.splits if_splits)
    define x y z where "x = b - 224" and "y = b1 - 128" and "z = b2 - 128"
    then have eq: "b = x + 224" "b1 = y + 128" "b2 = z + 128" and bd: "x < 16" "y < 64" "z < 64"
      and sr: "x = 0 \<longrightarrow> 32 \<le> y" "x = 13 \<longrightarrow> y < 32"
      using three r by (auto simp: between_def second_range_def split: if_splits)
    have rk: "r = x * 4096 + y * 64 + z" "k = 3"
      using assms(1) three r eq by (auto simp: bs cs between_def)
    have "2048 \<le> r" "r < 65536"
      using bd sr by (cases "x = 0"; simp add: rk)+
    moreover have "\<not> surrogate r"
      using bd sr unfolding rk surrogate_def between_def
      by (cases "x \<le> 12"; cases "x = 13") auto
    ultimately show ?thesis
      using bd unfolding rk by (simp add: bs cs eq valid_rune_def rune_bytes_def sextets3)
  next
    case four
    then obtain b1 b2 b3 ds where cs: "cs = b1 # b2 # b3 # ds"
      and r: "between (fst (second_range b)) (snd (second_range b)) b1" "between 128 191 b2"
        "between 128 191 b3"
      using assms by (auto simp: bs between_def split: list.splits if_splits)
    define w x y z where "w = b - 240" and "x = b1 - 128" and "y = b2 - 128" and "z = b3 - 128"
    then have eq: "b = w + 240" "b1 = x + 128" "b2 = y + 128" "b3 = z + 128"
      and bd: "w \<le> 4" "x < 64" "y < 64" "z < 64"
      and sr: "w = 0 \<longrightarrow> 16 \<le> x" "w = 4 \<longrightarrow> x < 16"
      using four r by (auto simp: between_def second_range_def split: if_splits)
    have rk: "r = w * 262144 + x * 4096 + y * 64 + z" "k = 4"
      using assms(1) four r eq by (auto simp: bs cs between_def)
    have "65536 \<le> r" "r \<le> 1114111" "\<not> surrogate r"
      using bd sr unfolding rk surrogate_def between_def by auto
    then show ?thesis
      using bd unfolding rk by (simp add: bs cs eq valid_rune_def rune_bytes_def sextets4)
  qed
qed

lemma decode_rune_valid:
  assumes "decode_rune s = (r, k)" and "s \<noteq> []" and "\<not> (r = rune_error \<and> k = 1)"
  shows "take k s = encode_rune r"
proof -
  have v: "valid_rune r \<and> take k (map code_of (take 4 s)) = rune_bytes r"
    using assms by (intro decode_rune_bytes_valid) (auto simp: decode_rune_def)
  have "k \<le> 4"
    using assms(1) decode_rune_size(2) [of "take 4 s"] assms(2) by (auto simp: decode_rune_def)
  then have "map code_of (take k s) = rune_bytes r"
    using v by (simp add: take_map min_def)
  then have "map char_of (map code_of (take k s)) = encode_rune r"
    using v by (simp only: encode_rune_def if_True)
  then show ?thesis by (simp add: comp_def)
qed

lemma sextets3_sum: "r = r div 4096 * 4096 + r div 64 mod 64 * 64 + (r::nat) mod 64"
proof -
  have "r div 4096 = r div 64 div 64" by (simp flip: div_mult2_eq)
  moreover have "r div 64 = r div 64 div 64 * 64 + r div 64 mod 64" by (rule div_mult_mod_eq [symmetric])
  moreover have "r = r div 64 * 64 + r mod 64" by (rule div_mult_mod_eq [symmetric])
  ultimately show ?thesis by linarith
qed

lemma sextets4_sum: "r = r div 262144 * 262144 + r div 4096 mod 64 * 4096 + r div 64 mod 64 * 64 + (r::nat) mod 64"
proof -
  have "r div 262144 = r div 4096 div 64" by (simp flip: div_mult2_eq)
  moreover have "r div 4096 = r div 4096 div 64 * 64 + r div 4096 mod 64" by (rule div_mult_mod_eq [symmetric])
  ultimately show ?thesis using sextets3_sum [of r] by linarith
qed

lemma second_range_ok:
  "b \<noteq> 224 \<or> 32 \<le> y \<Longrightarrow> b \<noteq> 237 \<or> y < 32 \<Longrightarrow> b \<noteq> 240 \<or> 16 \<le> y \<Longrightarrow> b \<noteq> 244 \<or> y < 16 \<Longrightarrow> y < 64 \<Longrightarrow>
   between (fst (second_range b)) (snd (second_range b)) (128 + y)"
  by (auto simp: second_range_def between_def)

lemma decode_rune_bytes_encode:
  assumes "valid_rune r"
  shows "decode_rune_bytes (rune_bytes r @ t) = (r, length (rune_bytes r))"
proof -
  consider (one) "r < 128" | (two) "128 \<le> r" "r < 2048" | (three) "2048 \<le> r" "r < 65536"
    | (four) "65536 \<le> r" "r \<le> 1114111"
    using assms by (fastforce simp: valid_rune_def)
  then show ?thesis
  proof cases
    case one
    then show ?thesis by (simp add: rune_bytes_def)
  next
    case two
    then have "2 \<le> r div 64" and "r div 64 < 32" by auto
    with two show ?thesis by (simp add: rune_bytes_def between_def)
  next
    case three
    define x y z where "x = r div 4096" and "y = r div 64 mod 64" and "z = r mod 64"
    have req: "r = x * 4096 + y * 64 + z" unfolding x_def y_def z_def by (rule sextets3_sum)
    have bd: "x < 16" "y < 64" "z < 64" using three by (auto simp: x_def y_def z_def)
    have sr: "x = 0 \<longrightarrow> 32 \<le> y" "x = 13 \<longrightarrow> y < 32"
      using three(1) assms bd by (auto simp: req valid_rune_def surrogate_def between_def)
    have "between (fst (second_range (224 + x))) (snd (second_range (224 + x))) (128 + y)"
      using bd sr by (intro second_range_ok) auto
    moreover have "rune_bytes r = [224 + x, 128 + y, 128 + z]"
      using three by (simp add: rune_bytes_def x_def y_def z_def)
    ultimately show ?thesis
      using bd by (simp add: between_def req)
  next
    case four
    define w x y z where "w = r div 262144" and "x = r div 4096 mod 64" and "y = r div 64 mod 64"
      and "z = r mod 64"
    have req: "r = w * 262144 + x * 4096 + y * 64 + z" unfolding w_def x_def y_def z_def by (rule sextets4_sum)
    have bd: "w \<le> 4" "x < 64" "y < 64" "z < 64" using four by (auto simp: w_def x_def y_def z_def)
    have sr: "w = 0 \<longrightarrow> 16 \<le> x" "w = 4 \<longrightarrow> x < 16"
      using four bd by (auto simp: req)
    have "between (fst (second_range (240 + w))) (snd (second_range (240 + w))) (128 + x)"
      using bd sr by (intro second_range_ok) auto
    moreover have "rune_bytes r = [240 + w, 128 + x, 128 + y, 128 + z]"
      using four by (simp add: rune_bytes_def w_def x_def y_def z_def)
    ultimately show ?thesis
      using bd by (simp add: between_def req)
  qed
qed

lemma rune_bytes_small: "valid_rune r \<Longrightarrow> list_all (\<lambda>b. b < 256) (rune_bytes r)"
  by (auto simp: rune_bytes_def valid_rune_def)

lemma length_rune_bytes: "1 \<le> length (rune_bytes r) \<and> length (rune_bytes r) \<le> 4"
  by (simp add: rune_bytes_def)

lemma valid_rune_error [simp]: "valid_rune rune_error"
  by (simp add: valid_rune_def surrogate_def between_def rune_error_def)

lemma code_of_encode_rune:
  "map code_of (encode_rune r) = rune_bytes (if valid_rune r then r else rune_error)"
proof -
  have "list_all (\<lambda>b. b < 256) (rune_bytes (if valid_rune r then r else rune_error))"
    by (rule rune_bytes_small) simp
  then show ?thesis
    by (auto simp: encode_rune_def comp_def list_all_iff intro!: map_idI)
qed

lemma decode_rune_encode:
  assumes "valid_rune r"
  shows "decode_rune (encode_rune r @ t) = (r, length (encode_rune r))"
proof -
  have "map code_of (take 4 (encode_rune r @ t)) = rune_bytes r @ map code_of (take (4 - length (rune_bytes r)) t)"
    using code_of_encode_rune [of r] length_rune_bytes [of r] assms
    by (simp add: encode_rune_def)
  then show ?thesis
    using assms by (simp add: decode_rune_def decode_rune_bytes_encode encode_rune_def)
qed

text \<open>The string every reader of a marshalled value sees: invalid bytes become U+FFFD.\<close>

function utf8_sanitize :: "string \<Rightarrow> string" where
  "utf8_sanitize s =
     (if s = [] then []
      else encode_rune (fst (decode_rune s)) @ utf8_sanitize (drop (snd (decode_rune s)) s))"
  by auto
termination
  by (relation "measure length") (use decode_rune_size in \<open>auto simp: Suc_le_eq\<close>)

declare utf8_sanitize.simps [simp del]

definition utf8_valid :: "string \<Rightarrow> bool" where
  "utf8_valid s \<longleftrightarrow> utf8_sanitize s = s"

lemma utf8_sanitize_Nil [simp]: "utf8_sanitize [] = []"
  by (simp add: utf8_sanitize.simps)

lemma utf8_sanitize_ascii_Cons:
  assumes "code_of c < 128"
  shows "utf8_sanitize (c # s) = c # utf8_sanitize s"
proof -
  have "decode_rune (c # s) = (code_of c, 1)" using assms by (simp add: decode_rune_def)
  moreover have "encode_rune (code_of c) = [c]"
    using assms by (simp add: encode_rune_def valid_rune_def surrogate_def between_def rune_bytes_def)
  ultimately show ?thesis by (simp add: utf8_sanitize.simps [of "c # s"])
qed

lemma utf8_sanitize_ascii: "list_all (\<lambda>c. code_of c < 128) s \<Longrightarrow> utf8_sanitize s = s"
  by (induction s) (simp_all add: utf8_sanitize_ascii_Cons)

text \<open>A string is valid when it is a sequence of encoded runes.\<close>

lemma utf8_sanitize_encoded:
  "list_all valid_rune rs \<Longrightarrow> utf8_sanitize (concat (map encode_rune rs)) = concat (map encode_rune rs)"
proof (induction rs)
  case (Cons r rs)
  have "encode_rune r \<noteq> []" using length_rune_bytes by (auto simp: encode_rune_def rune_bytes_def)
  then show ?case
    using Cons decode_rune_encode [of r "concat (map encode_rune rs)"]
    by (simp add: utf8_sanitize.simps [of "encode_rune r @ concat (map encode_rune rs)"])
qed simp

lemma utf8_sanitize_runes: "\<exists>rs. list_all valid_rune rs \<and> utf8_sanitize s = concat (map encode_rune rs)"
proof (induction s rule: utf8_sanitize.induct)
  case (1 s)
  show ?case
  proof (cases "s = []")
    case True
    then show ?thesis by (intro exI [of _ "[]"]) simp
  next
    case False
    let ?r = "fst (decode_rune s)"
    obtain rs where "list_all valid_rune rs"
      and "utf8_sanitize (drop (snd (decode_rune s)) s) = concat (map encode_rune rs)"
      using 1 [OF False] by blast
    moreover have "encode_rune (if valid_rune ?r then ?r else rune_error) = encode_rune ?r"
      by (simp add: encode_rune_def)
    ultimately show ?thesis
      using False by (intro exI [of _ "(if valid_rune ?r then ?r else rune_error) # rs"])
        (simp add: utf8_sanitize.simps [of s])
  qed
qed

lemma utf8_valid_iff: "utf8_valid s \<longleftrightarrow> (\<exists>rs. list_all valid_rune rs \<and> s = concat (map encode_rune rs))"
  by (metis utf8_sanitize_encoded utf8_sanitize_runes utf8_valid_def)

section \<open>Strings\<close>

abbreviation "quote_char \<equiv> CHR 0x22"
abbreviation "backslash \<equiv> CHR 0x5C"

definition json_safe :: "char \<Rightarrow> bool" where
  "json_safe c \<longleftrightarrow> 32 \<le> code_of c \<and> code_of c < 128 \<and>
     c \<notin> {quote_char, backslash, CHR ''<'', CHR ''>'', CHR ''&''}"

definition json_escape :: "char \<Rightarrow> string" where
  "json_escape c =
     (if json_safe c then [c]
      else if c = backslash \<or> c = quote_char then [backslash, c]
      else if c = CHR 0x08 then [backslash, CHR ''b'']
      else if c = CHR 0x0C then [backslash, CHR ''f'']
      else if c = CHR 0x0A then [backslash, CHR ''n'']
      else if c = CHR 0x0D then [backslash, CHR ''r'']
      else if c = CHR 0x09 then [backslash, CHR ''t'']
      else backslash # ''u00'' @ [hex_digit (code_of c div 16), hex_digit (code_of c mod 16)])"

text \<open>One rune of the loop of \<open>appendString\<close>: what is written for it.\<close>

definition quote_rune :: "string \<Rightarrow> string" where
  "quote_rune s =
     (case decode_rune s of (r, k) \<Rightarrow>
        if code_of (hd s) < 128 then json_escape (hd s)
        else if r = rune_error \<and> k = 1 then backslash # ''ufffd''
        else if r = 8232 \<or> r = 8233 then backslash # ''u202'' @ [hex_digit (r mod 16)]
        else take k s)"

function quote_body :: "string \<Rightarrow> string" where
  "quote_body s = (if s = [] then [] else quote_rune s @ quote_body (drop (snd (decode_rune s)) s))"
  by auto
termination
  by (relation "measure length") (use decode_rune_size in \<open>auto simp: Suc_le_eq\<close>)

declare quote_body.simps [simp del]

definition json_quote :: "string \<Rightarrow> string" where
  "json_quote s = quote_char # quote_body s @ [quote_char]"

text \<open>
  The scanner inside a string with \<open>unquoteBytes\<close>: the value of the literal after the opening quote and
  what follows the closing one.
\<close>

definition hex4 :: "string \<Rightarrow> nat option" where
  "hex4 s =
     (case s of
        a # b # c # d # _ \<Rightarrow>
          (case (hex_value a, hex_value b, hex_value c, hex_value d) of
             (Some w, Some x, Some y, Some z) \<Rightarrow> Some (w * 4096 + x * 256 + y * 16 + z)
           | _ \<Rightarrow> None)
      | _ \<Rightarrow> None)"

definition getu4 :: "string \<Rightarrow> nat option" where
  "getu4 s = (case s of a # b # t \<Rightarrow> if a = backslash \<and> b = CHR ''u'' then hex4 t else None | _ \<Rightarrow> None)"

definition simple_escape :: "char \<Rightarrow> char option" where
  "simple_escape e =
     (if e \<in> {quote_char, backslash, CHR ''/''} then Some e
      else if e = CHR ''b'' then Some (CHR 0x08) else if e = CHR ''f'' then Some (CHR 0x0C)
      else if e = CHR ''n'' then Some (CHR 0x0A) else if e = CHR ''r'' then Some (CHR 0x0D)
      else if e = CHR ''t'' then Some (CHR 0x09) else None)"

text \<open>\<open>utf16.DecodeRune\<close> of a surrogate and what follows it.\<close>

definition surrogate_pair :: "nat \<Rightarrow> nat option \<Rightarrow> nat option" where
  "surrogate_pair hi lo =
     (case lo of
        Some l \<Rightarrow> if between 55296 56319 hi \<and> between 56320 57343 l
                  then Some ((hi - 55296) * 1024 + (l - 56320) + 65536) else None
      | None \<Rightarrow> None)"

text \<open>The next element of a literal: what it denotes and how many bytes it takes; nothing when it is ill-formed.\<close>

definition unquote_step :: "string \<Rightarrow> (string \<times> nat) option" where
  "unquote_step s =
     (case s of
        [] \<Rightarrow> None
      | c # t \<Rightarrow>
          if c = backslash then
            (case t of
               [] \<Rightarrow> None
             | e # t' \<Rightarrow>
                 if e = CHR ''u'' then
                   (case hex4 t' of
                      None \<Rightarrow> None
                    | Some rr \<Rightarrow>
                        if surrogate rr then
                          (case surrogate_pair rr (getu4 (drop 4 t')) of
                             Some dec \<Rightarrow> Some (encode_rune dec, 12)
                           | None \<Rightarrow> Some (encode_rune rune_error, 6))
                        else Some (encode_rune rr, 6))
                 else map_option (\<lambda>ch. ([ch], 2)) (simple_escape e))
          else if code_of c < 32 then None
          else Some (encode_rune (fst (decode_rune s)), snd (decode_rune s)))"

lemma unquote_step_pos: "unquote_step s = Some (v, k) \<Longrightarrow> 1 \<le> k \<and> s \<noteq> []"
  using decode_rune_size(1) [of s]
  by (cases s) (auto simp: unquote_step_def split: if_splits list.splits option.splits)

function unquote :: "string \<Rightarrow> (string \<times> string) option" where
  "unquote s =
     (if s \<noteq> [] \<and> hd s = quote_char then Some ([], tl s)
      else case unquote_step s of
        None \<Rightarrow> None
      | Some (v, k) \<Rightarrow> map_option (apfst ((@) v)) (unquote (drop k s)))"
  by auto
termination
  by (relation "measure length") (auto dest!: unquote_step_pos simp: Suc_le_eq)

declare unquote.simps [simp del]

subsection \<open>Unquoting undoes quoting\<close>

lemma decode_rune_ascii: "code_of c < 128 \<Longrightarrow> decode_rune (c # t) = (code_of c, 1)"
  by (simp add: decode_rune_def)

lemma encode_rune_ascii: "code_of c < 128 \<Longrightarrow> encode_rune (code_of c) = [c]"
  by (simp add: encode_rune_def valid_rune_def surrogate_def between_def rune_bytes_def)

lemma hex4_byte:
  "x < 16 \<Longrightarrow> y < 16 \<Longrightarrow> hex4 (CHR ''0'' # CHR ''0'' # hex_digit x # hex_digit y # t) = Some (16 * x + y)"
  by (simp add: hex4_def hex_value_def [of "CHR ''0''"])

lemma unquote_step_escape:
  assumes "code_of c < 128"
  shows "unquote_step (json_escape c @ t) = Some ([c], length (json_escape c))"
    and "json_escape c \<noteq> []" and "hd (json_escape c) \<noteq> quote_char"
proof -
  note enc = encode_rune_ascii [OF assms]
  show "unquote_step (json_escape c @ t) = Some ([c], length (json_escape c))"
  proof (cases "json_safe c")
    case True
    then show ?thesis
      using decode_rune_ascii [OF assms, of t] enc
      by (auto simp: json_escape_def unquote_step_def json_safe_def)
  next
    case False
    show ?thesis
    proof (cases "c \<in> {backslash, quote_char, CHR 0x08, CHR 0x0C, CHR 0x0A, CHR 0x0D, CHR 0x09}")
      case True
      with False show ?thesis
        by (auto simp: json_escape_def json_safe_def unquote_step_def simple_escape_def)
    next
      case other: False
      have "code_of c div 16 < 16" using assms by simp
      then have hex: "hex4 (CHR ''0'' # CHR ''0'' # hex_digit (code_of c div 16) # hex_digit (code_of c mod 16) # t)
          = Some (code_of c)"
        by (simp add: hex4_byte)
      have "\<not> surrogate (code_of c)" using assms by (simp add: surrogate_def between_def)
      with hex enc False other show ?thesis
        by (simp add: json_escape_def unquote_step_def)
    qed
  qed
  show "json_escape c \<noteq> []" by (simp add: json_escape_def)
  show "hd (json_escape c) \<noteq> quote_char" by (auto simp: json_escape_def json_safe_def)
qed

lemma hex4_const:
  "hex4 (CHR ''f'' # CHR ''f'' # CHR ''f'' # CHR ''d'' # t) = Some rune_error"
  "hex4 (CHR ''2'' # CHR ''0'' # CHR ''2'' # hex_digit 8 # t) = Some 8232"
  "hex4 (CHR ''2'' # CHR ''0'' # CHR ''2'' # hex_digit 9 # t) = Some 8233"
  by (simp_all add: hex4_def hex_value_def rune_error_def hex_digit_def)

lemma encode_rune_head:
  assumes "128 \<le> r"
  shows "encode_rune r \<noteq> []" and "128 \<le> code_of (hd (encode_rune r))"
proof -
  have "\<exists>b bs. rune_bytes (if valid_rune r then r else rune_error) = b # bs \<and> 128 \<le> b \<and> b < 256"
    using assms by (auto simp: rune_bytes_def valid_rune_def rune_error_def)
  then show "encode_rune r \<noteq> []" and "128 \<le> code_of (hd (encode_rune r))"
    by (auto simp: encode_rune_def)
qed

lemma unquote_step_rune:
  assumes "valid_rune r" and "128 \<le> r"
  shows "unquote_step (encode_rune r @ t) = Some (encode_rune r, length (encode_rune r))"
proof -
  obtain c u where cu: "encode_rune r = c # u" and c: "128 \<le> code_of c"
    using encode_rune_head [OF assms(2)] by (cases "encode_rune r") auto
  then have "c \<noteq> backslash" by auto
  then show ?thesis
    using decode_rune_encode [OF assms(1), of t] c
    by (simp add: unquote_step_def cu)
qed

lemma quote_rune_step:
  assumes "s \<noteq> []"
  shows "unquote_step (quote_rune s @ t) = Some (encode_rune (fst (decode_rune s)), length (quote_rune s))"
    and "quote_rune s \<noteq> []" and "hd (quote_rune s) \<noteq> quote_char"
proof -
  obtain c u where s: "s = c # u" using assms by (cases s) auto
  obtain r k where rk: "decode_rune s = (r, k)" by fastforce
  have "unquote_step (quote_rune s @ t) = Some (encode_rune r, length (quote_rune s)) \<and>
      quote_rune s \<noteq> [] \<and> hd (quote_rune s) \<noteq> quote_char"
  proof (cases "code_of c < 128")
    case True
    then have "quote_rune s = json_escape c" and "encode_rune r = [c]"
      using rk encode_rune_ascii [OF True] by (auto simp: quote_rune_def s decode_rune_ascii)
    then show ?thesis using unquote_step_escape [OF True] by simp
  next
    case big: False
    show ?thesis
    proof (cases "r = rune_error \<and> k = 1")
      case True
      then have "quote_rune s = backslash # ''ufffd''"
        using big rk by (simp add: quote_rune_def s)
      then show ?thesis
        using True by (simp add: unquote_step_def hex4_const) (simp add: surrogate_def between_def rune_error_def)
    next
      case False
      then have enc: "take k s = encode_rune r" using decode_rune_valid rk assms by blast
      have v: "valid_rune r" and "128 \<le> r"
      proof -
        have "valid_rune r \<and> take k (map code_of (take 4 s)) = rune_bytes r"
          using rk assms False by (intro decode_rune_bytes_valid) (auto simp: decode_rune_def)
        then show "valid_rune r" by blast
        show "128 \<le> r"
        proof (rule ccontr)
          assume "\<not> 128 \<le> r"
          then have "encode_rune r = [char_of r]" by (simp add: encode_rune_def \<open>valid_rune r\<close> rune_bytes_def)
          then have "c = char_of r" using enc by (cases k) (auto simp: s)
          then show False using big \<open>\<not> 128 \<le> r\<close> by simp
        qed
      qed
      note head = encode_rune_head [OF \<open>128 \<le> r\<close>]
      have nq: "hd (encode_rune r) \<noteq> quote_char" using head(2) by auto
      consider (sep) "r = 8232 \<or> r = 8233" | (plain) "r \<noteq> 8232 \<and> r \<noteq> 8233" by blast
      then show ?thesis
      proof cases
        case sep
        then have "quote_rune s = backslash # ''u202'' @ [hex_digit (r mod 16)]"
          using big rk False by (auto simp: quote_rune_def s)
        then show ?thesis
          using sep by (auto simp: unquote_step_def hex4_const surrogate_def between_def)
      next
        case plain
        then have "quote_rune s = encode_rune r"
          using big rk False enc by (auto simp: quote_rune_def s)
        then show ?thesis using unquote_step_rune [OF v \<open>128 \<le> r\<close>] head nq by simp
      qed
    qed
  qed
  then show "unquote_step (quote_rune s @ t) = Some (encode_rune (fst (decode_rune s)), length (quote_rune s))"
    and "quote_rune s \<noteq> []" and "hd (quote_rune s) \<noteq> quote_char"
    by (simp_all add: rk)
qed

lemma unquote_quote_body: "unquote (quote_body s @ quote_char # t) = Some (utf8_sanitize s, t)"
proof (induction s rule: quote_body.induct)
  case (1 s)
  show ?case
  proof (cases "s = []")
    case True
    then show ?thesis
      by (simp add: quote_body.simps [of "[]"] utf8_sanitize.simps [of "[]"] unquote.simps [of "quote_char # t"])
  next
    case False
    note step = quote_rune_step [OF False]
    let ?rest = "quote_body (drop (snd (decode_rune s)) s) @ quote_char # t"
    have "unquote (quote_rune s @ ?rest) =
        map_option (apfst ((@) (encode_rune (fst (decode_rune s))))) (unquote ?rest)"
      using step by (subst unquote.simps) simp
    with 1 [OF False] False show ?thesis
      by (simp add: quote_body.simps [of s] utf8_sanitize.simps [of s])
  qed
qed

section \<open>Values\<close>

datatype json =
  JNull | JBool bool | JNum string | JStr string | JArr "json list" | JObj "(string \<times> json) list"

subsection \<open>Printing\<close>

text \<open>\<open>json.Marshal\<close> writes no white space.\<close>

fun json_print :: "json \<Rightarrow> string" where
  "json_print JNull = ''null''"
| "json_print (JBool b) = (if b then ''true'' else ''false'')"
| "json_print (JNum lit) = lit"
| "json_print (JStr s) = json_quote s"
| "json_print (JArr vs) = ''['' @ join '','' (map json_print vs) @ '']''"
| "json_print (JObj kvs) =
     ''{'' @ join '','' (map (\<lambda>(k, v). json_quote k @ '':'' @ json_print v) kvs) @ ''}''"

subsection \<open>Scanning\<close>

datatype token = TPunct char | TStr string | TNum string | TTrue | TFalse | TNull

definition digits_span :: "string \<Rightarrow> string \<times> string" where
  "digits_span s = (takeWhile is_digit s, dropWhile is_digit s)"

definition scan_frac :: "string \<Rightarrow> (string \<times> string) option" where
  "scan_frac s =
     (case s of
        c # t \<Rightarrow>
          if c = CHR ''.'' then
            (case digits_span t of (ds, u) \<Rightarrow> if ds = [] then None else Some (c # ds, u))
          else Some ([], s)
      | [] \<Rightarrow> Some ([], s))"

definition scan_exp :: "string \<Rightarrow> (string \<times> string) option" where
  "scan_exp s =
     (case s of
        c # t \<Rightarrow>
          if c = CHR ''e'' \<or> c = CHR ''E'' then
            (case (if t \<noteq> [] \<and> hd t \<in> {CHR ''+'', CHR ''-''} then ([hd t], tl t) else ([], t)) of
               (sg, u) \<Rightarrow>
                 (case digits_span u of (ds, w) \<Rightarrow> if ds = [] then None else Some (c # sg @ ds, w)))
          else Some ([], s)
      | [] \<Rightarrow> Some ([], s))"

text \<open>A number: an optional minus, an integer without leading zeros, a fraction, an exponent.\<close>

definition scan_number :: "string \<Rightarrow> (string \<times> string) option" where
  "scan_number s =
     (case (if s \<noteq> [] \<and> hd s = CHR ''-'' then (''-'', tl s) else ([], s)) of
        (sg, t) \<Rightarrow>
          (case (if t \<noteq> [] \<and> hd t = CHR ''0'' then (''0'', tl t) else digits_span t) of
             (ds, u) \<Rightarrow>
               if ds = [] then None
               else
                 (case scan_frac u of
                    None \<Rightarrow> None
                  | Some (fr, w) \<Rightarrow>
                      (case scan_exp w of
                         None \<Rightarrow> None
                       | Some (ex, x) \<Rightarrow> Some (sg @ ds @ fr @ ex, x)))))"

definition scan_word :: "string \<Rightarrow> token \<Rightarrow> string \<Rightarrow> (token \<times> string) option" where
  "scan_word w t s = (if has_prefix s w then Some (t, drop (length w) s) else None)"

definition json_space :: "char \<Rightarrow> bool" where
  "json_space c \<longleftrightarrow> c \<in> {CHR '' '', CHR 0x09, CHR 0x0D, CHR 0x0A}"

definition json_punct :: "char \<Rightarrow> bool" where
  "json_punct c \<longleftrightarrow> c \<in> {CHR ''['', CHR '']'', CHR ''{'', CHR ''}'', CHR '':'', CHR '',''}"

definition next_token :: "string \<Rightarrow> (token \<times> string) option" where
  "next_token s =
     (case s of
        [] \<Rightarrow> None
      | c # t \<Rightarrow>
          if json_punct c then Some (TPunct c, t)
          else if c = quote_char then map_option (apfst TStr) (unquote t)
          else if c = CHR ''t'' then scan_word ''true'' TTrue s
          else if c = CHR ''f'' then scan_word ''false'' TFalse s
          else if c = CHR ''n'' then scan_word ''null'' TNull s
          else map_option (apfst TNum) (scan_number s))"

lemma unquote_shorter: "unquote s = Some (v, t) \<Longrightarrow> length t < length s"
proof (induction s arbitrary: v rule: unquote.induct)
  case (1 s)
  show ?case
  proof (cases "s \<noteq> [] \<and> hd s = quote_char")
    case True
    with "1.prems" have "t = tl s" by (simp add: unquote.simps [of s])
    with True show ?thesis by (cases s) auto
  next
    case False
    with "1.prems" obtain w k where st: "unquote_step s = Some (w, k)"
      and "map_option (apfst ((@) w)) (unquote (drop k s)) = Some (v, t)"
      by (auto simp: unquote.simps [of s] split: option.splits if_splits)
    then obtain v' where u: "unquote (drop k s) = Some (v', t)" by auto
    have "length t < length (drop k s)" using "1.IH" [OF False st refl u] .
    then show ?thesis by simp
  qed
qed

lemma digits_span_shorter: "digits_span s = (d, t) \<Longrightarrow> length s = length d + length t"
  by (metis digits_span_def length_append prod.inject takeWhile_dropWhile_id)

lemma scan_number_shorter: "scan_number s = Some (l, t) \<Longrightarrow> length t < length s"
proof -
  assume scan: "scan_number s = Some (l, t)"
  obtain sg a where 1: "(if s \<noteq> [] \<and> hd s = CHR ''-'' then (''-'', tl s) else ([], s)) = (sg, a)"
    by fastforce
  obtain ds u where
    2: "(if a \<noteq> [] \<and> hd a = CHR ''0'' then (''0'', tl a) else digits_span a) = (ds, u)"
    by fastforce
  have 3: "ds \<noteq> []"
    using scan unfolding scan_number_def 1 prod.case 2 by (auto split: if_splits)
  then obtain fr w where 4: "scan_frac u = Some (fr, w)"
    using scan unfolding scan_number_def 1 prod.case 2 by (cases "scan_frac u") auto
  then have 5: "map_option snd (scan_exp w) = Some t"
    using scan 3 unfolding scan_number_def 1 prod.case 2 by (cases "scan_exp w") auto
  have "length a \<le> length s" using 1 by (auto split: if_splits)
  moreover have "length u < length a"
    using 2 3 by (auto split: if_splits dest: digits_span_shorter)
  moreover have "length w \<le> length u"
    using 4 by (auto simp: scan_frac_def split: list.splits prod.splits if_splits dest: digits_span_shorter)
  moreover have "length t \<le> length w"
    using 5 by (auto simp: scan_exp_def split: list.splits prod.splits if_splits dest!: digits_span_shorter)
  ultimately show ?thesis by simp
qed

lemma next_token_shorter: "next_token s = Some (k, t) \<Longrightarrow> length t < length s"
  by (auto simp: next_token_def scan_word_def has_prefix_def split: list.splits if_splits
      dest!: unquote_shorter scan_number_shorter)

function tokenize :: "string \<Rightarrow> token list option" where
  "tokenize s =
     (if s = [] then Some []
      else if json_space (hd s) then tokenize (tl s)
      else case next_token s of None \<Rightarrow> None | Some (k, t) \<Rightarrow> map_option ((#) k) (tokenize t))"
  by auto
termination
  by (relation "measure length") (auto dest: next_token_shorter)

declare tokenize.simps [simp del]

subsection \<open>Parsing\<close>

text \<open>
  The scanner's states with its stack of open arrays and objects. An object is on the stack while a
  value of it is read; its members so far are in the state while a key is read.
\<close>

datatype json_frame = InArr "json list" | InObj "(string \<times> json) list" string

datatype json_state =
    WantValue | WantElem | WantKey bool "(string \<times> json) list" | WantColon "(string \<times> json) list" string
  | After json

definition scalar_of :: "token \<Rightarrow> json option" where
  "scalar_of t =
     (case t of TStr s \<Rightarrow> Some (JStr s) | TNum l \<Rightarrow> Some (JNum l) | TTrue \<Rightarrow> Some (JBool True)
      | TFalse \<Rightarrow> Some (JBool False) | TNull \<Rightarrow> Some JNull | TPunct _ \<Rightarrow> None)"

definition max_nesting_depth :: nat where
  "max_nesting_depth = 10000"

function json_run :: "json_frame list \<Rightarrow> json_state \<Rightarrow> token list \<Rightarrow> (json \<times> token list) option" where
  "json_run [] (After v) ts = Some (v, ts)"
| "json_run (f # st) (After v) [] = None"
| "json_run (f # st) (After v) (t # ts) =
     (case f of
        InArr vs \<Rightarrow>
          if t = TPunct (CHR '','') then json_run (InArr (vs @ [v]) # st) WantValue ts
          else if t = TPunct (CHR '']'') then json_run st (After (JArr (vs @ [v]))) ts else None
      | InObj kvs k \<Rightarrow>
          if t = TPunct (CHR '','') then json_run st (WantKey False (kvs @ [(k, v)])) ts
          else if t = TPunct (CHR ''}'') then json_run st (After (JObj (kvs @ [(k, v)]))) ts else None)"
| "json_run st WantValue [] = None"
| "json_run st WantElem [] = None"
| "json_run st (WantKey b kvs) [] = None"
| "json_run st (WantColon kvs k) [] = None"
| "json_run st WantElem (t # ts) =
     (if t = TPunct (CHR '']'')
      then (case st of InArr vs # st' \<Rightarrow> json_run st' (After (JArr vs)) ts | _ \<Rightarrow> None)
      else json_run st WantValue (t # ts))"
| "json_run st WantValue (t # ts) =
     (if t = TPunct (CHR ''['') then
        (if length st < max_nesting_depth then json_run (InArr [] # st) WantElem ts else None)
      else if t = TPunct (CHR ''{'') then
        (if length st < max_nesting_depth then json_run st (WantKey True []) ts else None)
      else case scalar_of t of None \<Rightarrow> None | Some v \<Rightarrow> json_run st (After v) ts)"
| "json_run st (WantKey b kvs) (t # ts) =
     (if b \<and> t = TPunct (CHR ''}'') then json_run st (After (JObj kvs)) ts
      else case t of TStr k \<Rightarrow> json_run st (WantColon kvs k) ts | _ \<Rightarrow> None)"
| "json_run st (WantColon kvs k) (t # ts) =
     (if t = TPunct (CHR '':'') then json_run (InObj kvs k # st) WantValue ts else None)"
  by pat_completeness auto
termination
  by (relation "measure (\<lambda>(st, x, ts). 2 * length ts + (if x = WantElem then 1 else 0))") auto

text \<open>\<open>json.Unmarshal\<close> accepts one value, with white space around it only.\<close>

definition json_parse :: "string \<Rightarrow> json option" where
  "json_parse s =
     (case tokenize s of
        None \<Rightarrow> None
      | Some ts \<Rightarrow> (case json_run [] WantValue ts of Some (v, []) \<Rightarrow> Some v | _ \<Rightarrow> None))"

subsection \<open>Parsing undoes printing\<close>

fun json_tokens :: "json \<Rightarrow> token list" where
  "json_tokens JNull = [TNull]"
| "json_tokens (JBool b) = [if b then TTrue else TFalse]"
| "json_tokens (JNum lit) = [TNum lit]"
| "json_tokens (JStr s) = [TStr (utf8_sanitize s)]"
| "json_tokens (JArr vs) = TPunct (CHR ''['') # join [TPunct (CHR '','')] (map json_tokens vs) @ [TPunct (CHR '']'')]"
| "json_tokens (JObj kvs) =
     TPunct (CHR ''{'') # join [TPunct (CHR '','')]
       (map (\<lambda>(k, v). TStr (utf8_sanitize k) # TPunct (CHR '':'') # json_tokens v) kvs) @ [TPunct (CHR ''}'')]"

text \<open>What is read back: the same value with its strings and keys sanitized.\<close>

fun json_clean :: "json \<Rightarrow> json" where
  "json_clean JNull = JNull"
| "json_clean (JBool b) = JBool b"
| "json_clean (JNum lit) = JNum lit"
| "json_clean (JStr s) = JStr (utf8_sanitize s)"
| "json_clean (JArr vs) = JArr (map json_clean vs)"
| "json_clean (JObj kvs) = JObj (map (\<lambda>(k, v). (utf8_sanitize k, json_clean v)) kvs)"

fun json_integral :: "json \<Rightarrow> bool" where
  "json_integral (JNum lit) = (\<exists>i. lit = dec_int i)"
| "json_integral (JArr vs) = list_all json_integral vs"
| "json_integral (JObj kvs) = list_all (\<lambda>(k, v). json_integral v) kvs"
| "json_integral _ = True"

fun json_depth :: "json \<Rightarrow> nat" where
  "json_depth (JArr vs) = Suc (Max (set (0 # map json_depth vs)))"
| "json_depth (JObj kvs) = Suc (Max (set (0 # map (\<lambda>(k, v). json_depth v) kvs)))"
| "json_depth _ = 0"

definition delimited :: "string \<Rightarrow> bool" where
  "delimited t \<longleftrightarrow> t = [] \<or> json_punct (hd t)"

lemma delimited_Cons [simp]: "delimited (c # t) = json_punct c"
  by (simp add: delimited_def)

lemma json_punct_consts [simp]:
  "json_punct (CHR '','')" "json_punct (CHR '']'')" "json_punct (CHR ''}'')" "json_punct (CHR '':'')"
  "json_punct (CHR ''['')" "json_punct (CHR ''{'')" "\<not> json_punct quote_char"
  "\<not> json_punct (CHR ''t'')" "\<not> json_punct (CHR ''f'')" "\<not> json_punct (CHR ''n'')"
  by (simp_all add: json_punct_def)

lemma tokenize_step:
  "\<not> json_space (hd s) \<Longrightarrow> next_token s = Some (k, t) \<Longrightarrow> tokenize s = map_option ((#) k) (tokenize t)"
  by (subst tokenize.simps) (auto simp: next_token_def)

lemma tokenize_punct: "json_punct c \<Longrightarrow> tokenize (c # t) = map_option ((#) (TPunct c)) (tokenize t)"
  by (rule tokenize_step) (auto simp: next_token_def json_punct_def json_space_def)

lemma tokenize_quote: "tokenize (json_quote s @ t) = map_option ((#) (TStr (utf8_sanitize s))) (tokenize t)"
  by (rule tokenize_step) (simp_all add: next_token_def json_quote_def json_space_def unquote_quote_body)

lemma tokenize_words:
  "tokenize (''null'' @ t) = map_option ((#) TNull) (tokenize t)"
  "tokenize (''true'' @ t) = map_option ((#) TTrue) (tokenize t)"
  "tokenize (''false'' @ t) = map_option ((#) TFalse) (tokenize t)"
  by (rule tokenize_step; simp add: next_token_def scan_word_def has_prefix_def json_space_def)+

lemma dec_nat_lead: "0 < n \<Longrightarrow> hd (dec_nat n) \<noteq> CHR ''0''"
proof (induction n rule: dec_nat.induct)
  case (1 n)
  show ?case
  proof (cases "n < 10")
    case True
    have "code_of (char_of (48 + n)) \<noteq> code_of (CHR ''0'')" using True "1.prems" by simp
    then have "char_of (48 + n) \<noteq> CHR ''0''" by metis
    with True show ?thesis by (simp add: dec_nat.simps [of n])
  next
    case False
    with 1 have "hd (dec_nat (n div 10)) \<noteq> CHR ''0''" by simp
    with False show ?thesis by (simp add: dec_nat.simps [of n])
  qed
qed

lemma punct_not_digit: "json_punct c \<Longrightarrow> \<not> is_digit c"
  by (auto simp: json_punct_def is_digit_def)

lemma digits_span_delimited:
  assumes "list_all is_digit d" and "delimited t"
  shows "digits_span (d @ t) = (d, t)"
proof -
  have "\<forall>c \<in> set d. is_digit c" using assms(1) by (simp add: list_all_iff)
  moreover have "takeWhile is_digit t = [] \<and> dropWhile is_digit t = t"
    using assms(2) punct_not_digit by (cases t) auto
  ultimately show ?thesis by (simp add: digits_span_def takeWhile_append2 dropWhile_append2)
qed

lemma scan_tail_delimited: "delimited t \<Longrightarrow> scan_frac t = Some ([], t)" "delimited t \<Longrightarrow> scan_exp t = Some ([], t)"
  by (auto simp: delimited_def scan_frac_def scan_exp_def json_punct_def split: list.splits)

lemma scan_digits:
  assumes "delimited t"
  shows "(if dec_nat n @ t \<noteq> [] \<and> hd (dec_nat n @ t) = CHR ''0'' then (''0'', tl (dec_nat n @ t))
          else digits_span (dec_nat n @ t)) = (dec_nat n, t)"
proof (cases "n = 0")
  case True
  moreover have "char_of (48::nat) = CHR ''0''"
    using char_of_char [of "CHR ''0''"] by simp
  ultimately show ?thesis by (simp add: dec_nat.simps [of 0])
next
  case False
  then have "hd (dec_nat n @ t) \<noteq> CHR ''0''" using dec_nat_lead [of n] by simp
  then show ?thesis using digits_span_delimited [OF dec_nat_digits assms, of n] by simp
qed

lemma scan_number_dec_int:
  assumes "delimited t"
  shows "scan_number (dec_int i @ t) = Some (dec_int i, t)"
proof (cases "i < 0")
  case True
  then show ?thesis
    using scan_digits [OF assms, of "nat (- i)"] scan_tail_delimited [OF assms]
    by (simp add: scan_number_def dec_int_def)
next
  case False
  have "hd (dec_nat (nat i)) \<noteq> CHR ''-''"
    using dec_nat_digits [of "nat i"] by (cases "dec_nat (nat i)") (auto simp: is_digit_def)
  with False show ?thesis
    using scan_digits [OF assms, of "nat i"] scan_tail_delimited [OF assms]
    by (simp add: scan_number_def dec_int_def)
qed

lemma dec_int_head: "\<exists>c u. dec_int i = c # u \<and> (is_digit c \<or> c = CHR ''-'')"
  using dec_nat_digits [of "nat i"]
  by (cases "dec_nat (nat i)") (auto simp: dec_int_def)

lemma tokenize_number:
  assumes "delimited t"
  shows "tokenize (dec_int i @ t) = map_option ((#) (TNum (dec_int i))) (tokenize t)"
proof (rule tokenize_step)
  obtain c u where cu: "dec_int i = c # u" and c: "is_digit c \<or> c = CHR ''-''"
    using dec_int_head by blast
  then show "\<not> json_space (hd (dec_int i @ t))" by (auto simp: json_space_def is_digit_def)
  have "\<not> json_punct c \<and> c \<noteq> quote_char \<and> c \<noteq> CHR ''t'' \<and> c \<noteq> CHR ''f'' \<and> c \<noteq> CHR ''n''"
    using c by (auto simp: json_punct_def is_digit_def)
  then show "next_token (dec_int i @ t) = Some (TNum (dec_int i), t)"
    using scan_number_dec_int [OF assms, of i] by (simp add: next_token_def cu)
qed

lemma tokenize_join:
  assumes "\<And>x t. x \<in> set xs \<Longrightarrow> delimited t \<Longrightarrow> tokenize (f x @ t) = map_option ((@) (g x)) (tokenize t)"
    and "delimited t"
  shows "tokenize (join '','' (map f xs) @ t) =
    map_option ((@) (join [TPunct (CHR '','')] (map g xs))) (tokenize t)"
  using assms
proof (induction xs rule: induct_list012)
  case 1
  then show ?case by (simp add: option.map_id0 [unfolded id_def])
next
  case (2 x)
  then show ?case by simp
next
  case (3 x y zs)
  have "tokenize (f x @ CHR '','' # join '','' (map f (y # zs)) @ t) =
      map_option ((@) (g x)) (tokenize (CHR '','' # join '','' (map f (y # zs)) @ t))"
    using "3.prems"(1) by (simp add: "3.prems"(1))
  then show ?case
    using "3.IH"(2) "3.prems" by (simp add: tokenize_punct option.map_comp comp_def)
qed

lemma tokenize_print:
  "json_integral v \<Longrightarrow> delimited t \<Longrightarrow> tokenize (json_print v @ t) = map_option ((@) (json_tokens v)) (tokenize t)"
proof (induction v arbitrary: t)
  case JNull
  then show ?case using tokenize_words(1) [of t] by simp
next
  case (JBool b)
  then show ?case using tokenize_words(2,3) [of t] by simp
next
  case (JNum lit)
  then show ?case by (auto simp: tokenize_number)
next
  case (JStr s)
  then show ?case by (simp add: tokenize_quote)
next
  case (JArr vs)
  have "tokenize (join '','' (map json_print vs) @ '']'' @ t) =
      map_option ((@) (join [TPunct (CHR '','')] (map json_tokens vs))) (tokenize ('']'' @ t))"
    by (rule tokenize_join) (use JArr in \<open>auto simp: list_all_iff\<close>)
  then show ?case by (simp add: tokenize_punct option.map_comp comp_def)
next
  case (JObj kvs)
  have member: "tokenize ((\<lambda>(k, v). json_quote k @ '':'' @ json_print v) kv @ u) =
      map_option ((@) ((\<lambda>(k, v). TStr (utf8_sanitize k) # TPunct (CHR '':'') # json_tokens v) kv)) (tokenize u)"
    if "kv \<in> set kvs" and "delimited u" for kv u
  proof -
    obtain k v where kv: "kv = (k, v)" by (cases kv)
    have "tokenize (json_print v @ u) = map_option ((@) (json_tokens v)) (tokenize u)"
      using JObj that by (force simp: kv list_all_iff)
    then show ?thesis
      by (cases "tokenize u") (simp_all add: kv tokenize_quote tokenize_punct)
  qed
  have "tokenize (join '','' (map (\<lambda>(k, v). json_quote k @ '':'' @ json_print v) kvs) @ ''}'' @ t) =
      map_option ((@) (join [TPunct (CHR '','')]
        (map (\<lambda>(k, v). TStr (utf8_sanitize k) # TPunct (CHR '':'') # json_tokens v) kvs))) (tokenize (''}'' @ t))"
    by (rule tokenize_join) (use member in auto)
  then show ?case by (simp add: tokenize_punct option.map_comp comp_def)
qed

lemma json_tokens_head: "\<exists>t ts. json_tokens v = t # ts \<and> t \<noteq> TPunct (CHR '']'')"
  by (cases v) auto

lemma json_run_elems:
  assumes "vs \<noteq> []"
    and "\<And>v acc ts. v \<in> set vs \<Longrightarrow> json_run (InArr acc # st) WantValue (json_tokens v @ ts) =
           json_run (InArr acc # st) (After (json_clean v)) ts"
  shows "json_run (InArr acc # st) WantValue
           (join [TPunct (CHR '','')] (map json_tokens vs) @ TPunct (CHR '']'') # ts) =
         json_run st (After (JArr (acc @ map json_clean vs))) ts"
  using assms
proof (induction vs arbitrary: acc rule: induct_list012)
  case (3 x y zs)
  then show ?case using "3.IH"(2) [of "acc @ [json_clean x]"] by simp
qed auto

definition member_tokens :: "string \<times> json \<Rightarrow> token list" where
  "member_tokens = (\<lambda>(k, v). TStr (utf8_sanitize k) # TPunct (CHR '':'') # json_tokens v)"

definition member_clean :: "string \<times> json \<Rightarrow> string \<times> json" where
  "member_clean = (\<lambda>(k, v). (utf8_sanitize k, json_clean v))"

lemma json_run_members:
  assumes "kvs \<noteq> []"
    and "\<And>k v acc j ts. (k, v) \<in> set kvs \<Longrightarrow> json_run (InObj acc j # st) WantValue (json_tokens v @ ts) =
           json_run (InObj acc j # st) (After (json_clean v)) ts"
  shows "json_run st (WantKey b acc)
           (join [TPunct (CHR '','')] (map member_tokens kvs) @ TPunct (CHR ''}'') # ts) =
         json_run st (After (JObj (acc @ map member_clean kvs))) ts"
  using assms
proof (induction kvs arbitrary: b acc rule: induct_list012)
  case (2 x)
  then show ?case by (cases x) (simp add: member_tokens_def member_clean_def)
next
  case (3 x y zs)
  obtain k v where x: "x = (k, v)" by (cases x)
  have "json_run st (WantKey b acc)
      (join [TPunct (CHR '','')] (map member_tokens (x # y # zs)) @ TPunct (CHR ''}'') # ts) =
    json_run st (WantKey False (acc @ [member_clean x]))
      (join [TPunct (CHR '','')] (map member_tokens (y # zs)) @ TPunct (CHR ''}'') # ts)"
    using "3.prems"(2) [of k v] by (simp add: x member_tokens_def member_clean_def)
  also have "\<dots> = json_run st (After (JObj (acc @ map member_clean (x # y # zs)))) ts"
  proof -
    have "json_run (InObj a j # st) WantValue (json_tokens w @ us) =
        json_run (InObj a j # st) (After (json_clean w)) us" if "(i, w) \<in> set (y # zs)" for i w a j us
      using "3.prems"(2) [of i w] that by simp
    from "3.IH"(2) [OF _ this, where b = False and acc = "acc @ [member_clean x]"] show ?thesis by simp
  qed
  finally show ?case .
qed auto

lemma depth_member: "v \<in> set vs \<Longrightarrow> json_depth v < json_depth (JArr vs)"
  "(k, v) \<in> set kvs \<Longrightarrow> json_depth v < json_depth (JObj kvs)"
proof -
  show "json_depth v < json_depth (JArr vs)" if "v \<in> set vs"
    using that by (simp add: less_Suc_eq_le) 
  show "json_depth v < json_depth (JObj kvs)" if "(k, v) \<in> set kvs"
    using that by (force simp: less_Suc_eq_le intro!: Max_ge)
qed

lemma json_run_tokens:
  "length st + json_depth v \<le> max_nesting_depth \<Longrightarrow>
   json_run st WantValue (json_tokens v @ ts) = json_run st (After (json_clean v)) ts"
proof (induction v arbitrary: st ts)
  case (JArr vs)
  have room: "length st < max_nesting_depth" using JArr.prems by simp
  have elem: "json_run (InArr acc # st) WantValue (json_tokens v @ us) =
      json_run (InArr acc # st) (After (json_clean v)) us" if "v \<in> set vs" for v acc us
    using that depth_member(1) [OF that] JArr.prems by (intro JArr.IH) auto
  show ?case
  proof (cases "vs = []")
    case True
    then show ?thesis using room by simp
  next
    case False
    then obtain t us where "join [TPunct (CHR '','')] (map json_tokens vs) = t # us"
      and "t \<noteq> TPunct (CHR '']'')"
      using json_tokens_head [of "hd vs"] by (cases vs; cases "tl vs") auto
    then show ?thesis
      using room json_run_elems [OF False, of st "[]" ts] elem by simp
  qed
next
  case (JObj kvs)
  have room: "length st < max_nesting_depth" using JObj.prems by simp
  have elem: "json_run (InObj acc j # st) WantValue (json_tokens v @ us) =
      json_run (InObj acc j # st) (After (json_clean v)) us" if "(k, v) \<in> set kvs" for k v acc j us
    using that depth_member(2) [OF that] JObj.prems by (intro JObj.IH) auto
  show ?case
  proof (cases "kvs = []")
    case True
    then show ?thesis using room by simp
  next
    case False
    then show ?thesis
      using room json_run_members [OF False elem, where b = True and acc = "[]" and ts = ts]
      by (simp add: member_tokens_def member_clean_def)
  qed
qed (auto simp: scalar_of_def)

lemma json_parse_print:
  assumes "json_integral v" and "json_depth v \<le> max_nesting_depth"
  shows "json_parse (json_print v) = Some (json_clean v)"
proof -
  have "tokenize [] = Some []" by (simp add: tokenize.simps)
  then have "tokenize (json_print v) = Some (json_tokens v)"
    using tokenize_print [OF assms(1), of "[]"] by (simp add: delimited_def)
  then show ?thesis
    using json_run_tokens [of "[]" v "[]"] assms(2) by (simp add: json_parse_def)
qed

section \<open>Decoding into structs\<close>

text \<open>
  The folding of field names: ASCII letters to upper case, and the two other runes whose case orbit
  contains an ASCII letter (the long s and the Kelvin sign).
\<close>

function runes :: "string \<Rightarrow> nat list" where
  "runes s = (if s = [] then [] else fst (decode_rune s) # runes (drop (snd (decode_rune s)) s))"
  by auto
termination
  by (relation "measure length") (use decode_rune_size in \<open>auto simp: Suc_le_eq\<close>)

declare runes.simps [simp del]

definition fold_rune :: "nat \<Rightarrow> nat" where
  "fold_rune r =
     (if between 97 122 r then r - 32 else if r = 383 then 83 else if r = 8490 then 75 else r)"

definition fold_name :: "string \<Rightarrow> nat list" where
  "fold_name s = map fold_rune (runes s)"

text \<open>A struct type is the list of its field names, each with what storing a value does, if it can.\<close>

type_synonym 'r struct = "(string \<times> (json \<Rightarrow> 'r \<Rightarrow> 'r option)) list"

definition find_field :: "'r struct \<Rightarrow> string \<Rightarrow> (json \<Rightarrow> 'r \<Rightarrow> 'r option) option" where
  "find_field fs k =
     (case map_of fs k of
        Some f \<Rightarrow> Some f
      | None \<Rightarrow> map_of (map (apfst fold_name) fs) (fold_name k))"

fun decode_members :: "bool \<Rightarrow> 'r struct \<Rightarrow> (string \<times> json) list \<Rightarrow> 'r \<Rightarrow> 'r option" where
  "decode_members strict fs [] r = Some r"
| "decode_members strict fs ((k, v) # kvs) r =
     (case find_field fs k of
        None \<Rightarrow> if strict then None else decode_members strict fs kvs r
      | Some store \<Rightarrow>
          (case store v r of None \<Rightarrow> None | Some r' \<Rightarrow> decode_members strict fs kvs r'))"

definition decode_struct :: "bool \<Rightarrow> 'r struct \<Rightarrow> json \<Rightarrow> 'r \<Rightarrow> 'r option" where
  "decode_struct strict fs v r =
     (case v of JObj kvs \<Rightarrow> decode_members strict fs kvs r | JNull \<Rightarrow> Some r | _ \<Rightarrow> None)"

definition store_string :: "(string \<Rightarrow> 'r \<Rightarrow> 'r) \<Rightarrow> json \<Rightarrow> 'r \<Rightarrow> 'r option" where
  "store_string upd v r = (case v of JStr s \<Rightarrow> Some (upd s r) | JNull \<Rightarrow> Some r | _ \<Rightarrow> None)"

definition store_bool :: "(bool \<Rightarrow> 'r \<Rightarrow> 'r) \<Rightarrow> json \<Rightarrow> 'r \<Rightarrow> 'r option" where
  "store_bool upd v r = (case v of JBool b \<Rightarrow> Some (upd b r) | JNull \<Rightarrow> Some r | _ \<Rightarrow> None)"

text \<open>\<open>strconv.ParseInt\<close> and \<open>strconv.ParseUint\<close> on a JSON number, with the range check of the field.\<close>

definition json_int64 :: "string \<Rightarrow> int option" where
  "json_int64 lit =
     (let v = (case lit of
                 [] \<Rightarrow> None
               | c # t \<Rightarrow> if c = CHR ''-'' then map_option (\<lambda>n. - int n) (parse_nat t)
                         else map_option int (parse_nat lit))
      in case v of
           None \<Rightarrow> None
         | Some i \<Rightarrow> if - (2 ^ 63) \<le> i \<and> i < 2 ^ 63 then Some i else None)"

definition json_uint16 :: "string \<Rightarrow> nat option" where
  "json_uint16 lit = (case parse_nat lit of None \<Rightarrow> None | Some n \<Rightarrow> if n < 65536 then Some n else None)"

definition store_int64 :: "(int \<Rightarrow> 'r \<Rightarrow> 'r) \<Rightarrow> json \<Rightarrow> 'r \<Rightarrow> 'r option" where
  "store_int64 upd v r =
     (case v of JNum lit \<Rightarrow> map_option (\<lambda>i. upd i r) (json_int64 lit) | JNull \<Rightarrow> Some r | _ \<Rightarrow> None)"

definition store_uint16 :: "(16 word \<Rightarrow> 'r \<Rightarrow> 'r) \<Rightarrow> json \<Rightarrow> 'r \<Rightarrow> 'r option" where
  "store_uint16 upd v r =
     (case v of JNum lit \<Rightarrow> map_option (\<lambda>n. upd (word_of_nat n) r) (json_uint16 lit)
      | JNull \<Rightarrow> Some r | _ \<Rightarrow> None)"

text \<open>Into a nil slice of strings; \<open>null\<close> elements read as the empty string.\<close>

definition decode_strings :: "json \<Rightarrow> string list option" where
  "decode_strings v =
     (case v of
        JArr vs \<Rightarrow> traverse (\<lambda>e. case e of JStr s \<Rightarrow> Some s | JNull \<Rightarrow> Some [] | _ \<Rightarrow> None) vs
      | JNull \<Rightarrow> Some []
      | _ \<Rightarrow> None)"

lemma json_int64_dec_int:
  assumes "- (2 ^ 63) \<le> i" and "i < 2 ^ 63"
  shows "json_int64 (dec_int i) = Some i"
proof (cases "i < 0")
  case True
  with assms show ?thesis by (simp add: json_int64_def dec_int_def)
next
  case False
  obtain c t where ct: "dec_nat (nat i) = c # t"
    by (meson dec_nat_nonempty neq_Nil_conv)
  then have "is_digit c" by (rule dec_nat_head)
  then have "c \<noteq> CHR ''-''" by (auto simp: is_digit_def)
  with False assms ct parse_nat_dec_nat [of "nat i"] show ?thesis
    by (simp add: json_int64_def dec_int_def)
qed

lemma find_field_exact: "map_of fs k = Some f \<Longrightarrow> find_field fs k = Some f"
  by (simp add: find_field_def)

lemma decode_strings_clean:
  "decode_strings (json_clean (JArr (map JStr ss))) = Some (map utf8_sanitize ss)"
  by (simp add: decode_strings_def comp_def)
    (rule traverse_map [of ss _ "\<lambda>s. JStr (utf8_sanitize s)"], simp)

end
