(* ===== verification/ConnectedSession.thy ===== *)
theory ConnectedSession
  imports KubernetesExec SessionManager Json
begin

text \<open>
  \<open>internal/transport/websocket/connectedsession\<close>: the life of an accepted WebSocket. This theory holds
  the outcomes, the frames, the classification of errors, the final close message, the admission of a
  start, and \<open>Run\<close> with \<open>complete\<close> around the carrying of the streams (\<open>ExecCarry\<close>, \<open>ByteCarry\<close>).

  Frames are JSON text, written and read as \<open>Json\<close> has it.
\<close>

section \<open>Outcomes\<close>

datatype outcome =
    OutcomeNormal | OutcomeClientClosed | OutcomeIdleTimeout | OutcomeMaxDuration
  | OutcomeMessageTooBig | OutcomeInvalidTerminalFrame | OutcomeInvalidVNCFrame | OutcomeBackpressure
  | OutcomeRuntimeUnavailable | OutcomeTargetChanged | OutcomeRuntimeFailed | OutcomeTransportFailed
  | OutcomeShutdown | OutcomeInvalidStart

fun outcome_str :: "outcome \<Rightarrow> string" where
  "outcome_str OutcomeNormal = ''normal''"
| "outcome_str OutcomeClientClosed = ''client_closed''"
| "outcome_str OutcomeIdleTimeout = ''idle_timeout''"
| "outcome_str OutcomeMaxDuration = ''max_duration''"
| "outcome_str OutcomeMessageTooBig = ''message_too_big''"
| "outcome_str OutcomeInvalidTerminalFrame = ''invalid_terminal_frame''"
| "outcome_str OutcomeInvalidVNCFrame = ''invalid_vnc_frame''"
| "outcome_str OutcomeBackpressure = ''backpressure''"
| "outcome_str OutcomeRuntimeUnavailable = ''runtime_unavailable''"
| "outcome_str OutcomeTargetChanged = ''target_changed''"
| "outcome_str OutcomeRuntimeFailed = ''runtime_failed''"
| "outcome_str OutcomeTransportFailed = ''transport_failed''"
| "outcome_str OutcomeShutdown = ''shutdown''"
| "outcome_str OutcomeInvalidStart = ''invalid_start''"

lemma outcome_str_inject [simp]: "outcome_str a = outcome_str b \<longleftrightarrow> a = b"
  by (cases a; cases b) simp_all

section \<open>Policy and facts\<close>

record policy =
  pl_MaxMessageBytes :: int
  pl_IdleTimeout :: duration
  pl_WriteTimeout :: duration
  pl_InboundQueue :: int
  pl_OutboundQueue :: int

definition new_module :: "bool \<Rightarrow> policy \<Rightarrow> policy result" where
  "new_module deps_present p =
     (if \<not> deps_present then Inl (ErrText ''Connected Session dependencies are required'')
      else if pl_MaxMessageBytes p \<le> 0 \<or> pl_IdleTimeout p \<le> 0 \<or> pl_WriteTimeout p \<le> 0 \<or>
              pl_InboundQueue p \<le> 0 \<or> pl_OutboundQueue p \<le> 0
      then Inl (ErrText ''positive Connected Session policy is required'')
      else Inr p)"

record safe_facts =
  sf_SessionID :: string
  sf_TenantID :: string
  sf_SubjectID :: string
  sf_InstanceID :: string
  sf_Mode :: mode

definition safe_facts_of :: "claimed_access \<Rightarrow> safe_facts" where
  "safe_facts_of a =
     \<lparr> sf_SessionID = ca_SessionID a, sf_TenantID = id_TenantID (ca_Identity a),
       sf_SubjectID = id_SubjectID (ca_Identity a), sf_InstanceID = id_InstanceID (ca_Identity a),
       sf_Mode = ca_Mode a \<rparr>"

record finish =
  fi_Outcome :: outcome
  fi_Connected :: bool
  fi_Duration :: duration
  fi_BytesIn :: "64 word"
  fi_BytesOut :: "64 word"

section \<open>Frames\<close>

datatype message_type = MessageText | MessageBinary

record client_frame =
  cf_Type :: string
  cf_Data :: string
  cf_Rows :: u16
  cf_Cols :: u16

datatype server_frame =
    FrameOutput string string
  | FrameExit int
  | FrameError string string

definition client_frame_struct :: "client_frame struct" where
  "client_frame_struct =
     [(''type'', store_string (\<lambda>x. cf_Type_update (\<lambda>_. x))),
      (''data'', store_string (\<lambda>x. cf_Data_update (\<lambda>_. x))),
      (''rows'', store_uint16 (\<lambda>x. cf_Rows_update (\<lambda>_. x))),
      (''cols'', store_uint16 (\<lambda>x. cf_Cols_update (\<lambda>_. x)))]"

definition zero_client_frame :: client_frame where
  "zero_client_frame = \<lparr> cf_Type = [], cf_Data = [], cf_Rows = 0, cf_Cols = 0 \<rparr>"

text \<open>
  One JSON object without unknown fields and nothing but white space after it. The texts of the
  library's own errors are not told apart.
\<close>

definition decode_client_frame :: "bytes \<Rightarrow> int \<Rightarrow> client_frame result" where
  "decode_client_frame raw maxStdin =
     (case tokenize (bytes_str raw) of
        None \<Rightarrow> Inl (ErrText ''invalid JSON'')
      | Some ts \<Rightarrow>
          (case json_run [] WantValue ts of
             None \<Rightarrow> Inl (ErrText ''invalid JSON'')
           | Some (v, rest) \<Rightarrow>
               (case decode_struct True client_frame_struct v zero_client_frame of
                  None \<Rightarrow> Inl (ErrText ''invalid JSON'')
                | Some frame \<Rightarrow>
                    if rest \<noteq> [] then Inl (ErrText ''multiple JSON values'')
                    else if cf_Type frame = ''stdin'' then
                      (if int (length (cf_Data frame)) > maxStdin
                       then Inl (ErrText ''stdin frame exceeds limit'') else Inr frame)
                    else if cf_Type frame = ''resize'' then
                      (if cf_Rows frame = 0 \<or> cf_Cols frame = 0 \<or> cf_Rows frame > 4096 \<or> cf_Cols frame > 4096
                       then Inl (ErrText ''invalid terminal size'') else Inr frame)
                    else Inl (ErrText ''unsupported frame type''))))"

definition decode_byte_payload :: "mode \<Rightarrow> message_type \<Rightarrow> bytes \<Rightarrow> int \<Rightarrow> outcome + bytes" where
  "decode_byte_payload m messageType raw maxBytes =
     (if m = ModeVNC then
        (if messageType \<noteq> MessageBinary then Inl OutcomeInvalidVNCFrame else Inr raw)
      else if messageType \<noteq> MessageText then Inl OutcomeInvalidTerminalFrame
      else
        (case decode_client_frame raw maxBytes of
           Inl _ \<Rightarrow> Inl OutcomeInvalidTerminalFrame
         | Inr frame \<Rightarrow>
             if cf_Type frame \<noteq> ''stdin'' then Inl OutcomeInvalidTerminalFrame
             else Inr (str_bytes (cf_Data frame))))"

text \<open>
  \<open>encodeServerFrame\<close>: the fields in the order of the struct, empty strings and an absent code left out.
  The code is an integer in exit frames and a string in error frames.
\<close>

definition omit_empty :: "string \<Rightarrow> string \<Rightarrow> (string \<times> json) list" where
  "omit_empty name v = (if v = [] then [] else [(name, JStr v)])"

fun server_frame_json :: "server_frame \<Rightarrow> json" where
  "server_frame_json (FrameOutput kind data) = JObj ((''type'', JStr kind) # omit_empty ''data'' data)"
| "server_frame_json (FrameExit code) = JObj [(''type'', JStr ''exit''), (''code'', JNum (dec_int code))]"
| "server_frame_json (FrameError code message) =
     JObj ((''type'', JStr ''error'') # (''code'', JStr code) # omit_empty ''message'' message)"

definition encode_server_frame :: "server_frame \<Rightarrow> bytes" where
  "encode_server_frame f = str_bytes (json_print (server_frame_json f))"

text \<open>What is written for a chunk of runtime output: a raw binary message, or a stdout frame.\<close>

definition encode_byte_payload :: "mode \<Rightarrow> bytes \<Rightarrow> message_type \<times> bytes" where
  "encode_byte_payload m payload =
     (if m = ModeVNC then (MessageBinary, payload)
      else (MessageText, encode_server_frame (FrameOutput ''stdout'' (bytes_str payload))))"

section \<open>Classification\<close>

text \<open>The close status carried by a WebSocket error.\<close>

datatype close_status = StatusNormalClosure | StatusGoingAway | StatusMessageTooBig | StatusOther

definition classify_transport_read :: "bool \<Rightarrow> close_status \<Rightarrow> outcome" where
  "classify_transport_read ctx_done st =
     (if ctx_done then OutcomeShutdown
      else
        (case st of
           StatusNormalClosure \<Rightarrow> OutcomeClientClosed
         | StatusGoingAway \<Rightarrow> OutcomeClientClosed
         | StatusMessageTooBig \<Rightarrow> OutcomeMessageTooBig
         | StatusOther \<Rightarrow> OutcomeTransportFailed))"

definition classify_runtime_error :: "error \<Rightarrow> outcome" where
  "classify_runtime_error e =
     (if errors_is e RtBackpressure then OutcomeBackpressure else OutcomeRuntimeFailed)"

lemma classify_not_normal [simp]:
  "classify_transport_read c st \<noteq> OutcomeNormal" "classify_runtime_error e \<noteq> OutcomeNormal"
  by (simp_all add: classify_transport_read_def classify_runtime_error_def split: close_status.split)

definition terminal_failure :: "outcome \<Rightarrow> string \<times> string" where
  "terminal_failure oc =
     (case oc of
        OutcomeInvalidTerminalFrame \<Rightarrow> (''INVALID_TERMINAL_FRAME'', ''invalid terminal frame'')
      | OutcomeBackpressure \<Rightarrow> (''BACKPRESSURE_LIMIT'', ''terminal stream failed'')
      | OutcomeRuntimeUnavailable \<Rightarrow> (''RUNTIME_UNAVAILABLE'', ''terminal stream failed'')
      | _ \<Rightarrow> (''RUNTIME_STREAM_FAILED'', ''terminal stream failed''))"

datatype close_code = CloseNormal | CloseGoingAway | ClosePolicyViolation | CloseTooBig | CloseInternalError

text \<open>
  \<open>writeFinal\<close>: the error frame, if one is written, and the close code and reason, if the connection
  is closed from this side.
\<close>

definition write_final :: "bool \<Rightarrow> mode \<Rightarrow> outcome \<Rightarrow> server_frame option \<times> (close_code \<times> string) option" where
  "write_final has_socket m oc =
     (if \<not> has_socket \<or> oc = OutcomeClientClosed then (None, None)
      else if oc = OutcomeNormal then (None, Some (CloseNormal, []))
      else if oc = OutcomeIdleTimeout then (None, Some (ClosePolicyViolation, ''idle timeout''))
      else if oc = OutcomeMaxDuration then (None, Some (ClosePolicyViolation, ''session expired''))
      else if oc = OutcomeMessageTooBig then (None, Some (CloseTooBig, ''message too big''))
      else if oc = OutcomeShutdown then (None, Some (CloseGoingAway, ''server shutdown''))
      else if oc = OutcomeTargetChanged then (None, Some (ClosePolicyViolation, ''console target changed''))
      else if m = ModeVNC then (None, Some (CloseInternalError, ''console stream failed''))
      else
        (case terminal_failure oc of
           (code, message) \<Rightarrow> (Some (FrameError code message), Some (CloseInternalError, message))))"

section \<open>Starting and finishing\<close>

text \<open>An accepted connection: the access and the negotiated subprotocol of its socket, if it has one.\<close>

record accepted =
  ac_Access :: claimed_access
  ac_Socket :: "string option"

definition valid_start :: "accepted \<Rightarrow> bool" where
  "valid_start a =
     (case ac_Socket a of
        None \<Rightarrow> False
      | Some subprotocol \<Rightarrow>
          if ca_SessionID (ac_Access a) = [] \<or> ca_LeaseID (ac_Access a) = [] then False
          else
            (case ca_Mode (ac_Access a) of
               ModeExec \<Rightarrow> ca_Exec (ac_Access a) \<noteq> None \<and> subprotocol = ''ani.terminal.v1''
             | ModeSerial \<Rightarrow> subprotocol = ''ani.terminal.v1''
             | ModeVNC \<Rightarrow> subprotocol = ''ani.vnc.v1''
             | ModeOther _ \<Rightarrow> False))"

definition exec_target_of :: "claimed_access \<Rightarrow> exec_options \<Rightarrow> exec_target" where
  "exec_target_of a e =
     \<lparr> et_InstanceID = id_InstanceID (ca_Identity a),
       et_InstanceBinding = tg_InstanceBinding (ca_Target a),
       et_TenantID = id_TenantID (ca_Identity a), et_WorkloadName = tg_WorkloadName (ca_Target a),
       et_WorkloadKind = tg_WorkloadKind (ca_Target a), et_Container = eo_Container e,
       et_Command = eo_Command e, et_TTY = eo_TTY e \<rparr>"

definition vm_target_of :: "claimed_access \<Rightarrow> vm_target" where
  "vm_target_of a =
     \<lparr> vt_TenantID = id_TenantID (ca_Identity a), vt_InstanceID = id_InstanceID (ca_Identity a),
       vt_WorkloadName = tg_WorkloadName (ca_Target a), vt_Binding = tg_VMBinding (ca_Target a) \<rparr>"

text \<open>
  The runtimes and the carrying of an opened stream, with the handles \<open>'x\<close> and \<open>'b\<close> of exec and byte
  streams. A carry yields the outcome and the byte counts; which outcomes it can yield is the subject
  of the carry theories.
\<close>

record ('x, 'b) runtimes =
  rt_OpenExec :: "exec_target \<Rightarrow> terminal_size \<Rightarrow> 'x result"
  rt_OpenSerial :: "vm_target \<Rightarrow> 'b result"
  rt_OpenVNC :: "vm_target \<Rightarrow> 'b result"
  rt_CarryExec :: "accepted \<Rightarrow> 'x \<Rightarrow> outcome \<times> 64 word \<times> 64 word"
  rt_CarryByte :: "accepted \<Rightarrow> 'b \<Rightarrow> outcome \<times> 64 word \<times> 64 word"

definition open_exec_stream :: "('x, 'b) runtimes \<Rightarrow> claimed_access \<Rightarrow> 'x result" where
  "open_exec_stream rt a =
     (case ca_Exec a of
        None \<Rightarrow> Inl (Sentinel RtInvalidTarget)
      | Some e \<Rightarrow> rt_OpenExec rt (exec_target_of a e) (eo_Size e))"

definition open_byte_stream :: "('x, 'b) runtimes \<Rightarrow> claimed_access \<Rightarrow> 'b result" where
  "open_byte_stream rt a =
     (case ca_Mode a of
        ModeSerial \<Rightarrow> rt_OpenSerial rt (vm_target_of a)
      | ModeVNC \<Rightarrow> rt_OpenVNC rt (vm_target_of a)
      | _ \<Rightarrow> Inl (Sentinel RtUnavailable))"

text \<open>What the observation of the session is told.\<close>

datatype observed = ObsOpen safe_facts | ObsConnected time | ObsFinish finish

text \<open>
  \<open>complete\<close>: the lease is released with the outcome as the reason and the observation is finished.
  \<open>connectedAt\<close> is \<open>None\<close> for the zero time. A failing \<open>Close\<close> is logged and changes nothing else.
\<close>

definition complete_run ::
  "'s store_ops \<Rightarrow> accepted \<Rightarrow> time option \<Rightarrow> outcome \<Rightarrow> 64 word \<Rightarrow> 64 word \<Rightarrow> time \<Rightarrow> time \<Rightarrow> 's
     \<Rightarrow> finish \<times> 's" where
  "complete_run ops a connectedAt oc bytesIn bytesOut closeAt finishAt s =
     (let access = ac_Access a;
          s' = snd (close_session ops (ca_SessionID access) (ca_LeaseID access) (outcome_str oc) closeAt s)
      in (\<lparr> fi_Outcome = oc, fi_Connected = (connectedAt \<noteq> None),
            fi_Duration = (case connectedAt of None \<Rightarrow> 0 | Some t \<Rightarrow> finishAt - t),
            fi_BytesIn = bytesIn, fi_BytesOut = bytesOut \<rparr>, s'))"

text \<open>
  \<open>Run\<close>: the outcome, what the observer saw, the final message to the client, and the store. The
  final message is written by \<open>complete\<close> when no stream was opened and by the carry otherwise, in both
  cases from the outcome. The clock is read when connected, for the close and for the duration.
\<close>

definition run_module ::
  "'s store_ops \<Rightarrow> ('x, 'b) runtimes \<Rightarrow> accepted \<Rightarrow> time \<Rightarrow> time \<Rightarrow> time \<Rightarrow> 's
     \<Rightarrow> outcome \<times> observed list \<times> (server_frame option \<times> (close_code \<times> string) option) \<times> 's" where
  "run_module ops rt a connectAt closeAt finishAt s =
     (let access = ac_Access a;
          final = write_final (ac_Socket a \<noteq> None) (ca_Mode access);
          opened = ObsOpen (safe_facts_of access);
          failed = (\<lambda>oc. case complete_run ops a None oc 0 0 closeAt finishAt s of
                      (fin, s') \<Rightarrow> (oc, [opened, ObsFinish fin], final oc, s'));
          carried = (\<lambda>(oc, bytesIn, bytesOut).
                      case complete_run ops a (Some connectAt) oc bytesIn bytesOut closeAt finishAt s of
                        (fin, s') \<Rightarrow> (oc, [opened, ObsConnected connectAt, ObsFinish fin], final oc, s'))
      in
        if \<not> valid_start a then failed OutcomeInvalidStart
        else if ca_Mode access = ModeExec then
          (case open_exec_stream rt access of
             Inl _ \<Rightarrow> failed OutcomeRuntimeUnavailable
           | Inr stream \<Rightarrow> carried (rt_CarryExec rt a stream))
        else
          (case open_byte_stream rt access of
             Inl e \<Rightarrow> failed (if errors_is e RtTargetChanged then OutcomeTargetChanged
                             else OutcomeRuntimeUnavailable)
           | Inr stream \<Rightarrow> carried (rt_CarryByte rt a stream)))"

text \<open>
  Every path of \<open>Run\<close>: one finish with the returned outcome, after at most one connected event, the final
  message of that outcome, and one release of the lease with the outcome as the reason.
\<close>

lemma run_module_shape:
  assumes "run_module ops rt a c k f s = (oc, obs, final, s')"
  shows "(\<exists>fin. fi_Outcome fin = oc \<and>
      (obs = [ObsOpen (safe_facts_of (ac_Access a)), ObsFinish fin] \<or>
       obs = [ObsOpen (safe_facts_of (ac_Access a)), ObsConnected c, ObsFinish fin])) \<and>
    final = write_final (ac_Socket a \<noteq> None) (ca_Mode (ac_Access a)) oc \<and>
    s' = snd (close_session ops (ca_SessionID (ac_Access a)) (ca_LeaseID (ac_Access a)) (outcome_str oc) k s)"
proof (cases "valid_start a")
  case False
  with assms show ?thesis by (auto simp: run_module_def complete_run_def Let_def)
next
  case True
  show ?thesis
  proof (cases "ca_Mode (ac_Access a) = ModeExec")
    case exec: True
    with True assms show ?thesis
      by (cases "open_exec_stream rt (ac_Access a)")
        (auto simp: run_module_def complete_run_def Let_def split: prod.splits)
  next
    case byte: False
    with True assms show ?thesis
      by (cases "open_byte_stream rt (ac_Access a)")
        (auto simp: run_module_def complete_run_def Let_def split: prod.splits)
  qed
qed

end
