(* ===== verification/TerminalFrames.thy ===== *)
theory TerminalFrames
  imports ConnectedSession
begin

text \<open>
  What crosses the wire of a terminal session. The client reads JSON text: what it sees of a chunk of
  output is the chunk with every byte that is not valid UTF-8 replaced. What the client sends is
  accepted only as a stdin frame within the limit or a resize within the terminal dimensions.
\<close>

section \<open>Output frames\<close>

lemma encode_server_frame_parse:
  "json_parse (bytes_str (encode_server_frame f)) = Some (json_clean (server_frame_json f))"
proof -
  have "json_integral (server_frame_json f)" and "json_depth (server_frame_json f) \<le> max_nesting_depth"
    by (cases f; auto simp: omit_empty_def max_nesting_depth_def)+
  then show ?thesis by (simp add: encode_server_frame_def json_parse_print)
qed

lemma names_clean [simp]:
  "utf8_sanitize ''type'' = ''type''" "utf8_sanitize ''data'' = ''data''" "utf8_sanitize ''code'' = ''code''"
  "utf8_sanitize ''message'' = ''message''" "utf8_sanitize ''stdout'' = ''stdout''"
  "utf8_sanitize ''stderr'' = ''stderr''" "utf8_sanitize ''stdin'' = ''stdin''" "utf8_sanitize ''resize'' = ''resize''"
  "utf8_sanitize ''rows'' = ''rows''" "utf8_sanitize ''cols'' = ''cols''"
  by (simp_all add: utf8_sanitize_ascii)

text \<open>The two bytes of U+00E9, read one at a time.\<close>

lemma split_rune_lost:
  "utf8_valid ([CHR 0xC3] @ [CHR 0xA9])"
  "utf8_sanitize [CHR 0xC3] @ utf8_sanitize [CHR 0xA9] \<noteq> [CHR 0xC3] @ [CHR 0xA9]"
proof -
  have "decode_rune [CHR 0xC3, CHR 0xA9] = (233, 2)" by (simp add: decode_rune_def between_def)
  moreover have "encode_rune 233 = [CHR 0xC3, CHR 0xA9]"
    using decode_rune_valid [of "[CHR 0xC3, CHR 0xA9]" 233 2] calculation by (simp add: rune_error_def)
  ultimately show "utf8_valid ([CHR 0xC3] @ [CHR 0xA9])"
    by (simp add: utf8_valid_def utf8_sanitize.simps [of "[CHR 0xC3, CHR 0xA9]"])
  have "decode_rune [CHR 0xC3] = (rune_error, 1)" "decode_rune [CHR 0xA9] = (rune_error, 1)"
    by (simp_all add: decode_rune_def between_def)
  moreover have "length (encode_rune rune_error) = 3"
    by (simp add: encode_rune_def rune_bytes_def rune_error_def)
  ultimately have "length (utf8_sanitize [CHR 0xC3]) = 3"
    by (simp add: utf8_sanitize.simps [of "[CHR 0xC3]"])
  then have "length (utf8_sanitize [CHR 0xC3] @ utf8_sanitize [CHR 0xA9]) \<noteq> length ([CHR 0xC3] @ [CHR 0xA9])"
    by simp
  then show "utf8_sanitize [CHR 0xC3] @ utf8_sanitize [CHR 0xA9] \<noteq> [CHR 0xC3] @ [CHR 0xA9]"
    by metis
qed

section \<open>Client frames\<close>

definition stdin_frame :: "string \<Rightarrow> client_frame" where
  "stdin_frame d = \<lparr> cf_Type = ''stdin'', cf_Data = d, cf_Rows = 0, cf_Cols = 0 \<rparr>"

definition resize_frame :: "nat \<Rightarrow> nat \<Rightarrow> client_frame" where
  "resize_frame r c =
     \<lparr> cf_Type = ''resize'', cf_Data = [], cf_Rows = word_of_nat r, cf_Cols = word_of_nat c \<rparr>"

text \<open>What a client sends for them.\<close>

definition stdin_text :: "string \<Rightarrow> bytes" where
  "stdin_text d = str_bytes (json_print (JObj [(''type'', JStr ''stdin''), (''data'', JStr d)]))"

definition resize_text :: "nat \<Rightarrow> nat \<Rightarrow> bytes" where
  "resize_text r c = str_bytes (json_print (JObj [(''type'', JStr ''resize''),
     (''rows'', JNum (dec_int (int r))), (''cols'', JNum (dec_int (int c)))]))"

lemma decode_client_frame_printed:
  assumes "json_integral v" and "json_depth v \<le> max_nesting_depth"
    and "decode_struct True client_frame_struct (json_clean v) zero_client_frame = Some f"
  shows "decode_client_frame (str_bytes (json_print v)) k =
    (if cf_Type f = ''stdin'' then
       (if int (length (cf_Data f)) > k then Inl (ErrText ''stdin frame exceeds limit'') else Inr f)
     else if cf_Type f = ''resize'' then
       (if cf_Rows f = 0 \<or> cf_Cols f = 0 \<or> cf_Rows f > 4096 \<or> cf_Cols f > 4096
        then Inl (ErrText ''invalid terminal size'') else Inr f)
     else Inl (ErrText ''unsupported frame type''))"
proof -
  have "tokenize [] = Some []" by (simp add: tokenize.simps)
  then have "tokenize (json_print v) = Some (json_tokens v)"
    using tokenize_print [OF assms(1), of "[]"] by (simp add: delimited_def)
  moreover have "json_run [] WantValue (json_tokens v) = Some (json_clean v, [])"
    using json_run_tokens [of "[]" v "[]"] assms(2) by simp
  ultimately show ?thesis by (simp add: decode_client_frame_def assms(3))
qed

lemma decode_stdin_text:
  assumes "int (length (utf8_sanitize d)) \<le> k"
  shows "decode_client_frame (stdin_text d) k = Inr (stdin_frame (utf8_sanitize d))"
proof -
  let ?v = "JObj [(''type'', JStr ''stdin''), (''data'', JStr d)]"
  have "decode_struct True client_frame_struct (json_clean ?v) zero_client_frame =
      Some (stdin_frame (utf8_sanitize d))"
    by (simp add: decode_struct_def client_frame_struct_def find_field_def store_string_def
        zero_client_frame_def stdin_frame_def)
  then show ?thesis
    using decode_client_frame_printed [of ?v] assms
    by (simp add: stdin_text_def max_nesting_depth_def stdin_frame_def)
qed

lemma json_uint16_dec: "n < 65536 \<Longrightarrow> json_uint16 (dec_int (int n)) = Some n"
  by (simp add: json_uint16_def dec_int_def)

lemma decode_resize_text:
  assumes "1 \<le> r" "r \<le> 4096" "1 \<le> c" "c \<le> 4096"
  shows "decode_client_frame (resize_text r c) k = Inr (resize_frame r c)"
proof -
  let ?v = "JObj [(''type'', JStr ''resize''), (''rows'', JNum (dec_int (int r))), (''cols'', JNum (dec_int (int c)))]"
  have "decode_struct True client_frame_struct (json_clean ?v) zero_client_frame = Some (resize_frame r c)"
    using assms by (simp add: decode_struct_def client_frame_struct_def find_field_def store_string_def
        store_uint16_def json_uint16_dec zero_client_frame_def resize_frame_def)
  moreover have "word_of_nat n \<noteq> (0 :: u16) \<and> word_of_nat n \<le> (4096 :: u16)" if "1 \<le> n" "n \<le> 4096" for n
    using that by (simp add: word_of_nat_eq_0_iff word_le_nat_alt unat_of_nat take_bit_eq_mod dvd_def) auto
  ultimately show ?thesis
    using decode_client_frame_printed [of ?v] assms
    by (auto simp: resize_text_def max_nesting_depth_def resize_frame_def not_less)
qed

section \<open>Properties\<close>

text \<open>
  C28: terminal output is text, and a character that straddles two reads is lost. A client parses the
  frame of a chunk of output back to its kind and to the chunk itself exactly when the chunk is a
  sequence of encoded characters. Since chunks are cut wherever a read ends, there is output that is
  valid as a whole and yet arrives changed.
\<close>

theorem terminal_output_is_text:
  "(k \<in> {''stdout'', ''stderr''} \<and> d \<noteq> [] \<longrightarrow>
     (\<exists>shown. json_parse (bytes_str (encode_server_frame (FrameOutput k d))) =
        Some (JObj [(''type'', JStr k), (''data'', JStr shown)]) \<and>
        (shown = d \<longleftrightarrow> (\<exists>rs. list_all valid_rune rs \<and> d = concat (map encode_rune rs))))) \<and>
   (\<exists>a b shown_a shown_b. utf8_valid (a @ b) \<and>
      json_parse (bytes_str (encode_server_frame (FrameOutput ''stdout'' a))) =
        Some (JObj [(''type'', JStr ''stdout''), (''data'', JStr shown_a)]) \<and>
      json_parse (bytes_str (encode_server_frame (FrameOutput ''stdout'' b))) =
        Some (JObj [(''type'', JStr ''stdout''), (''data'', JStr shown_b)]) \<and>
      shown_a @ shown_b \<noteq> a @ b)"
proof -
  have parse: "json_parse (bytes_str (encode_server_frame (FrameOutput k d))) =
      Some (JObj [(''type'', JStr k), (''data'', JStr (utf8_sanitize d))])"
    if "k \<in> {''stdout'', ''stderr''}" and "d \<noteq> []" for k d
    using that by (auto simp: encode_server_frame_parse omit_empty_def)
  then show ?thesis
    using split_rune_lost utf8_valid_iff [of d] unfolding utf8_valid_def by blast
qed

theorem terminal_output_is_text_witness:
  "json_parse (bytes_str (encode_server_frame (FrameOutput ''stdout'' ''ok''))) =
     Some (JObj [(''type'', JStr ''stdout''), (''data'', JStr ''ok'')])"
proof -
  have "utf8_valid ''ok''" by (simp add: utf8_valid_def utf8_sanitize_ascii)
  then show ?thesis
    using terminal_output_is_text [of "''stdout''" "''ok''"] unfolding utf8_valid_iff by auto
qed

text \<open>
  Only well-formed client frames pass. An accepted frame is a stdin frame within the limit or a
  resize with both dimensions from 1 to 4096; and what a client prints for any valid text within the
  limit, and for any such size, is accepted and means what was sent.
\<close>

lemma client_frames_exact:
  "(decode_client_frame raw k = Inr f \<longrightarrow>
      cf_Type f = ''stdin'' \<and> int (length (cf_Data f)) \<le> k \<or>
      cf_Type f = ''resize'' \<and> 1 \<le> unat (cf_Rows f) \<and> unat (cf_Rows f) \<le> 4096 \<and>
        1 \<le> unat (cf_Cols f) \<and> unat (cf_Cols f) \<le> 4096) \<and>
   (utf8_valid d \<and> int (length d) \<le> k \<longrightarrow> decode_client_frame (stdin_text d) k = Inr (stdin_frame d)) \<and>
   (1 \<le> r \<and> r \<le> 4096 \<and> 1 \<le> c \<and> c \<le> 4096 \<longrightarrow>
      decode_client_frame (resize_text r c) k = Inr (resize_frame r c))"
proof (intro conjI impI)
  assume ok: "decode_client_frame raw k = Inr f"
  have nz: "1 \<le> unat w" if "w \<noteq> (0 :: u16)" for w
    using that by (simp add: Suc_le_eq unat_gt_0)
  have le: "unat w \<le> 4096" if "w \<le> (4096 :: u16)" for w
    using that by (simp add: word_le_nat_alt)
  obtain ts where ts: "tokenize (bytes_str raw) = Some ts"
    using ok by (cases "tokenize (bytes_str raw)") (auto simp: decode_client_frame_def)
  obtain v rest where run: "json_run [] WantValue ts = Some (v, rest)"
    using ok ts by (cases "json_run [] WantValue ts") (auto simp: decode_client_frame_def)
  obtain g where g: "decode_struct True client_frame_struct v zero_client_frame = Some g"
    using ok ts run
    by (cases "decode_struct True client_frame_struct v zero_client_frame") (auto simp: decode_client_frame_def)
  show "cf_Type f = ''stdin'' \<and> int (length (cf_Data f)) \<le> k \<or>
      cf_Type f = ''resize'' \<and> 1 \<le> unat (cf_Rows f) \<and> unat (cf_Rows f) \<le> 4096 \<and>
        1 \<le> unat (cf_Cols f) \<and> unat (cf_Cols f) \<le> 4096"
    using ok nz le by (auto simp: decode_client_frame_def ts run g not_less split: if_splits)
next
  assume "utf8_valid d \<and> int (length d) \<le> k"
  then show "decode_client_frame (stdin_text d) k = Inr (stdin_frame d)"
    using decode_stdin_text [of d k] by (simp add: utf8_valid_def)
qed (use decode_resize_text in blast)

end
