(* ===== verification/RedisServer.thy ===== *)
theory RedisServer
  imports SessionModel
begin

text \<open>
  The Redis server as the gateway sees it. The server is not part of the program: its commands are the
  fields of a record \<open>'d redis\<close> that the store's definitions take as an argument, with the server's
  state \<open>'d\<close> left open. The locale \<open>redis_server\<close> states the documented behaviour of those commands that
  the store relies on, in terms of the live entries and the clock of the server: a key whose expiry
  has passed is absent, a command on a key of another type fails and changes nothing, an aggregate
  that becomes empty is removed, and no command changes another key. \<open>table_redis\<close> is a server that
  satisfies the laws.
\<close>

section \<open>The commands\<close>

datatype redis_value = VStr string | VHash "(string, string) gomap" | VZset "(string, int) gomap"

type_synonym ('d, 'a) command = "'d \<Rightarrow> 'a result \<times> 'd"

record 'd redis =
  rd_PING :: "('d, unit) command"
  rd_GET :: "string \<Rightarrow> ('d, string option) command"
  rd_SET_PXAT :: "string \<Rightarrow> string \<Rightarrow> int \<Rightarrow> ('d, unit) command"
  rd_EXISTS :: "string \<Rightarrow> ('d, bool) command"
  rd_PEXPIREAT :: "string \<Rightarrow> int \<Rightarrow> ('d, unit) command"
  rd_HGET :: "string \<Rightarrow> string \<Rightarrow> ('d, string option) command"
  rd_HMGET :: "string \<Rightarrow> string list \<Rightarrow> ('d, string option list) command"
  rd_HSET :: "string \<Rightarrow> (string \<times> string) list \<Rightarrow> ('d, unit) command"
  rd_HGETALL :: "string \<Rightarrow> ('d, (string, string) gomap) command"
  rd_ZREMRANGEBYSCORE :: "string \<Rightarrow> int \<Rightarrow> ('d, unit) command"
  rd_ZCARD :: "string \<Rightarrow> ('d, int) command"
  rd_ZADD :: "string \<Rightarrow> int \<Rightarrow> string \<Rightarrow> ('d, unit) command"
  rd_ZREM :: "string \<Rightarrow> string \<Rightarrow> ('d, unit) command"

text \<open>Sequencing: an error reply ends a script where it stands.\<close>

definition rbind :: "('d, 'a) command \<Rightarrow> ('a \<Rightarrow> ('d, 'b) command) \<Rightarrow> ('d, 'b) command" where
  "rbind m f d = (case m d of (Inl e, d') \<Rightarrow> (Inl e, d') | (Inr a, d') \<Rightarrow> f a d')"

definition rreturn :: "'a \<Rightarrow> ('d, 'a) command" where
  "rreturn a d = (Inr a, d)"

lemma rbind_Inr [simp]: "m d = (Inr a, d') \<Longrightarrow> rbind m f d = f a d'"
  by (simp add: rbind_def)

lemma rbind_Inl [simp]: "m d = (Inl e, d') \<Longrightarrow> rbind m f d = (Inl e, d')"
  by (simp add: rbind_def)

definition hset_all :: "(string \<times> string) list \<Rightarrow> (string, string) gomap \<Rightarrow> (string, string) gomap" where
  "hset_all fvs h = fold (\<lambda>(f, v). mput f v) fvs h"

lemma hset_all_simps [simp]:
  "hset_all [] h = h" "hset_all ((f, v) # fvs) h = hset_all fvs (mput f v h)"
  by (simp_all add: hset_all_def)

lemma mget_hset_all:
  "mget (hset_all fvs h) f = (case map_of (rev fvs) f of Some v \<Rightarrow> Some v | None \<Rightarrow> mget h f)"
proof (induction fvs arbitrary: h)
  case (Cons p fvs)
  then show ?case by (cases p) (auto simp: map_add_def split: option.splits)
qed simp

section \<open>The laws\<close>

type_synonym redis_entry = "(redis_value \<times> int option) option"

fun entry_at :: "int \<Rightarrow> redis_entry \<Rightarrow> redis_entry" where
  "entry_at now None = None"
| "entry_at now (Some (v, None)) = Some (v, None)"
| "entry_at now (Some (v, Some t)) = (if now < t then Some (v, Some t) else None)"

definition zset_entry :: "(string, int) gomap \<Rightarrow> int option \<Rightarrow> redis_entry" where
  "zset_entry z e = (if z = [] then None else Some (VZset z, e))"

text \<open>The values a command of each type works on: nothing when the key holds another type.\<close>

definition as_string :: "redis_entry \<Rightarrow> string option option" where
  "as_string en = (case en of None \<Rightarrow> Some None | Some (VStr s, _) \<Rightarrow> Some (Some s) | _ \<Rightarrow> None)"

definition as_hash :: "redis_entry \<Rightarrow> ((string, string) gomap \<times> int option) option" where
  "as_hash en = (case en of None \<Rightarrow> Some ([], None) | Some (VHash h, e) \<Rightarrow> Some (h, e) | _ \<Rightarrow> None)"

definition as_zset :: "redis_entry \<Rightarrow> ((string, int) gomap \<times> int option) option" where
  "as_zset en = (case en of None \<Rightarrow> Some ([], None) | Some (VZset z, e) \<Rightarrow> Some (z, e) | _ \<Rightarrow> None)"

locale redis_server =
  fixes rd :: "'d redis"
    and entry :: "'d \<Rightarrow> string \<Rightarrow> redis_entry"
    and clock :: "'d \<Rightarrow> int"
  assumes entry_live: "entry_at (clock d) (entry d k) = entry d k"
    and ping_law: "snd (rd_PING rd d) = d"
    and get_law:
      "rd_GET rd k d =
         (case as_string (entry d k) of None \<Rightarrow> (Inl (ErrText ''WRONGTYPE''), d) | Some s \<Rightarrow> (Inr s, d))"
    and set_law:
      "\<exists>d'. rd_SET_PXAT rd k v t d = (Inr (), d') \<and> clock d' = clock d \<and>
         entry d' = (entry d)(k := entry_at (clock d) (Some (VStr v, Some t)))"
    and exists_law: "rd_EXISTS rd k d = (Inr (entry d k \<noteq> None), d)"
    and pexpireat_law:
      "\<exists>d'. rd_PEXPIREAT rd k t d = (Inr (), d') \<and> clock d' = clock d \<and>
         entry d' = (entry d)(k := (case entry d k of None \<Rightarrow> None
                                    | Some (v, _) \<Rightarrow> entry_at (clock d) (Some (v, Some t))))"
    and hget_law:
      "rd_HGET rd k f d =
         (case as_hash (entry d k) of None \<Rightarrow> (Inl (ErrText ''WRONGTYPE''), d) | Some (h, _) \<Rightarrow> (Inr (mget h f), d))"
    and hmget_law:
      "rd_HMGET rd k fs d =
         (case as_hash (entry d k) of
            None \<Rightarrow> (Inl (ErrText ''WRONGTYPE''), d) | Some (h, _) \<Rightarrow> (Inr (map (mget h) fs), d))"
    and hset_law:
      "fvs \<noteq> [] \<Longrightarrow>
         (case as_hash (entry d k) of
            None \<Rightarrow> rd_HSET rd k fvs d = (Inl (ErrText ''WRONGTYPE''), d)
          | Some (h, e) \<Rightarrow> \<exists>d'. rd_HSET rd k fvs d = (Inr (), d') \<and> clock d' = clock d \<and>
              entry d' = (entry d)(k := Some (VHash (hset_all fvs h), e)))"
    and hgetall_law:
      "rd_HGETALL rd k d =
         (case as_hash (entry d k) of None \<Rightarrow> (Inl (ErrText ''WRONGTYPE''), d) | Some (h, _) \<Rightarrow> (Inr h, d))"
    and zremrangebyscore_law:
      "case as_zset (entry d k) of
         None \<Rightarrow> rd_ZREMRANGEBYSCORE rd k mx d = (Inl (ErrText ''WRONGTYPE''), d)
       | Some (z, e) \<Rightarrow> \<exists>d'. rd_ZREMRANGEBYSCORE rd k mx d = (Inr (), d') \<and> clock d' = clock d \<and>
           entry d' = (entry d)(k := zset_entry (filter (\<lambda>(m, sc). mx < sc) z) e)"
    and zcard_law:
      "rd_ZCARD rd k d =
         (case as_zset (entry d k) of
            None \<Rightarrow> (Inl (ErrText ''WRONGTYPE''), d) | Some (z, _) \<Rightarrow> (Inr (int (length z)), d))"
    and zadd_law:
      "case as_zset (entry d k) of
         None \<Rightarrow> rd_ZADD rd k sc m d = (Inl (ErrText ''WRONGTYPE''), d)
       | Some (z, e) \<Rightarrow> \<exists>d'. rd_ZADD rd k sc m d = (Inr (), d') \<and> clock d' = clock d \<and>
           entry d' = (entry d)(k := Some (VZset (mput m sc z), e))"
    and zrem_law:
      "case as_zset (entry d k) of
         None \<Rightarrow> rd_ZREM rd k m d = (Inl (ErrText ''WRONGTYPE''), d)
       | Some (z, e) \<Rightarrow> \<exists>d'. rd_ZREM rd k m d = (Inr (), d') \<and> clock d' = clock d \<and>
           entry d' = (entry d)(k := zset_entry (mdel m z) e)"

section \<open>A server\<close>

record table =
  tb_Clock :: int
  tb_Entries :: "(string, redis_value \<times> int option) gomap"

definition table_entry :: "table \<Rightarrow> string \<Rightarrow> redis_entry" where
  "table_entry d k = entry_at (tb_Clock d) (mget (tb_Entries d) k)"

definition table_write :: "string \<Rightarrow> redis_entry \<Rightarrow> table \<Rightarrow> table" where
  "table_write k en d =
     d\<lparr> tb_Entries := (case en of None \<Rightarrow> mdel k (tb_Entries d) | Some p \<Rightarrow> mput k p (tb_Entries d)) \<rparr>"

definition wrong_type :: "('d, 'a) command" where
  "wrong_type d = (Inl (ErrText ''WRONGTYPE''), d)"

definition table_redis :: "table redis" where
  "table_redis =
     \<lparr> rd_PING = (\<lambda>d. (Inr (), d)),
       rd_GET = (\<lambda>k d. case as_string (table_entry d k) of None \<Rightarrow> wrong_type d | Some s \<Rightarrow> (Inr s, d)),
       rd_SET_PXAT = (\<lambda>k v t d. (Inr (), table_write k (Some (VStr v, Some t)) d)),
       rd_EXISTS = (\<lambda>k d. (Inr (table_entry d k \<noteq> None), d)),
       rd_PEXPIREAT = (\<lambda>k t d. (Inr (), table_write k (map_option (\<lambda>(v, _). (v, Some t)) (table_entry d k)) d)),
       rd_HGET = (\<lambda>k f d. case as_hash (table_entry d k) of None \<Rightarrow> wrong_type d | Some (h, _) \<Rightarrow> (Inr (mget h f), d)),
       rd_HMGET = (\<lambda>k fs d. case as_hash (table_entry d k) of None \<Rightarrow> wrong_type d
                    | Some (h, _) \<Rightarrow> (Inr (map (mget h) fs), d)),
       rd_HSET = (\<lambda>k fvs d. case as_hash (table_entry d k) of None \<Rightarrow> wrong_type d
                    | Some (h, e) \<Rightarrow> (Inr (), table_write k (Some (VHash (hset_all fvs h), e)) d)),
       rd_HGETALL = (\<lambda>k d. case as_hash (table_entry d k) of None \<Rightarrow> wrong_type d | Some (h, _) \<Rightarrow> (Inr h, d)),
       rd_ZREMRANGEBYSCORE = (\<lambda>k mx d. case as_zset (table_entry d k) of None \<Rightarrow> wrong_type d
                    | Some (z, e) \<Rightarrow> (Inr (), table_write k (zset_entry (filter (\<lambda>(m, sc). mx < sc) z) e) d)),
       rd_ZCARD = (\<lambda>k d. case as_zset (table_entry d k) of None \<Rightarrow> wrong_type d
                    | Some (z, _) \<Rightarrow> (Inr (int (length z)), d)),
       rd_ZADD = (\<lambda>k sc m d. case as_zset (table_entry d k) of None \<Rightarrow> wrong_type d
                    | Some (z, e) \<Rightarrow> (Inr (), table_write k (Some (VZset (mput m sc z), e)) d)),
       rd_ZREM = (\<lambda>k m d. case as_zset (table_entry d k) of None \<Rightarrow> wrong_type d
                    | Some (z, e) \<Rightarrow> (Inr (), table_write k (zset_entry (mdel m z) e) d)) \<rparr>"

lemma table_write_clock [simp]: "tb_Clock (table_write k en d) = tb_Clock d"
  by (simp add: table_write_def)

lemma entry_at_idem [simp]: "entry_at now (entry_at now en) = entry_at now en"
  by (cases "(now, en)" rule: entry_at.cases) auto

lemma table_entry_write:
  "table_entry (table_write k en d) = (table_entry d)(k := entry_at (tb_Clock d) en)"
  by (auto simp: table_entry_def table_write_def split: option.split)

text \<open>Rewriting the value of a live entry keeps its expiry, so the entry stays live.\<close>

lemma entry_at_kept: "entry_at now en = Some (v, e) \<Longrightarrow> entry_at now (Some (w, e)) = Some (w, e)"
  by (cases "(now, en)" rule: entry_at.cases) (auto split: if_splits)

lemma hash_kept:
  assumes "as_hash (table_entry d k) = Some (h, e)"
  shows "entry_at (tb_Clock d) (Some (VHash h', e)) = Some (VHash h', e)"
proof (cases "table_entry d k")
  case (Some p)
  with assms show ?thesis
    using entry_at_kept [of "tb_Clock d" "mget (tb_Entries d) k" "fst p" "snd p"]
    by (auto simp: as_hash_def table_entry_def split: redis_value.splits prod.splits)
qed (use assms in \<open>simp add: as_hash_def\<close>)

lemma zset_kept:
  assumes "as_zset (table_entry d k) = Some (z, e)"
  shows "entry_at (tb_Clock d) (Some (VZset z', e)) = Some (VZset z', e)"
    and "entry_at (tb_Clock d) (zset_entry z' e) = zset_entry z' e"
proof -
  show *: "entry_at (tb_Clock d) (Some (VZset z', e)) = Some (VZset z', e)" for z'
  proof (cases "table_entry d k")
    case (Some p)
    with assms show ?thesis
      using entry_at_kept [of "tb_Clock d" "mget (tb_Entries d) k" "fst p" "snd p"]
      by (auto simp: as_zset_def table_entry_def split: redis_value.splits prod.splits)
  qed (use assms in \<open>simp add: as_zset_def\<close>)
  then show "entry_at (tb_Clock d) (zset_entry z' e) = zset_entry z' e"
    by (simp add: zset_entry_def)
qed

interpretation table: redis_server table_redis table_entry tb_Clock
proof unfold_locales
  show "entry_at (tb_Clock d) (table_entry d k) = table_entry d k" for d k
    by (simp add: table_entry_def)
  show "\<exists>d'. rd_SET_PXAT table_redis k v t d = (Inr (), d') \<and> tb_Clock d' = tb_Clock d \<and>
      table_entry d' = (table_entry d)(k := entry_at (tb_Clock d) (Some (VStr v, Some t)))" for k v t d
    by (simp add: table_redis_def table_entry_write)
  show "\<exists>d'. rd_PEXPIREAT table_redis k t d = (Inr (), d') \<and> tb_Clock d' = tb_Clock d \<and>
      table_entry d' = (table_entry d)(k := (case table_entry d k of None \<Rightarrow> None
        | Some (v, _) \<Rightarrow> entry_at (tb_Clock d) (Some (v, Some t))))" for k t d
    by (cases "table_entry d k") (auto simp: table_redis_def table_entry_write)
  show "case as_hash (table_entry d k) of
        None \<Rightarrow> rd_HSET table_redis k fvs d = (Inl (ErrText ''WRONGTYPE''), d)
      | Some (h, e) \<Rightarrow> \<exists>d'. rd_HSET table_redis k fvs d = (Inr (), d') \<and> tb_Clock d' = tb_Clock d \<and>
          table_entry d' = (table_entry d)(k := Some (VHash (hset_all fvs h), e))" for fvs d k
    using hash_kept [of d k]
    by (auto simp: table_redis_def table_entry_write wrong_type_def split: option.split)
  show "case as_zset (table_entry d k) of
        None \<Rightarrow> rd_ZREMRANGEBYSCORE table_redis k mx d = (Inl (ErrText ''WRONGTYPE''), d)
      | Some (z, e) \<Rightarrow> \<exists>d'. rd_ZREMRANGEBYSCORE table_redis k mx d = (Inr (), d') \<and> tb_Clock d' = tb_Clock d \<and>
          table_entry d' = (table_entry d)(k := zset_entry (filter (\<lambda>(m, sc). mx < sc) z) e)" for d k mx
    using zset_kept [of d k]
    by (auto simp: table_redis_def table_entry_write wrong_type_def split: option.split)
  show "case as_zset (table_entry d k) of
        None \<Rightarrow> rd_ZADD table_redis k sc m d = (Inl (ErrText ''WRONGTYPE''), d)
      | Some (z, e) \<Rightarrow> \<exists>d'. rd_ZADD table_redis k sc m d = (Inr (), d') \<and> tb_Clock d' = tb_Clock d \<and>
          table_entry d' = (table_entry d)(k := Some (VZset (mput m sc z), e))" for d k sc m
    using zset_kept [of d k]
    by (auto simp: table_redis_def table_entry_write wrong_type_def split: option.split)
  show "case as_zset (table_entry d k) of
        None \<Rightarrow> rd_ZREM table_redis k m d = (Inl (ErrText ''WRONGTYPE''), d)
      | Some (z, e) \<Rightarrow> \<exists>d'. rd_ZREM table_redis k m d = (Inr (), d') \<and> tb_Clock d' = tb_Clock d \<and>
          table_entry d' = (table_entry d)(k := zset_entry (mdel m z) e)" for d k m
    using zset_kept [of d k]
    by (auto simp: table_redis_def table_entry_write wrong_type_def split: option.split)
qed (auto simp: table_redis_def wrong_type_def split: option.split)

end
