(* ===== verification/RedisStore.thy ===== *)
theory RedisStore
  imports RedisServer Json
begin

text \<open>
  \<open>internal/store/redis/store.go\<close>: the shared store. The three Lua scripts are sequences of server
  commands that run as one atomic step; a method makes one to three requests. How a request fares is
  the argument \<open>link\<close>: what the server did meanwhile (\<open>lk_Before\<close>), and whether the request and its reply
  arrive (\<open>lk_Fate\<close>); both may depend on everything that happened so far. SHA-256 is a parameter.

  Lua's numbers are doubles and Redis scores too; all numbers here are Unix milliseconds, limits and
  cardinalities, which are exact up to \<open>2 ^ 53\<close>, and are integers of the model.
\<close>

section \<open>Requests\<close>

datatype fate = Delivered | RequestLost error | ReplyLost error

record 'd link =
  lk_Before :: "nat \<Rightarrow> 'd \<Rightarrow> 'd"
  lk_Fate :: "nat \<Rightarrow> 'd \<Rightarrow> fate"

definition trip :: "'d link \<Rightarrow> nat \<Rightarrow> ('d, 'a) command \<Rightarrow> ('d, 'a) command" where
  "trip lk n f d0 =
     (let d = lk_Before lk n d0 in
      case lk_Fate lk n d of
        Delivered \<Rightarrow> f d
      | RequestLost e \<Rightarrow> (Inl e, d)
      | ReplyLost e \<Rightarrow> (Inl e, snd (f d)))"

text \<open>What \<open>%v\<close> prints of an error of the client; such an error has a text and wraps no sentinel.\<close>

fun error_text :: "error \<Rightarrow> string" where
  "error_text (ErrText msg) = msg"
| "error_text (Wrap e msg) = error_text e @ '': '' @ msg"
| "error_text (Sentinel _) = []"

definition unavailable :: "error \<Rightarrow> error" where
  "unavailable e = Wrap (Sentinel ErrUnavailable) (error_text e)"

section \<open>Keys\<close>

definition default_prefix :: string where
  "default_prefix = ''{ani-session-gateway}:''"

definition session_prefix :: string where
  "session_prefix = default_prefix @ ''session:''"

definition session_key :: "string \<Rightarrow> string" where
  "session_key sid = session_prefix @ sid"

definition idem_key :: "(bytes \<Rightarrow> bytes) \<Rightarrow> string \<Rightarrow> string" where
  "idem_key sha256 key = default_prefix @ ''idem:'' @ hex_encode (sha256 (str_bytes key))"

definition global_leases_key :: string where
  "global_leases_key = default_prefix @ ''leases''"

definition subject_leases_key :: "(bytes \<Rightarrow> bytes) \<Rightarrow> string \<Rightarrow> string" where
  "subject_leases_key sha256 subject =
     default_prefix @ ''subject:'' @ hex_encode (sha256 (str_bytes subject)) @ '':leases''"

section \<open>Values\<close>

definition unix_milli :: "time \<Rightarrow> int" where
  "unix_milli t = t div 1000000"

definition millis :: "time \<Rightarrow> string" where
  "millis t = (if t = zero_time then ''0'' else dec_int (unix_milli t))"

definition parse_millis :: "string \<Rightarrow> time" where
  "parse_millis raw = (let v = parse_int64 raw in if v = 0 then zero_time else v * 1000000)"

definition parse_bool :: "string \<Rightarrow> bool" where
  "parse_bool s \<longleftrightarrow> s \<in> {''1'', ''t'', ''T'', ''TRUE'', ''true'', ''True''}"

definition command_json :: "string list \<Rightarrow> json" where
  "command_json ss = (if ss = [] then JNull else JArr (map JStr ss))"

definition instance_binding_json :: "instance_binding \<Rightarrow> json" where
  "instance_binding_json b = JObj
     [(''Enabled'', JBool (ib_Enabled b)), (''Version'', JNum (dec_int (ib_Version b))),
      (''ClusterID'', JStr (ib_ClusterID b)), (''Namespace'', JStr (ib_Namespace b)),
      (''NotebookName'', JStr (ib_NotebookName b)), (''NotebookUID'', JStr (ib_NotebookUID b)),
      (''PodName'', JStr (ib_PodName b)), (''PodUID'', JStr (ib_PodUID b)),
      (''ContainerName'', JStr (ib_ContainerName b)), (''Shell'', JStr (ib_Shell b))]"

definition instance_binding_struct :: "instance_binding struct" where
  "instance_binding_struct =
     [(''Enabled'', store_bool (\<lambda>x. ib_Enabled_update (\<lambda>_. x))),
      (''Version'', store_int64 (\<lambda>x. ib_Version_update (\<lambda>_. x))),
      (''ClusterID'', store_string (\<lambda>x. ib_ClusterID_update (\<lambda>_. x))),
      (''Namespace'', store_string (\<lambda>x. ib_Namespace_update (\<lambda>_. x))),
      (''NotebookName'', store_string (\<lambda>x. ib_NotebookName_update (\<lambda>_. x))),
      (''NotebookUID'', store_string (\<lambda>x. ib_NotebookUID_update (\<lambda>_. x))),
      (''PodName'', store_string (\<lambda>x. ib_PodName_update (\<lambda>_. x))),
      (''PodUID'', store_string (\<lambda>x. ib_PodUID_update (\<lambda>_. x))),
      (''ContainerName'', store_string (\<lambda>x. ib_ContainerName_update (\<lambda>_. x))),
      (''Shell'', store_string (\<lambda>x. ib_Shell_update (\<lambda>_. x)))]"

definition vm_binding_json :: "vm_binding \<Rightarrow> json" where
  "vm_binding_json b = JObj
     [(''Enabled'', JBool (vb_Enabled b)), (''TenantID'', JStr (vb_TenantID b)),
      (''VMID'', JStr (vb_VMID b)), (''Version'', JNum (dec_int (vb_Version b))),
      (''ClusterID'', JStr (vb_ClusterID b)), (''Namespace'', JStr (vb_Namespace b)),
      (''VMName'', JStr (vb_VMName b)), (''VMUID'', JStr (vb_VMUID b)),
      (''VMIName'', JStr (vb_VMIName b)), (''VMIUID'', JStr (vb_VMIUID b)),
      (''NamespaceUID'', JStr (vb_NamespaceUID b))]"

definition vm_binding_struct :: "vm_binding struct" where
  "vm_binding_struct =
     [(''Enabled'', store_bool (\<lambda>x. vb_Enabled_update (\<lambda>_. x))),
      (''TenantID'', store_string (\<lambda>x. vb_TenantID_update (\<lambda>_. x))),
      (''VMID'', store_string (\<lambda>x. vb_VMID_update (\<lambda>_. x))),
      (''Version'', store_int64 (\<lambda>x. vb_Version_update (\<lambda>_. x))),
      (''ClusterID'', store_string (\<lambda>x. vb_ClusterID_update (\<lambda>_. x))),
      (''Namespace'', store_string (\<lambda>x. vb_Namespace_update (\<lambda>_. x))),
      (''VMName'', store_string (\<lambda>x. vb_VMName_update (\<lambda>_. x))),
      (''VMUID'', store_string (\<lambda>x. vb_VMUID_update (\<lambda>_. x))),
      (''VMIName'', store_string (\<lambda>x. vb_VMIName_update (\<lambda>_. x))),
      (''VMIUID'', store_string (\<lambda>x. vb_VMIUID_update (\<lambda>_. x))),
      (''NamespaceUID'', store_string (\<lambda>x. vb_NamespaceUID_update (\<lambda>_. x)))]"

text \<open>\<open>encode\<close>, with the fields in the order of \<open>fieldOrder\<close>; marshalling these values does not fail.\<close>

definition encode :: "session \<Rightarrow> (string \<times> string) list" where
  "encode v =
     [(''id'', s_ID v), (''idempotency_key'', s_IdempotencyKey v),
      (''fingerprint'', hex_encode (s_RequestFingerprint v)),
      (''ticket_digest'', hex_encode (s_TicketDigest v)),
      (''ticket_ciphertext'', b64_encode b64_std (s_TicketCiphertext v)),
      (''tenant_id'', s_TenantID v), (''subject_id'', s_SubjectID v), (''instance_id'', s_InstanceID v),
      (''workload_name'', s_WorkloadName v), (''workload_kind'', kind_str (s_WorkloadKind v)),
      (''mode'', mode_str (s_Mode v)), (''container'', s_Container v),
      (''command'', json_print (command_json (s_Command v))),
      (''tty'', if s_TTY v then ''true'' else ''false''),
      (''rows'', dec_nat (unat (s_Rows v))), (''cols'', dec_nat (unat (s_Cols v))),
      (''requested_protocol'', s_RequestedProtocol v), (''state'', state_str (s_State v)),
      (''created_at'', millis (s_CreatedAt v)), (''ticket_expires_at'', millis (s_TicketExpiresAt v)),
      (''expires_at'', millis (s_ExpiresAt v)), (''tombstone_expires_at'', millis (s_TombstoneExpiresAt v)),
      (''claimed_at'', millis (s_ClaimedAt v)), (''closed_at'', millis (s_ClosedAt v)),
      (''close_reason'', s_CloseReason v), (''lease_id'', s_LeaseID v),
      (''instance_binding'', json_print (instance_binding_json (s_InstanceBinding v))),
      (''vm_binding'', json_print (vm_binding_json (s_VMBinding v)))]"

text \<open>A missing field of the map reads as the empty string.\<close>

definition field :: "(string, string) gomap \<Rightarrow> string \<Rightarrow> string" where
  "field h f = (case mget h f of None \<Rightarrow> [] | Some v \<Rightarrow> v)"

definition decode32 :: "string \<Rightarrow> bytes result" where
  "decode32 raw =
     (case hex_decode raw of
        Some b \<Rightarrow> if length b = 32 then Inr b else Inl (ErrText ''invalid stored digest'')
      | None \<Rightarrow> Inl (ErrText ''invalid stored digest''))"

definition unmarshal_struct :: "'r struct \<Rightarrow> string \<Rightarrow> 'r \<Rightarrow> 'r result" where
  "unmarshal_struct fs raw zero =
     (if raw = [] then Inr zero
      else case json_parse raw of
        None \<Rightarrow> Inl (ErrText ''json'')
      | Some v \<Rightarrow> (case decode_struct False fs v zero of None \<Rightarrow> Inl (ErrText ''json'') | Some r \<Rightarrow> Inr r))"

definition unmarshal_strings :: "string \<Rightarrow> string list result" where
  "unmarshal_strings raw =
     (case json_parse raw of
        None \<Rightarrow> Inl (ErrText ''json'')
      | Some v \<Rightarrow> (case decode_strings v of None \<Rightarrow> Inl (ErrText ''json'') | Some ss \<Rightarrow> Inr ss))"

definition decode_ciphertext :: "string \<Rightarrow> bytes result" where
  "decode_ciphertext raw =
     (if raw = [] then Inr []
      else case b64_decode b64_std raw of None \<Rightarrow> Inl (ErrText ''illegal base64 data'') | Some b \<Rightarrow> Inr b)"

definition decode :: "(string, string) gomap \<Rightarrow> session result" where
  "decode h =
     result_bind (unmarshal_struct vm_binding_struct (field h ''vm_binding'') zero_vm_binding) (\<lambda>vb.
     result_bind (unmarshal_struct instance_binding_struct (field h ''instance_binding'') zero_instance_binding) (\<lambda>ib.
     result_bind (decode32 (field h ''fingerprint'')) (\<lambda>fp.
     result_bind (decode32 (field h ''ticket_digest'')) (\<lambda>dg.
     result_bind (decode_ciphertext (field h ''ticket_ciphertext'')) (\<lambda>ct.
     result_bind (unmarshal_strings (field h ''command'')) (\<lambda>cmd.
       Inr \<lparr> s_InstanceBinding = ib, s_VMBinding = vb, s_ID = field h ''id'',
             s_IdempotencyKey = field h ''idempotency_key'', s_RequestFingerprint = fp,
             s_TicketDigest = dg, s_TicketCiphertext = ct, s_TenantID = field h ''tenant_id'',
             s_SubjectID = field h ''subject_id'', s_InstanceID = field h ''instance_id'',
             s_WorkloadName = field h ''workload_name'',
             s_WorkloadKind = kind_of_str (field h ''workload_kind''),
             s_Mode = mode_of_str (field h ''mode''), s_Container = field h ''container'',
             s_Command = cmd, s_TTY = parse_bool (field h ''tty''),
             s_Rows = word_of_nat (parse_uint16 (field h ''rows'')),
             s_Cols = word_of_nat (parse_uint16 (field h ''cols'')),
             s_RequestedProtocol = field h ''requested_protocol'',
             s_State = state_of_str (field h ''state''),
             s_CreatedAt = parse_millis (field h ''created_at''),
             s_TicketExpiresAt = parse_millis (field h ''ticket_expires_at''),
             s_ExpiresAt = parse_millis (field h ''expires_at''),
             s_TombstoneExpiresAt = parse_millis (field h ''tombstone_expires_at''),
             s_ClaimedAt = parse_millis (field h ''claimed_at''),
             s_ClosedAt = parse_millis (field h ''closed_at''),
             s_CloseReason = field h ''close_reason'', s_LeaseID = field h ''lease_id'' \<rparr>))))))"

section \<open>Scripts\<close>

datatype resp = RespInt int | RespBulk string

text \<open>\<open>tonumber\<close> of a decimal integer; comparing with anything else is a script error.\<close>

definition lua_tonumber :: "string \<Rightarrow> int option" where
  "lua_tonumber s =
     (case s of
        [] \<Rightarrow> None
      | c # t \<Rightarrow> if c = CHR ''-'' then map_option (\<lambda>n. - int n) (parse_nat t)
                else map_option int (parse_nat s))"

definition lua_ge :: "int option \<Rightarrow> int option \<Rightarrow> ('d, bool) command" where
  "lua_ge a b d =
     (case (a, b) of
        (Some x, Some y) \<Rightarrow> (Inr (x \<ge> y), d)
      | _ \<Rightarrow> (Inl (ErrText ''attempt to compare nil with number''), d))"

definition or_default :: "string \<Rightarrow> string option \<Rightarrow> string" where
  "or_default dflt v = (case v of None \<Rightarrow> dflt | Some s \<Rightarrow> s)"

text \<open>\<open>state ~= 'issued' or now >= ticket_exp\<close>, which compares only when the state is issued.\<close>

definition lua_unclaimable :: "string option \<Rightarrow> int option \<Rightarrow> string option \<Rightarrow> ('d, bool) command" where
  "lua_unclaimable state now te =
     (if state \<noteq> Some ''issued'' then rreturn True else lua_ge now (lua_tonumber (or_default ''0'' te)))"

definition expired_fields :: "string \<Rightarrow> (string \<times> string) list" where
  "expired_fields now =
     [(''state'', ''closed''), (''closed_at'', now), (''close_reason'', ''ticket_expired''), (''ticket_ciphertext'', [])]"

fun hset_each :: "'d redis \<Rightarrow> string \<Rightarrow> (string \<times> string) list \<Rightarrow> ('d, unit) command" where
  "hset_each rd k [] = rreturn ()"
| "hset_each rd k (fv # fvs) = rbind (rd_HSET rd k [fv]) (\<lambda>_. hset_each rd k fvs)"

text \<open>The two halves of \<open>createScript\<close>: the key is known, or the candidate is stored under it.\<close>

definition create_existing ::
  "'d redis \<Rightarrow> string \<Rightarrow> string \<Rightarrow> string \<Rightarrow> string \<Rightarrow> ('d, resp list) command" where
  "create_existing rd existing now fingerprint sid =
     rbind (rd_HGET rd existing ''fingerprint'') (\<lambda>fp. case fp of
       None \<Rightarrow> rreturn [RespInt 3, RespBulk sid]
     | Some f \<Rightarrow>
         if f \<noteq> fingerprint then rreturn [RespInt 2, RespBulk sid]
         else
           rbind (rd_HGET rd existing ''state'') (\<lambda>state.
           rbind (rd_HGET rd existing ''ticket_expires_at'') (\<lambda>te.
           rbind (lua_unclaimable state (lua_tonumber now) te) (\<lambda>dead.
             if dead then
               rbind (if state = Some ''issued'' then rd_HSET rd existing (expired_fields now) else rreturn ())
                 (\<lambda>_. rreturn [RespInt 3, RespBulk sid])
             else rreturn [RespInt 1, RespBulk sid]))))"

definition create_new ::
  "'d redis \<Rightarrow> string \<Rightarrow> string \<Rightarrow> string \<Rightarrow> (string \<times> string) list \<Rightarrow> int \<Rightarrow> ('d, resp list) command" where
  "create_new rd idemKey sessionKey cid fvs tombstone =
     rbind (hset_each rd sessionKey fvs) (\<lambda>_.
     rbind (rd_PEXPIREAT rd sessionKey tombstone) (\<lambda>_.
     rbind (rd_SET_PXAT rd idemKey cid tombstone) (\<lambda>_.
       rreturn [RespInt 0, RespBulk cid])))"

definition create_script ::
  "'d redis \<Rightarrow> string \<Rightarrow> string \<Rightarrow> string \<Rightarrow> string \<Rightarrow> string \<Rightarrow> string \<Rightarrow> (string \<times> string) list \<Rightarrow> int
     \<Rightarrow> ('d, resp list) command" where
  "create_script rd idemKey sessionKey prefix now fingerprint cid fvs tombstone =
     rbind (rd_GET rd idemKey) (\<lambda>found. case found of
       Some sid \<Rightarrow> create_existing rd (prefix @ sid) now fingerprint sid
     | None \<Rightarrow> create_new rd idemKey sessionKey cid fvs tombstone)"

definition claimed_fields :: "string \<Rightarrow> string \<Rightarrow> string \<Rightarrow> string \<Rightarrow> (string \<times> string) list" where
  "claimed_fields now expires lease_id tombstone =
     [(''state'', ''claimed''), (''claimed_at'', now), (''expires_at'', expires), (''lease_id'', lease_id),
      (''ticket_ciphertext'', []), (''tombstone_expires_at'', tombstone)]"

text \<open>The comparison of the digests looks at every byte and remembers a difference.\<close>

definition lua_different :: "string \<Rightarrow> string \<Rightarrow> bool" where
  "lua_different stored supplied =
     (if length stored \<noteq> length supplied then True
      else fold (\<lambda>(a, b) different. if a \<noteq> b then True else different) (zip stored supplied) False)"

text \<open>The end of \<open>claimScript\<close>, its decision, and the script.\<close>

definition claim_take ::
  "'d redis \<Rightarrow> string \<Rightarrow> string \<Rightarrow> string \<Rightarrow> string \<Rightarrow> int \<Rightarrow> int \<Rightarrow> string \<Rightarrow> string \<Rightarrow> int
     \<Rightarrow> ('d, resp list) command" where
  "claim_take rd sessionKey globalKey subjectKey idemKey now expires leaseID sid tombstone =
     rbind (rd_HSET rd sessionKey (claimed_fields (dec_int now) (dec_int expires) leaseID (dec_int tombstone))) (\<lambda>_.
     rbind (rd_PEXPIREAT rd sessionKey tombstone) (\<lambda>_.
     rbind (rd_PEXPIREAT rd idemKey tombstone) (\<lambda>_.
     rbind (rd_ZADD rd globalKey expires sid) (\<lambda>_.
     rbind (rd_ZADD rd subjectKey expires sid) (\<lambda>_.
       rreturn [RespInt 0])))))"

definition claim_full :: "'d redis \<Rightarrow> string \<Rightarrow> string \<Rightarrow> int \<Rightarrow> int \<Rightarrow> ('d, bool) command" where
  "claim_full rd globalKey subjectKey maxActive maxPerSubject =
     rbind (rd_ZCARD rd globalKey) (\<lambda>n.
       if n \<ge> maxActive then rreturn True
       else rbind (rd_ZCARD rd subjectKey) (\<lambda>m. rreturn (m \<ge> maxPerSubject)))"

definition claim_check ::
  "'d redis \<Rightarrow> string \<Rightarrow> string \<Rightarrow> string \<Rightarrow> int \<Rightarrow> string \<Rightarrow> int \<Rightarrow> int
     \<Rightarrow> ('d, resp list) command \<Rightarrow> ('d, resp list) command" where
  "claim_check rd sessionKey globalKey subjectKey now digest maxActive maxPerSubject win =
     rbind (rd_HGET rd sessionKey ''state'') (\<lambda>state.
     rbind (rd_HGET rd sessionKey ''ticket_expires_at'') (\<lambda>te.
     rbind (lua_unclaimable state (Some now) te) (\<lambda>dead.
       if dead then
         rbind (if state = Some ''issued'' then rd_HSET rd sessionKey (expired_fields (dec_int now))
                else rreturn ())
           (\<lambda>_. rreturn [RespInt 3])
       else
         rbind (rd_HGET rd sessionKey ''ticket_digest'') (\<lambda>stored.
           if lua_different (or_default [] stored) digest then rreturn [RespInt 2]
           else
             rbind (claim_full rd globalKey subjectKey maxActive maxPerSubject) (\<lambda>full.
               if full then rreturn [RespInt 4] else win)))))"

definition claim_script ::
  "'d redis \<Rightarrow> string \<Rightarrow> string \<Rightarrow> string \<Rightarrow> string \<Rightarrow> int \<Rightarrow> string \<Rightarrow> int \<Rightarrow> int \<Rightarrow> int \<Rightarrow> string \<Rightarrow> string \<Rightarrow> int
     \<Rightarrow> ('d, resp list) command" where
  "claim_script rd sessionKey globalKey subjectKey idemKey now digest maxActive maxPerSubject expires leaseID sid
       tombstone =
     rbind (rd_EXISTS rd sessionKey) (\<lambda>there.
       if \<not> there then rreturn [RespInt 1]
       else
         rbind (rd_ZREMRANGEBYSCORE rd globalKey now) (\<lambda>_.
         rbind (rd_ZREMRANGEBYSCORE rd subjectKey now) (\<lambda>_.
           claim_check rd sessionKey globalKey subjectKey now digest maxActive maxPerSubject
             (claim_take rd sessionKey globalKey subjectKey idemKey now expires leaseID sid tombstone))))"

definition closed_fields :: "string \<Rightarrow> string \<Rightarrow> (string \<times> string) list" where
  "closed_fields now reason =
     [(''state'', ''closed''), (''closed_at'', now), (''close_reason'', reason), (''ticket_ciphertext'', [])]"

definition close_script ::
  "'d redis \<Rightarrow> string \<Rightarrow> string \<Rightarrow> string \<Rightarrow> string \<Rightarrow> string \<Rightarrow> int \<Rightarrow> string \<Rightarrow> ('d, resp list) command" where
  "close_script rd sessionKey globalKey subjectKey leaseID reason now sid =
     rbind (rd_EXISTS rd sessionKey) (\<lambda>there.
       if \<not> there then rreturn [RespInt 1]
       else
         rbind (rd_HGET rd sessionKey ''state'') (\<lambda>state.
           if state = Some ''closed'' then rreturn [RespInt 0]
           else
             rbind (if state \<noteq> Some ''claimed'' then rreturn True
                    else rbind (rd_HGET rd sessionKey ''lease_id'') (\<lambda>l. rreturn (l \<noteq> Some leaseID))) (\<lambda>bad.
               if bad then rreturn [RespInt 2]
               else
                 rbind (rd_ZREM rd globalKey sid) (\<lambda>_.
                 rbind (rd_ZREM rd subjectKey sid) (\<lambda>_.
                 rbind (rd_HSET rd sessionKey (closed_fields (dec_int now) reason)) (\<lambda>_.
                   rreturn [RespInt 0]))))))"

section \<open>Methods\<close>

definition single_code :: "resp list \<Rightarrow> int result" where
  "single_code values =
     (case values of
        [] \<Rightarrow> Inl (ErrText ''empty Redis script result'')
      | RespInt c # _ \<Rightarrow> Inr c
      | RespBulk _ # _ \<Rightarrow> Inl (ErrText ''invalid Redis script result string''))"

definition result_code_id :: "resp list \<Rightarrow> (int \<times> string) result" where
  "result_code_id values =
     (case single_code values of
        Inl e \<Rightarrow> Inl e
      | Inr code \<Rightarrow>
          (case values of
             _ # RespBulk sid # _ \<Rightarrow> Inr (code, sid)
           | _ # RespInt _ # _ \<Rightarrow> Inl (ErrText ''invalid Redis session ID int64'')
           | _ \<Rightarrow> Inl (ErrText ''Redis script omitted session ID'')))"

definition load :: "'d redis \<Rightarrow> 'd link \<Rightarrow> nat \<Rightarrow> string \<Rightarrow> ('d, session) command" where
  "load rd lk n sid d =
     (case trip lk n (rd_HGETALL rd (session_key sid)) d of
        (Inl e, d') \<Rightarrow> (Inl (unavailable e), d')
      | (Inr h, d') \<Rightarrow> (if h = [] then Inl (Sentinel ErrNotFound) else decode h, d'))"

definition redis_CreateOrGet ::
  "'d redis \<Rightarrow> (bytes \<Rightarrow> bytes) \<Rightarrow> 'd link \<Rightarrow> string \<Rightarrow> session \<Rightarrow> ('d, session \<times> bool) command" where
  "redis_CreateOrGet rd sha256 lk key candidate d =
     (case trip lk 0 (create_script rd (idem_key sha256 key) (session_key (s_ID candidate)) session_prefix
             (dec_int (unix_milli (s_CreatedAt candidate))) (hex_encode (s_RequestFingerprint candidate))
             (s_ID candidate) (encode candidate) (unix_milli (s_TombstoneExpiresAt candidate))) d of
        (Inl e, d1) \<Rightarrow> (Inl (unavailable e), d1)
      | (Inr values, d1) \<Rightarrow>
          (case result_code_id values of
             Inl e \<Rightarrow> (Inl e, d1)
           | Inr (code, sid) \<Rightarrow>
               if code = 2 then (Inl (Sentinel ErrConflict), d1)
               else if code = 3 then (Inl (Sentinel ErrFailedPrecondition), d1)
               else
                 (case load rd lk 1 sid d1 of
                    (Inl e, d2) \<Rightarrow> (Inl e, d2)
                  | (Inr stored, d2) \<Rightarrow> (Inr (stored, code = 1), d2))))"

definition redis_GetByKey ::
  "'d redis \<Rightarrow> (bytes \<Rightarrow> bytes) \<Rightarrow> 'd link \<Rightarrow> string \<Rightarrow> ('d, session) command" where
  "redis_GetByKey rd sha256 lk key d =
     (case trip lk 0 (rd_GET rd (idem_key sha256 key)) d of
        (Inl e, d1) \<Rightarrow> (Inl (unavailable e), d1)
      | (Inr None, d1) \<Rightarrow> (Inl (Sentinel ErrNotFound), d1)
      | (Inr (Some sid), d1) \<Rightarrow> load rd lk 1 sid d1)"

definition redis_ClaimAndReserve ::
  "'d redis \<Rightarrow> (bytes \<Rightarrow> bytes) \<Rightarrow> 'd link \<Rightarrow> string \<Rightarrow> bytes \<Rightarrow> time \<Rightarrow> claim_limits
     \<Rightarrow> ('d, session_lease) command" where
  "redis_ClaimAndReserve rd sha256 lk sid digest now limits d =
     (case trip lk 0 (rd_HMGET rd (session_key sid) [''subject_id'', ''idempotency_key'']) d of
        (Inl e, d1) \<Rightarrow> (Inl (unavailable e), d1)
      | (Inr [Some subject, Some idempotencyKey], d1) \<Rightarrow>
          (let leaseID = sid @ '':lease'';
               expires = now + cl_SessionMaxDuration limits;
               tombstone = expires + cl_IdempotencyTTL limits
           in
             case trip lk 1 (claim_script rd (session_key sid) global_leases_key
                    (subject_leases_key sha256 subject) (idem_key sha256 idempotencyKey) (unix_milli now)
                    (hex_encode digest) (cl_MaxActive limits) (cl_MaxActivePerSubject limits)
                    (unix_milli expires) leaseID sid (unix_milli tombstone)) d1 of
               (Inl e, d2) \<Rightarrow> (Inl (unavailable e), d2)
             | (Inr values, d2) \<Rightarrow>
                 (case single_code values of
                    Inl e \<Rightarrow> (Inl e, d2)
                  | Inr code \<Rightarrow>
                      if code = 1 then (Inl (Sentinel ErrNotFound), d2)
                      else if code = 2 then (Inl (Sentinel ErrInvalidTicket), d2)
                      else if code = 3 then (Inl (Sentinel ErrFailedPrecondition), d2)
                      else if code = 4 then (Inl (Sentinel ErrCapacity), d2)
                      else
                        (case load rd lk 2 sid d2 of
                           (Inl e, d3) \<Rightarrow> (Inl e, d3)
                         | (Inr stored, d3) \<Rightarrow>
                             (Inr \<lparr> le_ID = leaseID, le_Session = stored, le_ExpiresAt = expires \<rparr>, d3))))
      | (Inr _, d1) \<Rightarrow> (Inl (Sentinel ErrNotFound), d1))"

definition redis_CloseAndRelease ::
  "'d redis \<Rightarrow> (bytes \<Rightarrow> bytes) \<Rightarrow> 'd link \<Rightarrow> string \<Rightarrow> string \<Rightarrow> string \<Rightarrow> time \<Rightarrow> ('d, unit) command" where
  "redis_CloseAndRelease rd sha256 lk sid leaseID reason now d =
     (case trip lk 0 (rd_HGET rd (session_key sid) ''subject_id'') d of
        (Inl e, d1) \<Rightarrow> (Inl (unavailable e), d1)
      | (Inr None, d1) \<Rightarrow> (Inl (Sentinel ErrNotFound), d1)
      | (Inr (Some subject), d1) \<Rightarrow>
          (case trip lk 1 (close_script rd (session_key sid) global_leases_key
                  (subject_leases_key sha256 subject) leaseID reason (unix_milli now) sid) d1 of
             (Inl e, d2) \<Rightarrow> (Inl (unavailable e), d2)
           | (Inr values, d2) \<Rightarrow>
               (case single_code values of
                  Inl e \<Rightarrow> (Inl e, d2)
                | Inr code \<Rightarrow>
                    if code = 1 then (Inl (Sentinel ErrNotFound), d2)
                    else if code = 2 then (Inl (Sentinel ErrFailedPrecondition), d2)
                    else (Inr (), d2))))"

definition redis_Ready :: "'d redis \<Rightarrow> 'd link \<Rightarrow> 'd \<Rightarrow> unit result" where
  "redis_Ready rd lk d = (case trip lk 0 (rd_PING rd) d of (Inl e, _) \<Rightarrow> Inl (unavailable e) | (Inr u, _) \<Rightarrow> Inr u)"

definition redis_ops :: "'d redis \<Rightarrow> (bytes \<Rightarrow> bytes) \<Rightarrow> 'd link \<Rightarrow> 'd store_ops" where
  "redis_ops rd sha256 lk =
     \<lparr> st_CreateOrGet = redis_CreateOrGet rd sha256 lk, st_GetByKey = redis_GetByKey rd sha256 lk,
       st_ClaimAndReserve = redis_ClaimAndReserve rd sha256 lk,
       st_CloseAndRelease = redis_CloseAndRelease rd sha256 lk,
       st_Ready = redis_Ready rd lk, st_Mode = ''redis'' \<rparr>"

end
