(* ===== verification/RedisRecords.thy ===== *)
theory RedisRecords
  imports RedisStore
begin

text \<open>
  The records of the Redis store: what \<open>decode\<close> reads back of what \<open>encode\<close> wrote. A time loses what is
  below a millisecond, and the strings that travel as JSON (the command and the bindings) lose every
  byte that is not valid UTF-8; nothing else changes.
\<close>

definition milli_time :: "time \<Rightarrow> time" where
  "milli_time t = (if t = zero_time then zero_time else unix_milli t * 1000000)"

definition clean_instance_binding :: "instance_binding \<Rightarrow> instance_binding" where
  "clean_instance_binding b =
     b\<lparr> ib_ClusterID := utf8_sanitize (ib_ClusterID b), ib_Namespace := utf8_sanitize (ib_Namespace b),
        ib_NotebookName := utf8_sanitize (ib_NotebookName b), ib_NotebookUID := utf8_sanitize (ib_NotebookUID b),
        ib_PodName := utf8_sanitize (ib_PodName b), ib_PodUID := utf8_sanitize (ib_PodUID b),
        ib_ContainerName := utf8_sanitize (ib_ContainerName b), ib_Shell := utf8_sanitize (ib_Shell b) \<rparr>"

definition clean_vm_binding :: "vm_binding \<Rightarrow> vm_binding" where
  "clean_vm_binding b =
     b\<lparr> vb_TenantID := utf8_sanitize (vb_TenantID b), vb_VMID := utf8_sanitize (vb_VMID b),
        vb_ClusterID := utf8_sanitize (vb_ClusterID b), vb_Namespace := utf8_sanitize (vb_Namespace b),
        vb_VMName := utf8_sanitize (vb_VMName b), vb_VMUID := utf8_sanitize (vb_VMUID b),
        vb_VMIName := utf8_sanitize (vb_VMIName b), vb_VMIUID := utf8_sanitize (vb_VMIUID b),
        vb_NamespaceUID := utf8_sanitize (vb_NamespaceUID b) \<rparr>"

definition stored_form :: "session \<Rightarrow> session" where
  "stored_form v =
     v\<lparr> s_Command := map utf8_sanitize (s_Command v),
        s_InstanceBinding := clean_instance_binding (s_InstanceBinding v),
        s_VMBinding := clean_vm_binding (s_VMBinding v),
        s_CreatedAt := milli_time (s_CreatedAt v), s_TicketExpiresAt := milli_time (s_TicketExpiresAt v),
        s_ExpiresAt := milli_time (s_ExpiresAt v), s_TombstoneExpiresAt := milli_time (s_TombstoneExpiresAt v),
        s_ClaimedAt := milli_time (s_ClaimedAt v), s_ClosedAt := milli_time (s_ClosedAt v) \<rparr>"

definition session_times :: "session \<Rightarrow> time list" where
  "session_times v = [s_CreatedAt v, s_TicketExpiresAt v, s_ExpiresAt v, s_TombstoneExpiresAt v,
     s_ClaimedAt v, s_ClosedAt v]"

definition json_strings :: "session \<Rightarrow> string list" where
  "json_strings v =
     s_Command v @
     (case s_InstanceBinding v of b \<Rightarrow>
        [ib_ClusterID b, ib_Namespace b, ib_NotebookName b, ib_NotebookUID b, ib_PodName b, ib_PodUID b,
         ib_ContainerName b, ib_Shell b]) @
     (case s_VMBinding v of b \<Rightarrow>
        [vb_TenantID b, vb_VMID b, vb_ClusterID b, vb_Namespace b, vb_VMName b, vb_VMUID b, vb_VMIName b,
         vb_VMIUID b, vb_NamespaceUID b])"

text \<open>What every session of the gateway is: digests of 32 bytes, 64-bit versions, times after the epoch or zero.\<close>

definition int64 :: "int \<Rightarrow> bool" where
  "int64 i \<longleftrightarrow> - (2 ^ 63) \<le> i \<and> i < 2 ^ 63"

definition storable_time :: "time \<Rightarrow> bool" where
  "storable_time t \<longleftrightarrow> t = zero_time \<or> unix_milli t \<noteq> 0 \<and> int64 (unix_milli t)"

definition storable :: "session \<Rightarrow> bool" where
  "storable v \<longleftrightarrow> length (s_RequestFingerprint v) = 32 \<and> length (s_TicketDigest v) = 32 \<and>
     int64 (ib_Version (s_InstanceBinding v)) \<and> int64 (vb_Version (s_VMBinding v)) \<and>
     state_canonical (s_State v) \<and> mode_canonical (s_Mode v) \<and> kind_canonical (s_WorkloadKind v) \<and>
     list_all storable_time (session_times v)"

section \<open>Field by field\<close>

lemma parse_millis_millis:
  assumes "storable_time t"
  shows "parse_millis (millis t) = milli_time t"
proof (cases "t = zero_time")
  case True
  have "parse_int64 ''0'' = 0" by (simp add: parse_int64_def parse_nat_def is_digit_def digits_value_def clamp64_def)
  with True show ?thesis by (simp add: millis_def parse_millis_def milli_time_def)
next
  case False
  with assms show ?thesis
    by (simp add: storable_time_def int64_def millis_def parse_millis_def milli_time_def parse_int64_dec_int)
qed

lemma unmarshal_command:
  "unmarshal_strings (json_print (command_json ss)) = Inr (map utf8_sanitize ss)"
proof (cases "ss = []")
  case True
  then show ?thesis
    using json_parse_print [of JNull]
    by (simp add: command_json_def unmarshal_strings_def decode_strings_def)
next
  case False
  then have "json_parse (json_print (command_json ss)) = Some (json_clean (JArr (map JStr ss)))"
    using json_parse_print [of "command_json ss"]
    by (auto simp: command_json_def max_nesting_depth_def list_all_iff)
  then show ?thesis
    using decode_strings_clean [of ss] by (simp add: unmarshal_strings_def)
qed

lemma binding_names_clean [simp]:
  "utf8_sanitize ''Enabled'' = ''Enabled''" "utf8_sanitize ''Version'' = ''Version''"
  "utf8_sanitize ''ClusterID'' = ''ClusterID''" "utf8_sanitize ''Namespace'' = ''Namespace''"
  "utf8_sanitize ''NotebookName'' = ''NotebookName''" "utf8_sanitize ''NotebookUID'' = ''NotebookUID''"
  "utf8_sanitize ''PodName'' = ''PodName''" "utf8_sanitize ''PodUID'' = ''PodUID''"
  "utf8_sanitize ''ContainerName'' = ''ContainerName''" "utf8_sanitize ''Shell'' = ''Shell''"
  "utf8_sanitize ''TenantID'' = ''TenantID''" "utf8_sanitize ''VMID'' = ''VMID''"
  "utf8_sanitize ''VMName'' = ''VMName''" "utf8_sanitize ''VMUID'' = ''VMUID''"
  "utf8_sanitize ''VMIName'' = ''VMIName''" "utf8_sanitize ''VMIUID'' = ''VMIUID''"
  "utf8_sanitize ''NamespaceUID'' = ''NamespaceUID''"
  by (simp_all add: utf8_sanitize_ascii)

lemma json_print_nonempty [simp]: "json_print (JObj kvs) \<noteq> []"
  by simp

lemma decode_members_step:
  assumes "map_of fs k = Some f" and "f v r = Some r'"
  shows "decode_members strict fs ((k, v) # kvs) r = decode_members strict fs kvs r'"
  using assms by (simp add: find_field_exact)

lemma unmarshal_struct_printed:
  assumes "json_integral v" and "json_depth v \<le> max_nesting_depth" and "json_print v \<noteq> []"
    and "decode_struct False fs (json_clean v) zero = Some r"
  shows "unmarshal_struct fs (json_print v) zero = Inr r"
  using assms by (simp add: unmarshal_struct_def json_parse_print)

lemma unmarshal_instance_binding:
  assumes "int64 (ib_Version b)"
  shows "unmarshal_struct instance_binding_struct (json_print (instance_binding_json b)) zero_instance_binding =
    Inr (clean_instance_binding b)"
proof (rule unmarshal_struct_printed)
  show "decode_struct False instance_binding_struct (json_clean (instance_binding_json b)) zero_instance_binding =
      Some (clean_instance_binding b)"
    using assms json_int64_dec_int [of "ib_Version b"]
    by (simp add: decode_struct_def instance_binding_json_def instance_binding_struct_def find_field_def
        store_bool_def store_int64_def store_string_def int64_def clean_instance_binding_def
        zero_instance_binding_def)
qed (auto simp: instance_binding_json_def max_nesting_depth_def)

lemma unmarshal_vm_binding:
  assumes "int64 (vb_Version b)"
  shows "unmarshal_struct vm_binding_struct (json_print (vm_binding_json b)) zero_vm_binding =
    Inr (clean_vm_binding b)"
proof (rule unmarshal_struct_printed)
  show "decode_struct False vm_binding_struct (json_clean (vm_binding_json b)) zero_vm_binding =
      Some (clean_vm_binding b)"
    using assms json_int64_dec_int [of "vb_Version b"]
    by (simp add: decode_struct_def vm_binding_json_def vm_binding_struct_def find_field_def
        store_bool_def store_int64_def store_string_def int64_def clean_vm_binding_def zero_vm_binding_def)
qed (auto simp: vm_binding_json_def max_nesting_depth_def)

lemma decode32_hex: "length b = 32 \<Longrightarrow> decode32 (hex_encode b) = Inr b"
  by (simp add: decode32_def)

lemma decode_ciphertext_b64: "decode_ciphertext (b64_encode b64_std b) = Inr b"
proof (cases "b = []")
  case True
  then show ?thesis by (simp add: decode_ciphertext_def b64_encode_def)
next
  case False
  then have "0 < length (b64_encode b64_std b)" unfolding length_b64_encode by (cases b) auto
  then show ?thesis by (auto simp: decode_ciphertext_def)
qed

lemma size_round: "word_of_nat (parse_uint16 (dec_nat (unat w))) = (w :: u16)"
proof -
  have "unat w < 65536" using unsigned_less [where w = w] by simp
  then show ?thesis by (simp add: parse_uint16_dec_nat)
qed

lemma bool_round: "parse_bool (if b then ''true'' else ''false'') = b"
  by (simp add: parse_bool_def)

text \<open>The stored hash of a session, and its fields.\<close>

definition session_hash :: "session \<Rightarrow> (string, string) gomap" where
  "session_hash v = hset_all (encode v) []"

lemma mget_hset_all_distinct: "distinct (map fst fvs) \<Longrightarrow> mget (hset_all fvs []) f = map_of fvs f"
proof -
  assume dist: "distinct (map fst fvs)"
  then have "distinct (map fst (rev fvs))" by (simp flip: rev_map)
  with dist have "map_of (rev fvs) = map_of fvs" by (simp add: map_of_inject_set)
  then show ?thesis by (simp add: mget_hset_all split: option.split)
qed

lemma encode_names_distinct: "distinct (map fst (encode v))"
  by (simp add: encode_def)

lemma field_session_hash: "field (session_hash v) f = (case map_of (encode v) f of None \<Rightarrow> [] | Some x \<Rightarrow> x)"
  by (simp add: field_def session_hash_def mget_hset_all_distinct [OF encode_names_distinct])

lemma session_hash_fields:
  "field (session_hash v) ''id'' = s_ID v"
  "field (session_hash v) ''idempotency_key'' = s_IdempotencyKey v"
  "field (session_hash v) ''fingerprint'' = hex_encode (s_RequestFingerprint v)"
  "field (session_hash v) ''ticket_digest'' = hex_encode (s_TicketDigest v)"
  "field (session_hash v) ''ticket_ciphertext'' = b64_encode b64_std (s_TicketCiphertext v)"
  "field (session_hash v) ''tenant_id'' = s_TenantID v"
  "field (session_hash v) ''subject_id'' = s_SubjectID v"
  "field (session_hash v) ''instance_id'' = s_InstanceID v"
  "field (session_hash v) ''workload_name'' = s_WorkloadName v"
  "field (session_hash v) ''workload_kind'' = kind_str (s_WorkloadKind v)"
  "field (session_hash v) ''mode'' = mode_str (s_Mode v)"
  "field (session_hash v) ''container'' = s_Container v"
  "field (session_hash v) ''command'' = json_print (command_json (s_Command v))"
  "field (session_hash v) ''tty'' = (if s_TTY v then ''true'' else ''false'')"
  "field (session_hash v) ''rows'' = dec_nat (unat (s_Rows v))"
  "field (session_hash v) ''cols'' = dec_nat (unat (s_Cols v))"
  "field (session_hash v) ''requested_protocol'' = s_RequestedProtocol v"
  "field (session_hash v) ''state'' = state_str (s_State v)"
  "field (session_hash v) ''created_at'' = millis (s_CreatedAt v)"
  "field (session_hash v) ''ticket_expires_at'' = millis (s_TicketExpiresAt v)"
  "field (session_hash v) ''expires_at'' = millis (s_ExpiresAt v)"
  "field (session_hash v) ''tombstone_expires_at'' = millis (s_TombstoneExpiresAt v)"
  "field (session_hash v) ''claimed_at'' = millis (s_ClaimedAt v)"
  "field (session_hash v) ''closed_at'' = millis (s_ClosedAt v)"
  "field (session_hash v) ''close_reason'' = s_CloseReason v"
  "field (session_hash v) ''lease_id'' = s_LeaseID v"
  "field (session_hash v) ''instance_binding'' = json_print (instance_binding_json (s_InstanceBinding v))"
  "field (session_hash v) ''vm_binding'' = json_print (vm_binding_json (s_VMBinding v))"
  by (simp_all only: field_session_hash) (simp_all add: encode_def)

text \<open>What is read back of a stored session, and when it is the session itself.\<close>

lemma decode_session_hash:
  assumes "storable v"
  shows "decode (session_hash v) = Inr (stored_form v)"
proof -
  have times: "parse_millis (millis t) = milli_time t" if "t \<in> set (session_times v)" for t
    using that assms by (intro parse_millis_millis) (auto simp: storable_def list_all_iff)
  have canon: "state_of_str (state_str (s_State v)) = s_State v"
    "mode_of_str (mode_str (s_Mode v)) = s_Mode v"
    "kind_of_str (kind_str (s_WorkloadKind v)) = s_WorkloadKind v"
    using assms by (simp_all add: storable_def state_canonical_def mode_canonical_def kind_canonical_def)
  have ok: "decode32 (hex_encode (s_RequestFingerprint v)) = Inr (s_RequestFingerprint v)"
    "decode32 (hex_encode (s_TicketDigest v)) = Inr (s_TicketDigest v)"
    "unmarshal_struct vm_binding_struct (json_print (vm_binding_json (s_VMBinding v))) zero_vm_binding =
       Inr (clean_vm_binding (s_VMBinding v))"
    "unmarshal_struct instance_binding_struct (json_print (instance_binding_json (s_InstanceBinding v)))
       zero_instance_binding = Inr (clean_instance_binding (s_InstanceBinding v))"
    using assms by (auto simp: storable_def decode32_hex unmarshal_vm_binding unmarshal_instance_binding)
  show ?thesis
    unfolding decode_def session_hash_fields ok result_bind_def sum.case decode_ciphertext_b64
      unmarshal_command canon size_round bool_round
    by (simp add: stored_form_def times session_times_def)
qed

lemma stored_form_same:
  assumes valid: "list_all utf8_valid (json_strings v) \<and> list_all (\<lambda>t. t mod 1000000 = 0) (session_times v)"
  shows "stored_form v = v"
proof -
  have "milli_time t = t" if "t \<in> set (session_times v)" for t
    using valid that by (auto simp: list_all_iff milli_time_def unix_milli_def)
  moreover have "map utf8_sanitize (s_Command v) = s_Command v"
    using valid by (auto simp: json_strings_def list_all_iff utf8_valid_def intro: map_idI)
  moreover have "clean_instance_binding (s_InstanceBinding v) = s_InstanceBinding v"
    "clean_vm_binding (s_VMBinding v) = s_VMBinding v"
    using valid by (simp_all add: json_strings_def utf8_valid_def clean_instance_binding_def clean_vm_binding_def)
  ultimately show "stored_form v = v"
    by (simp add: stored_form_def session_times_def)
qed

section \<open>Properties\<close>

text \<open>
  C13: a session survives the Redis store. What is read back of a stored session is the session itself
  with its times cut to milliseconds and the strings of its command and bindings made valid UTF-8; so
  it is the very session when these strings are valid and its times are whole milliseconds.
\<close>

theorem redis_session_roundtrip:
  assumes "storable v"
  shows "decode (session_hash v) = Inr (stored_form v) \<and>
    (list_all utf8_valid (json_strings v) \<and> list_all (\<lambda>t. t mod 1000000 = 0) (session_times v) \<longrightarrow>
       stored_form v = v)"
  using decode_session_hash [OF assms] stored_form_same by blast

definition demo_record :: session where
  "demo_record = zero_session\<lparr> s_ID := ''s1'', s_IdempotencyKey := ''k1'', s_TenantID := ''t'', s_SubjectID := ''u'',
     s_InstanceID := ''i'', s_WorkloadName := ''w'', s_WorkloadKind := WorkloadVM, s_Mode := ModeVNC,
     s_State := StateIssued, s_CreatedAt := 1000000000, s_TicketExpiresAt := 61000000000,
     s_TombstoneExpiresAt := 900000000000 \<rparr>"

lemma demo_record_storable: "storable demo_record"
  by (simp add: storable_def demo_record_def zero_session_def session_times_def storable_time_def unix_milli_def
      int64_def zero_instance_binding_def zero_vm_binding_def zero_time_def)

theorem redis_session_roundtrip_witness: "decode (session_hash demo_record) = Inr demo_record"
proof -
  have "list_all utf8_valid (json_strings demo_record)"
    by (simp add: json_strings_def demo_record_def zero_session_def zero_instance_binding_def zero_vm_binding_def
        utf8_valid_def)
  moreover have "list_all (\<lambda>t. t mod 1000000 = 0) (session_times demo_record)"
    by (simp add: session_times_def demo_record_def zero_session_def zero_time_def)
  ultimately show ?thesis using redis_session_roundtrip [OF demo_record_storable] by simp
qed

end
