(* ===== verification/RedisContract.thy ===== *)
theory RedisContract
  imports RedisRecords StoreContract
begin

text \<open>
  The Redis store keeps the contract of the store interface, on every server that obeys the laws of
  \<open>redis_server\<close>, while the server's clock advances between requests and any request or reply may be
  lost. The scripts are analysed first, each as one atomic step: what it can do to the session
  records, and when it reports success.
\<close>

section \<open>Keys do not clash\<close>

lemma session_key_inject [simp]: "session_key a = session_key b \<longleftrightarrow> a = b"
  by (simp add: session_key_def)

lemma other_keys [simp]:
  "idem_key sha key \<noteq> session_key sid" "global_leases_key \<noteq> session_key sid"
  "subject_leases_key sha sub \<noteq> session_key sid" "session_key sid \<noteq> idem_key sha key"
  "session_key sid \<noteq> global_leases_key" "session_key sid \<noteq> subject_leases_key sha sub"
  by (simp_all add: session_key_def session_prefix_def idem_key_def global_leases_key_def subject_leases_key_def)

section \<open>Phases and the invariant\<close>

definition hash_phase :: "(string, string) gomap \<Rightarrow> phase" where
  "hash_phase h =
     (if mget h ''state'' = Some ''issued''
      then PIssued (case hex_decode (field h ''ticket_digest'') of Some b \<Rightarrow> b | None \<Rightarrow> [])
      else if mget h ''state'' = Some ''claimed'' then PClaimed (field h ''lease_id'') else PClosed)"

definition entry_phase :: "redis_entry \<Rightarrow> phase" where
  "entry_phase en = (case en of Some (VHash h, _) \<Rightarrow> hash_phase h | _ \<Rightarrow> Absent)"

definition redis_phase :: "('d \<Rightarrow> string \<Rightarrow> redis_entry) \<Rightarrow> 'd \<Rightarrow> string \<Rightarrow> phase" where
  "redis_phase entry d sid = entry_phase (entry d (session_key sid))"

definition redis_inv :: "('d \<Rightarrow> string \<Rightarrow> redis_entry) \<Rightarrow> 'd \<Rightarrow> bool" where
  "redis_inv entry d \<longleftrightarrow>
     (\<forall>sid h e. entry d (session_key sid) = Some (VHash h, e) \<longrightarrow> mget h ''id'' = Some sid)"

text \<open>The step that changed the record of one session, and the step that changed none.\<close>

definition record_written ::
  "('d \<Rightarrow> string \<Rightarrow> redis_entry) \<Rightarrow> string \<Rightarrow> redis_entry \<Rightarrow> 'd \<Rightarrow> 'd \<Rightarrow> bool" where
  "record_written entry sid en d d' \<longleftrightarrow>
     (\<forall>j. entry d' (session_key j) = (if j = sid then en else entry d (session_key j)))"

definition records_kept :: "('d \<Rightarrow> string \<Rightarrow> redis_entry) \<Rightarrow> 'd \<Rightarrow> 'd \<Rightarrow> bool" where
  "records_kept entry d d' \<longleftrightarrow> (\<forall>j. entry d' (session_key j) = entry d (session_key j))"

lemma records_kept_refl [simp]: "records_kept entry d d"
  by (simp add: records_kept_def)

lemma records_kept_trans: "records_kept entry a b \<Longrightarrow> records_kept entry b c \<Longrightarrow> records_kept entry a c"
  by (simp add: records_kept_def)

lemma record_written_kept:
  "record_written entry sid en a b \<Longrightarrow> records_kept entry b c \<Longrightarrow> record_written entry sid en a c"
  "records_kept entry a b \<Longrightarrow> record_written entry sid en b c \<Longrightarrow> record_written entry sid en a c"
  by (simp_all add: record_written_def records_kept_def)

lemma records_kept_phase: "records_kept entry d d' \<Longrightarrow> redis_phase entry d' j = redis_phase entry d j"
  by (simp add: records_kept_def redis_phase_def)

lemma records_kept_inv: "records_kept entry d d' \<Longrightarrow> redis_inv entry d' = redis_inv entry d"
  by (simp add: records_kept_def redis_inv_def)

lemma record_written_phase:
  "record_written entry sid en d d' \<Longrightarrow>
   redis_phase entry d' j = (if j = sid then entry_phase en else redis_phase entry d j)"
  by (simp add: record_written_def redis_phase_def)

lemma record_written_inv:
  assumes "record_written entry sid en d d'" and "redis_inv entry d"
    and "\<And>h e. en = Some (VHash h, e) \<Longrightarrow> mget h ''id'' = Some sid"
  shows "redis_inv entry d'"
  using assms by (auto simp: record_written_def redis_inv_def)

text \<open>What a claim may write to an issued record: that its ticket has expired, or that it is claimed.\<close>

definition claim_writes ::
  "int \<Rightarrow> string \<Rightarrow> int \<Rightarrow> int \<Rightarrow> string \<Rightarrow> int \<Rightarrow> (string, string) gomap \<Rightarrow> int option \<Rightarrow> resp list result
     \<Rightarrow> redis_entry \<Rightarrow> bool" where
  "claim_writes clk dg now ex lease tomb h e r en \<longleftrightarrow>
     (r = Inr [RespInt 3] \<and> en = Some (VHash (hset_all (expired_fields (dec_int now)) h), e) \<or>
      field h ''ticket_digest'' = dg \<and>
        en = entry_at clk
          (Some (VHash (hset_all (claimed_fields (dec_int now) (dec_int ex) lease (dec_int tomb)) h), Some tomb)))"

section \<open>Single commands\<close>

lemma rbind_cases:
  assumes "rbind m f d = (r, d')"
  obtains (error) e where "m d = (Inl e, d')" and "r = Inl e"
  | (ok) a d1 where "m d = (Inr a, d1)" and "f a d1 = (r, d')"
  using assms by (auto simp: rbind_def split: prod.splits sum.splits)

lemma rreturn_simp [simp]: "rreturn a d = (Inr a, d)"
  by (simp add: rreturn_def)

lemma fields_nonempty [simp]:
  "expired_fields now \<noteq> []" "claimed_fields now ex lease tomb \<noteq> []" "closed_fields now reason \<noteq> []"
  by (simp_all add: expired_fields_def claimed_fields_def closed_fields_def)

lemma lua_different_iff: "lua_different a b \<longleftrightarrow> a \<noteq> b"
proof -
  have fold: "fold (\<lambda>(x, y) different. if x \<noteq> y then True else different) ps acc \<longleftrightarrow> acc \<or> (\<exists>(x, y) \<in> set ps. x \<noteq> y)" for ps acc
    by (induction ps arbitrary: acc) auto
  show ?thesis
  proof (cases "length a = length b")
    case True
    have "(\<exists>(x, y) \<in> set (zip a b). x \<noteq> y) \<longleftrightarrow> a \<noteq> b"
      using True by (induction a b rule: list_induct2) auto
    with True show ?thesis unfolding lua_different_def fold by simp
  qed (auto simp: lua_different_def)
qed

lemma rbind_rreturn [simp]: "rbind (rreturn a) f = f a"
  by (rule ext) (simp add: rbind_def)

lemma rbind_if: "rbind (if c then x else y) f = (if c then rbind x f else rbind y f)"
  by simp

lemma rbind_assoc: "rbind (rbind m f) g = rbind m (\<lambda>a. rbind (f a) g)"
  by (rule ext) (simp add: rbind_def split: prod.split sum.split)

context redis_server
begin

lemma rbind_exists: "rbind (rd_EXISTS rd k) f d = f (entry d k \<noteq> None) d"
  by (simp add: rbind_def exists_law)

text \<open>A read leaves the server as it is.\<close>

lemma reads:
  "rd_GET rd k d = (g, d') \<Longrightarrow> d' = d" "rd_EXISTS rd k d = (x, d') \<Longrightarrow> d' = d"
  "rd_HGET rd k f d = (g, d') \<Longrightarrow> d' = d" "rd_HMGET rd k fs d = (m, d') \<Longrightarrow> d' = d"
  "rd_HGETALL rd k d = (a, d') \<Longrightarrow> d' = d" "rd_ZCARD rd k d = (c, d') \<Longrightarrow> d' = d"
  by (auto simp: get_law exists_law hget_law hmget_law hgetall_law zcard_law split: option.splits)

lemma lua_reads:
  "lua_ge a b d = (x, d') \<Longrightarrow> d' = d" "lua_unclaimable st now te d = (x, d') \<Longrightarrow> d' = d"
  by (auto simp: lua_ge_def lua_unclaimable_def split: option.splits if_splits)

lemma claim_full_reads: "claim_full rd g sb ma mp d = (x, d') \<Longrightarrow> d' = d"
  by (auto simp: claim_full_def zcard_law rbind_def split: option.splits if_splits)

text \<open>A write to another key leaves the session records as they are.\<close>

lemma other_writes:
  assumes "\<And>sid. k \<noteq> session_key sid"
  shows "rd_SET_PXAT rd k v t d = (u, d') \<Longrightarrow> records_kept entry d d'"
    and "rd_PEXPIREAT rd k t d = (u, d') \<Longrightarrow> records_kept entry d d'"
    and "rd_ZREMRANGEBYSCORE rd k mx d = (u, d') \<Longrightarrow> records_kept entry d d'"
    and "rd_ZADD rd k sc m d = (u, d') \<Longrightarrow> records_kept entry d d'"
    and "rd_ZREM rd k m d = (u, d') \<Longrightarrow> records_kept entry d d'"
proof -
  have ne: "session_key sid \<noteq> k" for sid using assms by metis
  show "records_kept entry d d'" if "rd_SET_PXAT rd k v t d = (u, d')"
    using that set_law [of k v t d] ne by (auto simp: records_kept_def)
  show "records_kept entry d d'" if "rd_PEXPIREAT rd k t d = (u, d')"
    using that pexpireat_law [of k t d] ne by (auto simp: records_kept_def)
  show "records_kept entry d d'" if "rd_ZREMRANGEBYSCORE rd k mx d = (u, d')"
    using that zremrangebyscore_law [where d = d and k = k and mx = mx] ne
    by (cases "as_zset (entry d k)") (auto simp: records_kept_def)
  show "records_kept entry d d'" if "rd_ZADD rd k sc m d = (u, d')"
    using that zadd_law [where d = d and k = k and sc = sc and m = m] ne
    by (cases "as_zset (entry d k)") (auto simp: records_kept_def)
  show "records_kept entry d d'" if "rd_ZREM rd k m d = (u, d')"
    using that zrem_law [where d = d and k = k and m = m] ne
    by (cases "as_zset (entry d k)") (auto simp: records_kept_def)
qed

lemma clock_kept:
  "rd_ZREMRANGEBYSCORE rd k mx d = (u, d') \<Longrightarrow> clock d' = clock d"
  "rd_ZREM rd k m d = (u, d') \<Longrightarrow> clock d' = clock d"
  using zremrangebyscore_law [where d = d and k = k and mx = mx] zrem_law [where d = d and k = k and m = m]
  by (cases "as_zset (entry d k)"; auto)+

text \<open>A field read from a session record, and fields written to one.\<close>

lemma hget_record:
  assumes "rd_HGET rd (session_key sid) f d = (Inr (Some v), d')"
  shows "\<exists>h e. entry d (session_key sid) = Some (VHash h, e) \<and> mget h f = Some v"
  using assms
  by (auto simp: hget_law as_hash_def split: option.splits redis_value.splits prod.splits)

lemma hget_hash:
  "entry d (session_key sid) = Some (VHash h, e) \<Longrightarrow> rd_HGET rd (session_key sid) f d = (Inr (mget h f), d)"
  by (simp add: hget_law as_hash_def)

lemma hset_record:
  assumes "entry d (session_key sid) = Some (VHash h, e)" and "fvs \<noteq> []"
  obtains d' where "rd_HSET rd (session_key sid) fvs d = (Inr (), d')" and "clock d' = clock d"
    and "record_written entry sid (Some (VHash (hset_all fvs h), e)) d d'"
  using hset_law [OF assms(2), where d = d and k = "session_key sid"] assms(1)
  by (auto simp: as_hash_def record_written_def)

lemma pexpireat_record:
  assumes "entry d (session_key sid) = Some (VHash h, e)"
  obtains d' where "rd_PEXPIREAT rd (session_key sid) t d = (Inr (), d')"
    and "record_written entry sid (entry_at (clock d) (Some (VHash h, Some t))) d d'"
  using pexpireat_law [of "session_key sid" t d] assms by (auto simp: record_written_def)

subsection \<open>Claiming\<close>

lemma claim_take_effect:
  assumes "claim_take rd (session_key sid) g sb ik now ex lease m tomb d = (r, d')"
    and "entry d (session_key sid) = Some (VHash h, e)"
    and "\<And>j. g \<noteq> session_key j" "\<And>j. sb \<noteq> session_key j" "\<And>j. ik \<noteq> session_key j"
  shows "record_written entry sid
    (entry_at (clock d) (Some (VHash (hset_all (claimed_fields (dec_int now) (dec_int ex) lease (dec_int tomb)) h),
       Some tomb))) d d'"
proof -
  let ?h = "hset_all (claimed_fields (dec_int now) (dec_int ex) lease (dec_int tomb)) h"
  obtain d1 where d1: "rd_HSET rd (session_key sid) (claimed_fields (dec_int now) (dec_int ex) lease (dec_int tomb)) d
      = (Inr (), d1)" "clock d1 = clock d" "record_written entry sid (Some (VHash ?h, e)) d d1"
    by (rule hset_record [OF assms(2) fields_nonempty(2)])
  then have "entry d1 (session_key sid) = Some (VHash ?h, e)" by (simp add: record_written_def)
  then obtain d2 where d2: "rd_PEXPIREAT rd (session_key sid) tomb d1 = (Inr (), d2)"
    "record_written entry sid (entry_at (clock d) (Some (VHash ?h, Some tomb))) d1 d2"
    unfolding d1(2) [symmetric] by (rule pexpireat_record)
  then have w2: "record_written entry sid (entry_at (clock d) (Some (VHash ?h, Some tomb))) d d2"
    using d1(3) by (simp add: record_written_def)
  obtain d3 where d3: "rd_PEXPIREAT rd ik tomb d2 = (Inr (), d3)" using pexpireat_law by metis
  obtain u4 d4 where d4: "rd_ZADD rd g ex m d3 = (u4, d4)" by fastforce
  obtain u5 d5 where d5: "rd_ZADD rd sb ex m d4 = (u5, d5)" by fastforce
  have k4: "records_kept entry d2 d4"
    using other_writes(2) [OF assms(5) d3] other_writes(4) [OF assms(3) d4] by (rule records_kept_trans)
  have k5: "records_kept entry d2 d5"
    using k4 other_writes(4) [OF assms(4) d5] by (rule records_kept_trans)
  have "d' = d4 \<or> d' = d5"
    using assms(1) d1(1) d2(1) d3 d4 d5 by (cases u4; cases u5) (auto simp: claim_take_def)
  then show ?thesis using record_written_kept(1) [OF w2] k4 k5 by blast
qed

lemma claim_check_effect:
  assumes "claim_check rd (session_key sid) g sb now dg ma mp (claim_take rd (session_key sid) g sb ik now ex lease m tomb) d
      = (r, d')"
    and "\<And>j. g \<noteq> session_key j" "\<And>j. sb \<noteq> session_key j" "\<And>j. ik \<noteq> session_key j"
  shows "(d' = d \<and> r \<noteq> Inr [RespInt 0]) \<or>
    (\<exists>h e en. entry d (session_key sid) = Some (VHash h, e) \<and> mget h ''state'' = Some ''issued'' \<and>
      record_written entry sid en d d' \<and> claim_writes (clock d) dg now ex lease tomb h e r en)"
proof -
  obtain x where s1: "rd_HGET rd (session_key sid) ''state'' d = (x, d)"
    using reads(3) by (metis surj_pair)
  show ?thesis
  proof (cases x)
    case (Inl e)
    then show ?thesis using assms(1) s1 by (auto simp: claim_check_def)
  next
    case (Inr state)
    show ?thesis
    proof (cases "state = Some ''issued''")
      case False
      obtain y where "rd_HGET rd (session_key sid) ''ticket_expires_at'' d = (y, d)"
        using reads(3) by (metis surj_pair)
      then show ?thesis
        using assms(1) s1 Inr False by (cases y) (auto simp: claim_check_def lua_unclaimable_def)
    next
      case True
      then obtain h e where h: "entry d (session_key sid) = Some (VHash h, e)" "mget h ''state'' = Some ''issued''"
        using hget_record s1 Inr by metis
      note hg = hget_hash [OF h(1)]
      let ?take = "claim_take rd (session_key sid) g sb ik now ex lease m tomb"
      let ?te = "lua_tonumber (or_default ''0'' (mget h ''ticket_expires_at''))"
      show ?thesis
      proof (cases ?te)
        case None
        then show ?thesis
          using assms(1) h(2) by (auto simp: claim_check_def hg lua_unclaimable_def lua_ge_def)
      next
        case (Some te)
        then have dead: "lua_unclaimable (Some ''issued'') (Some now) (mget h ''ticket_expires_at'') d = (Inr (now \<ge> te), d)"
          by (simp add: lua_unclaimable_def lua_ge_def)
        show ?thesis
        proof (cases "now \<ge> te")
          case True
          obtain d1 where "rd_HSET rd (session_key sid) (expired_fields (dec_int now)) d = (Inr (), d1)"
            "record_written entry sid (Some (VHash (hset_all (expired_fields (dec_int now)) h), e)) d d1"
            by (rule hset_record [OF h(1) fields_nonempty(1)])
          moreover have "r = Inr [RespInt 3] \<and> d' = d1"
            using assms(1) h True dead calculation by (auto simp: claim_check_def hg)
          ultimately show ?thesis using h unfolding claim_writes_def by blast
        next
          case False
          show ?thesis
          proof (cases "lua_different (field h ''ticket_digest'') dg")
            case True
            then show ?thesis
              using assms(1) h False dead
              by (auto simp: claim_check_def hg field_def or_default_def split: option.splits)
          next
            case same: False
            obtain full where full: "claim_full rd g sb ma mp d = (full, d)"
              using claim_full_reads by (metis surj_pair)
            have eq: "claim_check rd (session_key sid) g sb now dg ma mp ?take d =
                (case full of Inl e \<Rightarrow> (Inl e, d) | Inr True \<Rightarrow> (Inr [RespInt 4], d) | Inr False \<Rightarrow> ?take d)"
              using h False dead same full
              by (auto simp: claim_check_def hg field_def or_default_def split: option.splits sum.splits bool.splits)
            show ?thesis
            proof (cases "full = Inr False")
              case True
              then have "?take d = (r, d')" using assms(1) eq by simp
              from claim_take_effect [OF this h(1) assms(2-4)] show ?thesis
                using h same unfolding lua_different_iff claim_writes_def by blast
            next
              case False
              then show ?thesis using assms(1) eq by (auto split: sum.splits bool.splits)
            qed
          qed
        qed
      qed
    qed
  qed
qed

lemma claim_script_effect:
  assumes "claim_script rd (session_key sid) g sb ik now dg ma mp ex lease m tomb d = (r, d')"
    and "\<And>j. g \<noteq> session_key j" "\<And>j. sb \<noteq> session_key j" "\<And>j. ik \<noteq> session_key j"
  shows "(records_kept entry d d' \<and> r \<noteq> Inr [RespInt 0]) \<or>
    (\<exists>h e en. entry d (session_key sid) = Some (VHash h, e) \<and> mget h ''state'' = Some ''issued'' \<and>
      record_written entry sid en d d' \<and> claim_writes (clock d) dg now ex lease tomb h e r en)"
proof (cases "entry d (session_key sid) = None")
  case True
  then show ?thesis using assms(1) by (auto simp: claim_script_def rbind_exists)
next
  case False
  obtain u1 d1 where z1: "rd_ZREMRANGEBYSCORE rd g now d = (u1, d1)" by fastforce
  obtain u2 d2 where z2: "rd_ZREMRANGEBYSCORE rd sb now d1 = (u2, d2)" by fastforce
  have k1: "records_kept entry d d1" by (rule other_writes(3) [OF assms(2) z1])
  have k2: "records_kept entry d d2"
    using k1 other_writes(3) [OF assms(3) z2] by (rule records_kept_trans)
  have c2: "clock d2 = clock d" using clock_kept(1) z1 z2 by metis
  show ?thesis
  proof (cases "u1 = Inr () \<and> u2 = Inr ()")
    case True
    then have "claim_check rd (session_key sid) g sb now dg ma mp
        (claim_take rd (session_key sid) g sb ik now ex lease m tomb) d2 = (r, d')"
      using assms(1) False z1 z2 by (simp add: claim_script_def rbind_exists)
    from claim_check_effect [OF this assms(2-4)] show ?thesis
      using k2 record_written_kept(2) [OF k2] unfolding c2 records_kept_def by metis
  next
    case error: False
    then show ?thesis
      using assms(1) False z1 z2 k1 k2
      by (cases u1; cases u2) (auto simp: claim_script_def rbind_exists)
  qed
qed

subsection \<open>Closing\<close>

lemma close_script_effect:
  assumes "close_script rd (session_key sid) g sb lease reason now m d = (r, d')"
    and "\<And>j. g \<noteq> session_key j" "\<And>j. sb \<noteq> session_key j"
  shows "(records_kept entry d d' \<and>
      (r = Inr [RespInt 0] \<longrightarrow> (\<exists>h e. entry d (session_key sid) = Some (VHash h, e) \<and> mget h ''state'' = Some ''closed''))) \<or>
    (\<exists>h e. entry d (session_key sid) = Some (VHash h, e) \<and> mget h ''state'' = Some ''claimed'' \<and>
      record_written entry sid (Some (VHash (hset_all (closed_fields (dec_int now) reason) h), e)) d d')"
proof (cases "\<exists>h e. entry d (session_key sid) = Some (VHash h, e)")
  case False
  have "d' = d \<and> r \<noteq> Inr [RespInt 0]"
  proof (cases "entry d (session_key sid)")
    case None
    then show ?thesis using assms(1) by (auto simp: close_script_def rbind_exists rbind_if rbind_assoc)
  next
    case (Some p)
    then have "rd_HGET rd (session_key sid) ''state'' d = (Inl (ErrText ''WRONGTYPE''), d)"
      using False by (auto simp: hget_law as_hash_def split: redis_value.splits prod.splits)
    with Some show ?thesis using assms(1) by (auto simp: close_script_def rbind_exists rbind_if rbind_assoc)
  qed
  then show ?thesis by auto
next
  case True
  then obtain h e where h: "entry d (session_key sid) = Some (VHash h, e)" by blast
  note hg = hget_hash [OF h]
  show ?thesis
  proof (cases "mget h ''state'' = Some ''claimed'' \<and> mget h ''lease_id'' = Some lease")
    case False
    then have "d' = d \<and> (r = Inr [RespInt 0] \<longrightarrow> mget h ''state'' = Some ''closed'')"
      using assms(1) h by (auto simp: close_script_def rbind_exists rbind_if rbind_assoc hg split: if_splits)
    with h show ?thesis by auto
  next
    case held: True
    obtain u1 d1 where z1: "rd_ZREM rd g m d = (u1, d1)" by fastforce
    obtain u2 d2 where z2: "rd_ZREM rd sb m d1 = (u2, d2)" by fastforce
    have k1: "records_kept entry d d1" by (rule other_writes(5) [OF assms(2) z1])
    have k2: "records_kept entry d d2"
      using k1 other_writes(5) [OF assms(3) z2] by (rule records_kept_trans)
    have "entry d2 (session_key sid) = Some (VHash h, e)" using h k2 by (simp add: records_kept_def)
    then obtain d3 where d3: "rd_HSET rd (session_key sid) (closed_fields (dec_int now) reason) d2 = (Inr (), d3)"
      "record_written entry sid (Some (VHash (hset_all (closed_fields (dec_int now) reason) h), e)) d2 d3"
      by (rule hset_record [OF _ fields_nonempty(3)])
    have "record_written entry sid (Some (VHash (hset_all (closed_fields (dec_int now) reason) h), e)) d d3"
      using record_written_kept(2) [OF k2 d3(2)] .
    then show ?thesis
      using assms(1) h held z1 z2 d3(1) k1 k2
      by (cases u1; cases u2) (auto simp: close_script_def rbind_exists rbind_if rbind_assoc hg)
  qed
qed

subsection \<open>Creating\<close>

lemma create_existing_effect:
  assumes "create_existing rd (session_key sid) now fp sid d = (r, d')"
  shows "(d' = d \<and> (r = Inr [RespInt 1, RespBulk sid] \<longrightarrow>
      (\<exists>h e. entry d (session_key sid) = Some (VHash h, e) \<and> mget h ''state'' = Some ''issued'' \<and>
         mget h ''fingerprint'' = Some fp))) \<and>
      (\<forall>c s. r = Inr [RespInt c, RespBulk s] \<longrightarrow> s = sid \<and> c \<in> {1, 2, 3}) \<or>
    (\<exists>h e. r = Inr [RespInt 3, RespBulk sid] \<and> entry d (session_key sid) = Some (VHash h, e) \<and>
      mget h ''state'' = Some ''issued'' \<and>
      record_written entry sid (Some (VHash (hset_all (expired_fields now) h), e)) d d')"
proof (cases "\<exists>h e. entry d (session_key sid) = Some (VHash h, e)")
  case False
  then have "(\<exists>er. rd_HGET rd (session_key sid) ''fingerprint'' d = (Inl er, d)) \<or>
      rd_HGET rd (session_key sid) ''fingerprint'' d = (Inr None, d)"
    by (auto simp: hget_law as_hash_def split: redis_value.splits prod.splits option.splits)
  then show ?thesis using assms by (auto simp: create_existing_def)
next
  case True
  then obtain h e where h: "entry d (session_key sid) = Some (VHash h, e)" by blast
  note hg = hget_hash [OF h]
  show ?thesis
  proof (cases "mget h ''fingerprint'' = Some fp \<and> mget h ''state'' = Some ''issued''")
    case False
    then show ?thesis
      using assms by (auto simp: create_existing_def hg lua_unclaimable_def split: option.splits if_splits)
  next
    case live: True
    obtain dead where dead: "lua_unclaimable (Some ''issued'') (lua_tonumber now) (mget h ''ticket_expires_at'') d = (dead, d)"
      using lua_reads(2) by (metis surj_pair)
    obtain d1 where d1: "rd_HSET rd (session_key sid) (expired_fields now) d = (Inr (), d1)"
      "record_written entry sid (Some (VHash (hset_all (expired_fields now) h), e)) d d1"
      by (rule hset_record [OF h fields_nonempty(1)])
    show ?thesis
      using assms live dead d1 h
      by (cases dead) (auto simp: create_existing_def hg split: if_splits)
  qed
qed

lemma hset_each_fresh:
  assumes "as_hash (entry d (session_key sid)) = Some (h, e)" and "fvs \<noteq> []"
  shows "\<exists>d'. hset_each rd (session_key sid) fvs d = (Inr (), d') \<and> clock d' = clock d \<and>
    record_written entry sid (Some (VHash (hset_all fvs h), e)) d d'"
  using assms
proof (induction fvs arbitrary: d h)
  case (Cons fv fvs)
  obtain f v where fv: "fv = (f, v)" by (cases fv)
  obtain d1 where d1: "rd_HSET rd (session_key sid) [fv] d = (Inr (), d1)" "clock d1 = clock d"
    "entry d1 = (entry d)(session_key sid := Some (VHash (mput f v h), e))"
    using hset_law [of "[fv]", where d = d and k = "session_key sid"] Cons.prems(1) by (auto simp: fv)
  have w: "record_written entry sid (Some (VHash (mput f v h), e)) d d1"
    by (simp add: record_written_def d1(3))
  show ?case
  proof (cases "fvs = []")
    case True
    with d1 w show ?thesis by (simp add: fv)
  next
    case False
    have "as_hash (entry d1 (session_key sid)) = Some (mput f v h, e)" by (simp add: d1(3) as_hash_def)
    from Cons.IH [OF this False] obtain d2 where d2: "hset_each rd (session_key sid) fvs d1 = (Inr (), d2)"
      "clock d2 = clock d1" "record_written entry sid (Some (VHash (hset_all fvs (mput f v h)), e)) d1 d2"
      by blast
    have "record_written entry sid (Some (VHash (hset_all fvs (mput f v h)), e)) d d2"
      using w d2(3) by (simp add: record_written_def)
    with d1 d2 show ?thesis by (simp add: fv)
  qed
qed simp

lemma create_new_effect:
  assumes "create_new rd ik (session_key sid) sid fvs tomb d = (r, d')"
    and "fvs \<noteq> []" and "\<And>j. ik \<noteq> session_key j" and "redis_phase entry d sid = Absent"
  shows "(d' = d \<and> (\<exists>er. r = Inl er)) \<or>
    (r = Inr [RespInt 0, RespBulk sid] \<and>
      record_written entry sid (entry_at (clock d) (Some (VHash (hset_all fvs []), Some tomb))) d d')"
proof (cases "entry d (session_key sid)")
  case None
  then have "as_hash (entry d (session_key sid)) = Some ([], None)" by (simp add: as_hash_def)
  from hset_each_fresh [OF this assms(2)] obtain d1 where
    d1: "hset_each rd (session_key sid) fvs d = (Inr (), d1)" "clock d1 = clock d"
      "record_written entry sid (Some (VHash (hset_all fvs []), None)) d d1"
    by blast
  then have "entry d1 (session_key sid) = Some (VHash (hset_all fvs []), None)"
    by (simp add: record_written_def)
  then obtain d2 where d2: "rd_PEXPIREAT rd (session_key sid) tomb d1 = (Inr (), d2)"
    "record_written entry sid (entry_at (clock d) (Some (VHash (hset_all fvs []), Some tomb))) d1 d2"
    unfolding d1(2) [symmetric] by (rule pexpireat_record)
  obtain d3 where d3: "rd_SET_PXAT rd ik sid tomb d2 = (Inr (), d3)" using set_law by metis
  have "record_written entry sid (entry_at (clock d) (Some (VHash (hset_all fvs []), Some tomb))) d d2"
    using d1(3) d2(2) by (simp add: record_written_def)
  then have "record_written entry sid (entry_at (clock d) (Some (VHash (hset_all fvs []), Some tomb))) d d3"
    using other_writes(1) [OF assms(3) d3] by (rule record_written_kept(1))
  then show ?thesis
    using assms(1) d1(1) d2(1) d3 by (auto simp: create_new_def)
next
  case (Some p)
  then have "as_hash (entry d (session_key sid)) = None"
    using assms(4) by (auto simp: redis_phase_def entry_phase_def as_hash_def hash_phase_def
        split: redis_value.splits prod.splits if_splits)
  then have "rd_HSET rd (session_key sid) [hd fvs] d = (Inl (ErrText ''WRONGTYPE''), d)"
    using hset_law [of "[hd fvs]", where d = d and k = "session_key sid"] by simp
  then have "\<exists>er. hset_each rd (session_key sid) fvs d = (Inl er, d)"
    using assms(2) by (cases fvs) auto
  then show ?thesis using assms(1) by (auto simp: create_new_def)
qed

end

section \<open>What a script does to the phases\<close>

lemma phase_of_fields [simp]:
  "hash_phase (hset_all (expired_fields now) h) = PClosed"
  "hash_phase (hset_all (closed_fields now reason) h) = PClosed"
  "hash_phase (hset_all (claimed_fields now ex lease tomb) h) = PClaimed lease"
  by (simp_all add: hash_phase_def expired_fields_def closed_fields_def claimed_fields_def field_def)

lemma id_of_fields [simp]:
  "mget (hset_all (expired_fields now) h) ''id'' = mget h ''id''"
  "mget (hset_all (closed_fields now reason) h) ''id'' = mget h ''id''"
  "mget (hset_all (claimed_fields now ex lease tomb) h) ''id'' = mget h ''id''"
  by (simp_all add: expired_fields_def closed_fields_def claimed_fields_def)

lemma entry_at_hash: "entry_at now (Some (VHash h, Some t)) \<in> {None, Some (VHash h, Some t)}"
  by simp

lemma entry_phase_simps [simp]:
  "entry_phase (Some (VHash h, e)) = hash_phase h" "entry_phase None = Absent"
  by (simp_all add: entry_phase_def)

lemma hash_phase_issued:
  "mget h ''state'' = Some ''issued'' \<Longrightarrow>
   hash_phase h = PIssued (case hex_decode (field h ''ticket_digest'') of Some b \<Rightarrow> b | None \<Rightarrow> [])"
  by (simp add: hash_phase_def)

text \<open>Writing the record of one session is harmless when its phase moves forward and its identifier stays.\<close>

lemma record_written_lives:
  assumes "record_written entry sid en d d'" and "redis_inv entry d"
    and "lives (redis_phase entry d sid) (entry_phase en)"
    and "\<And>h e. en = Some (VHash h, e) \<Longrightarrow> mget h ''id'' = Some sid"
  shows "redis_inv entry d' \<and> (\<forall>j. lives (redis_phase entry d j) (redis_phase entry d' j))"
  using record_written_inv [OF assms(1,2,4)] assms(3) record_written_phase [OF assms(1)] by simp

definition forward :: "('d \<Rightarrow> string \<Rightarrow> redis_entry) \<Rightarrow> 'd \<Rightarrow> 'd \<Rightarrow> bool" where
  "forward entry d d' \<longleftrightarrow>
     redis_inv entry d' \<and> (\<forall>j. lives (redis_phase entry d j) (redis_phase entry d' j))"

lemma forward_trans: "forward entry a b \<Longrightarrow> forward entry b c \<Longrightarrow> forward entry a c"
  unfolding forward_def by (meson rtranclp_trans)

lemma forward_kept: "redis_inv entry d \<Longrightarrow> records_kept entry d d' \<Longrightarrow> forward entry d d'"
  by (simp add: forward_def records_kept_phase records_kept_inv)

lemma claim_codes:
  assumes "claim_script rd sk g sb ik now dg ma mp ex lease m tomb d = (Inr vs, d')"
  shows "\<exists>c. vs = [RespInt c] \<and> c \<in> {0, 1, 2, 3, 4}"
  using assms unfolding claim_script_def claim_check_def claim_take_def
  by (auto elim!: rbind_cases split: if_splits)

lemma close_codes:
  assumes "close_script rd sk g sb lease reason now m d = (Inr vs, d')"
  shows "\<exists>c. vs = [RespInt c] \<and> c \<in> {0, 1, 2}"
  using assms unfolding close_script_def
  by (auto elim!: rbind_cases split: if_splits)

lemma create_existing_codes:
  assumes "create_existing rd ek now fp sid d = (Inr vs, d')"
  shows "\<exists>c. vs = [RespInt c, RespBulk sid] \<and> c \<in> {1, 2, 3}"
  using assms unfolding create_existing_def
  by (auto elim!: rbind_cases split: if_splits option.splits)

context redis_server
begin

lemma claim_script_step:
  assumes "claim_script rd (session_key sid) global_leases_key (subject_leases_key sha sub) (idem_key sha key)
      now (hex_encode dg) ma mp ex lease m tomb d = (r, d')"
    and "redis_inv entry d"
  shows "forward entry d d'"
    and "r = Inr [RespInt 0] \<Longrightarrow>
      redis_phase entry d sid = PIssued dg \<and> redis_phase entry d' sid \<in> {PClaimed lease, Absent}"
proof -
  from claim_script_effect [OF assms(1)] consider
    (kept) "records_kept entry d d'" "r \<noteq> Inr [RespInt 0]"
  | (wrote) h e en where "entry d (session_key sid) = Some (VHash h, e)" "mget h ''state'' = Some ''issued''"
      "record_written entry sid en d d'" "claim_writes (clock d) (hex_encode dg) now ex lease tomb h e r en"
    by fastforce
  then have "forward entry d d' \<and> (r = Inr [RespInt 0] \<longrightarrow>
      redis_phase entry d sid = PIssued dg \<and> redis_phase entry d' sid \<in> {PClaimed lease, Absent})"
  proof cases
    case kept
    then show ?thesis using forward_kept [OF assms(2)] by simp
  next
    case wrote
    have sid: "mget h ''id'' = Some sid" using assms(2) wrote(1) unfolding redis_inv_def by blast
    have ph: "redis_phase entry d sid = PIssued (case hex_decode (field h ''ticket_digest'') of Some b \<Rightarrow> b | None \<Rightarrow> [])"
      using wrote(1,2) by (simp add: redis_phase_def hash_phase_issued)
    have en: "entry_phase en \<in> {PClosed, PClaimed lease, Absent}"
      and idk: "\<And>h' e'. en = Some (VHash h', e') \<Longrightarrow> mget h' ''id'' = Some sid"
      using wrote(4) sid unfolding claim_writes_def by (auto split: if_splits)
    have "forward entry d d'"
      unfolding forward_def
      by (rule record_written_lives [OF wrote(3) assms(2)]) (use en ph idk in auto)
    moreover have "redis_phase entry d sid = PIssued dg \<and> entry_phase en \<in> {PClaimed lease, Absent}"
      if "r = Inr [RespInt 0]"
      using wrote(4) that ph unfolding claim_writes_def by auto
    ultimately show ?thesis using record_written_phase [OF wrote(3), of sid] by simp
  qed
  then show "forward entry d d'"
    and "r = Inr [RespInt 0] \<Longrightarrow>
      redis_phase entry d sid = PIssued dg \<and> redis_phase entry d' sid \<in> {PClaimed lease, Absent}"
    by blast+
qed

lemma close_script_step:
  assumes "close_script rd (session_key sid) global_leases_key (subject_leases_key sha sub) lease reason now m d = (r, d')"
    and "redis_inv entry d"
  shows "forward entry d d'" and "r = Inr [RespInt 0] \<Longrightarrow> redis_phase entry d' sid = PClosed"
proof -
  from close_script_effect [OF assms(1)] consider
    (kept) "records_kept entry d d'"
      "r = Inr [RespInt 0] \<longrightarrow> (\<exists>h e. entry d (session_key sid) = Some (VHash h, e) \<and> mget h ''state'' = Some ''closed'')"
  | (wrote) h e where "entry d (session_key sid) = Some (VHash h, e)" "mget h ''state'' = Some ''claimed''"
      "record_written entry sid (Some (VHash (hset_all (closed_fields (dec_int now) reason) h), e)) d d'"
    by fastforce
  then have "forward entry d d' \<and> (r = Inr [RespInt 0] \<longrightarrow> redis_phase entry d' sid = PClosed)"
  proof cases
    case kept
    then show ?thesis
      using forward_kept [OF assms(2)] records_kept_phase [OF kept(1), of sid]
      by (auto simp: redis_phase_def hash_phase_def)
  next
    case wrote
    have sid: "mget h ''id'' = Some sid" using assms(2) wrote(1) unfolding redis_inv_def by blast
    have "redis_phase entry d sid = PClaimed (field h ''lease_id'')"
      using wrote(1,2) by (simp add: redis_phase_def hash_phase_def)
    then have "forward entry d d'"
      unfolding forward_def using sid
      by (intro record_written_lives [OF wrote(3) assms(2)]) auto
    then show ?thesis using record_written_phase [OF wrote(3), of sid] by simp
  qed
  then show "forward entry d d'" and "r = Inr [RespInt 0] \<Longrightarrow> redis_phase entry d' sid = PClosed"
    by blast+
qed

text \<open>Creation of an identifier that is not in use: the other phases move forward, this one becomes issued.\<close>

lemma create_script_step:
  assumes "create_script rd (idem_key sha key) (session_key (s_ID c)) session_prefix now (hex_encode (s_RequestFingerprint c))
      (s_ID c) (encode c) tomb d = (r, d')"
    and "redis_inv entry d" and "redis_phase entry d (s_ID c) = Absent" and "s_State c = StateIssued"
  shows "redis_inv entry d'"
    and "j \<noteq> s_ID c \<Longrightarrow> lives (redis_phase entry d j) (redis_phase entry d' j)"
    and "redis_phase entry d' (s_ID c) \<in> {Absent, PIssued (s_TicketDigest c)}"
    and "r = Inr vs \<Longrightarrow> \<exists>code sid. vs = [RespInt code, RespBulk sid] \<and>
      (code = 0 \<and> sid = s_ID c \<or> code \<in> {2, 3} \<or>
       code = 1 \<and> (\<exists>h e. entry d' (session_key sid) = Some (VHash h, e) \<and> mget h ''state'' = Some ''issued'' \<and>
         mget h ''fingerprint'' = Some (hex_encode (s_RequestFingerprint c))))"
proof -
  obtain found where get: "rd_GET rd (idem_key sha key) d = (found, d)"
    using reads(1) by (metis surj_pair)
  consider (lost) e where "found = Inl e" | (known) sid where "found = Inr (Some sid)" | (unknown) "found = Inr None"
    by (metis option.exhaust sum.exhaust)
  then have "redis_inv entry d' \<and>
      (\<forall>j. j \<noteq> s_ID c \<longrightarrow> lives (redis_phase entry d j) (redis_phase entry d' j)) \<and>
      redis_phase entry d' (s_ID c) \<in> {Absent, PIssued (s_TicketDigest c)} \<and>
      (\<forall>vs. r = Inr vs \<longrightarrow> (\<exists>code sid. vs = [RespInt code, RespBulk sid] \<and>
        (code = 0 \<and> sid = s_ID c \<or> code \<in> {2, 3} \<or>
         code = 1 \<and> (\<exists>h e. entry d' (session_key sid) = Some (VHash h, e) \<and> mget h ''state'' = Some ''issued'' \<and>
           mget h ''fingerprint'' = Some (hex_encode (s_RequestFingerprint c))))))"
  proof cases
    case lost
    then have "d' = d" and "r = Inl e" using assms(1) get by (simp_all add: create_script_def)
    then show ?thesis using assms(2,3) by simp
  next
    case known
    then have run: "create_existing rd (session_key sid) now (hex_encode (s_RequestFingerprint c)) sid d = (r, d')"
      using assms(1) get by (simp add: create_script_def session_key_def)
    have codes: "\<exists>code. vs = [RespInt code, RespBulk sid] \<and> code \<in> {1, 2, 3}" if "r = Inr vs" for vs
      using create_existing_codes run that by metis
    from create_existing_effect [OF run] show ?thesis
    proof (elim disjE exE conjE)
      fix h e
      assume w: "r = Inr [RespInt 3, RespBulk sid]" "entry d (session_key sid) = Some (VHash h, e)"
        "mget h ''state'' = Some ''issued''"
        "record_written entry sid (Some (VHash (hset_all (expired_fields now) h), e)) d d'"
      have "mget h ''id'' = Some sid" using assms(2) w(2) unfolding redis_inv_def by blast
      moreover have "redis_phase entry d sid = hash_phase h" using w(2) by (simp add: redis_phase_def)
      ultimately have f: "redis_inv entry d' \<and> (\<forall>j. lives (redis_phase entry d j) (redis_phase entry d' j))"
        using w(3) by (intro record_written_lives [OF w(4) assms(2)]) (auto simp: hash_phase_issued)
      moreover have "redis_phase entry d' (s_ID c) = Absent" using f assms(3) by (metis lives_Absent)
      ultimately show ?thesis using w(1) by simp
    qed (use assms(2,3) codes in fastforce)
  next
    case unknown
    then have run: "create_new rd (idem_key sha key) (session_key (s_ID c)) (s_ID c) (encode c) tomb d = (r, d')"
      using assms(1) get by (simp add: create_script_def)
    have ne: "encode c \<noteq> []" by (simp add: encode_def)
    have hash: "mget (hset_all (encode c) []) ''id'' = Some (s_ID c)"
      "hash_phase (hset_all (encode c) []) = PIssued (s_TicketDigest c)"
    proof -
      have "mget (session_hash c) ''id'' = Some (s_ID c)" "mget (session_hash c) ''state'' = Some ''issued''"
        unfolding session_hash_def mget_hset_all_distinct [OF encode_names_distinct]
        by (simp_all add: encode_def assms(4))
      then show "mget (hset_all (encode c) []) ''id'' = Some (s_ID c)"
        "hash_phase (hset_all (encode c) []) = PIssued (s_TicketDigest c)"
        using session_hash_fields(4) [of c] unfolding session_hash_def [symmetric]
        by (simp_all add: hash_phase_issued)
    qed
    from create_new_effect [OF run ne other_keys(1) assms(3)] show ?thesis
    proof (elim disjE conjE exE)
      assume ok: "r = Inr [RespInt 0, RespBulk (s_ID c)]"
        and w: "record_written entry (s_ID c) (entry_at (clock d) (Some (VHash (hset_all (encode c) []), Some tomb))) d d'"
      have "redis_inv entry d'"
        by (rule record_written_inv [OF w assms(2)]) (use hash in \<open>auto split: if_splits\<close>)
      then show ?thesis
        using ok record_written_phase [OF w] hash by (auto split: if_splits)
    qed (use assms(2,3) in auto)
  qed
  then show "redis_inv entry d'"
    and "j \<noteq> s_ID c \<Longrightarrow> lives (redis_phase entry d j) (redis_phase entry d' j)"
    and "redis_phase entry d' (s_ID c) \<in> {Absent, PIssued (s_TicketDigest c)}"
    and "r = Inr vs \<Longrightarrow> \<exists>code sid. vs = [RespInt code, RespBulk sid] \<and>
      (code = 0 \<and> sid = s_ID c \<or> code \<in> {2, 3} \<or>
       code = 1 \<and> (\<exists>h e. entry d' (session_key sid) = Some (VHash h, e) \<and> mget h ''state'' = Some ''issued'' \<and>
         mget h ''fingerprint'' = Some (hex_encode (s_RequestFingerprint c))))"
    by blast+
qed

end

section \<open>The methods keep the contract\<close>

text \<open>While no request of this client runs, the server's clock may advance and keys may expire.\<close>

definition server_ticks :: "('d \<Rightarrow> string \<Rightarrow> redis_entry) \<Rightarrow> ('d \<Rightarrow> int) \<Rightarrow> 'd \<Rightarrow> 'd \<Rightarrow> bool" where
  "server_ticks entry clock d d' \<longleftrightarrow> clock d \<le> clock d' \<and> (\<forall>k. entry d' k = entry_at (clock d') (entry d k))"

lemma entry_at_cases: "entry_at now en = en \<or> entry_at now en = None"
  by (cases "(now, en)" rule: entry_at.cases) auto

lemma ticks_forward:
  assumes "server_ticks entry clock d d'" and "redis_inv entry d"
  shows "forward entry d d'"
proof -
  have step: "entry d' k = entry d k \<or> entry d' k = None" for k
    using assms(1) entry_at_cases unfolding server_ticks_def by metis
  have "redis_inv entry d'"
    using assms(2) step unfolding redis_inv_def by (metis option.distinct(1))
  moreover have "lives (redis_phase entry d j) (redis_phase entry d' j)" for j
    using step [of "session_key j"] by (auto simp: redis_phase_def)
  ultimately show ?thesis by (simp add: forward_def)
qed

lemma decode_fields:
  assumes "decode h = Inr st"
  shows "s_ID st = field h ''id''" and "hex_decode (field h ''ticket_digest'') = Some (s_TicketDigest st)"
    and "hex_decode (field h ''fingerprint'') = Some (s_RequestFingerprint st)"
  using assms
  by (auto simp: decode_def result_bind_def decode32_def split: sum.splits option.splits if_splits)

lemma hash_phase_decoded: "decode h = Inr st \<Longrightarrow> hash_phase h = PIssued b \<Longrightarrow> s_TicketDigest st = b"
  by (simp add: hash_phase_def decode_fields split: if_splits)

lemma hash_phase_present: "hash_phase h \<noteq> Absent"
  by (simp add: hash_phase_def)

locale redis_client = redis_server rd entry clock
  for rd :: "'d redis" and entry :: "'d \<Rightarrow> string \<Rightarrow> redis_entry" and clock :: "'d \<Rightarrow> int" +
  fixes sha256 :: "bytes \<Rightarrow> bytes"
    and lk :: "'d link"
  assumes before_ticks: "server_ticks entry clock d (lk_Before lk n d)"
begin

lemma trip_forward:
  assumes "trip lk n f d = (r, d')" and "redis_inv entry d"
    and "\<And>a x b. f a = (x, b) \<Longrightarrow> redis_inv entry a \<Longrightarrow> forward entry a b"
  shows "forward entry d d'"
proof -
  let ?a = "lk_Before lk n d"
  have t: "forward entry d ?a" by (rule ticks_forward [OF before_ticks assms(2)])
  then have inv: "redis_inv entry ?a" by (simp add: forward_def)
  obtain x b where run: "f ?a = (x, b)" by fastforce
  have "forward entry d b" using assms(3) [OF run inv] by (rule forward_trans [OF t])
  moreover have "d' = ?a \<or> d' = b"
    using assms(1) run by (auto simp: trip_def Let_def split: fate.splits)
  ultimately show ?thesis using t by auto
qed

lemma trip_ok:
  assumes "trip lk n f d = (Inr v, d')" and "redis_inv entry d"
  obtains a where "forward entry d a" and "f a = (Inr v, d')"
proof
  show "forward entry d (lk_Before lk n d)" by (rule ticks_forward [OF before_ticks assms(2)])
  show "f (lk_Before lk n d) = (Inr v, d')"
    using assms(1) by (auto simp: trip_def Let_def split: fate.splits)
qed

lemma trip_read:
  assumes "trip lk n f d = (r, d')" and "redis_inv entry d" and "\<And>a x b. f a = (x, b) \<Longrightarrow> b = a"
  shows "forward entry d d'"
  by (rule trip_forward [OF assms(1,2)]) (use assms(3) in \<open>auto simp: forward_def\<close>)

lemma load_step:
  assumes "load rd lk n sid d = (r, d')" and "redis_inv entry d"
  shows "forward entry d d'"
    and "r = Inr st \<Longrightarrow> \<exists>h e. entry d' (session_key sid) = Some (VHash h, e) \<and> decode h = Inr st \<and> s_ID st = sid"
proof -
  obtain x where run: "trip lk n (rd_HGETALL rd (session_key sid)) d = (x, d')"
    using assms(1) by (auto simp: load_def split: prod.splits sum.splits)
  show fw: "forward entry d d'" by (rule trip_read [OF run assms(2) reads(5)])
  show "\<exists>h e. entry d' (session_key sid) = Some (VHash h, e) \<and> decode h = Inr st \<and> s_ID st = sid" if r: "r = Inr st"
  proof -
    obtain h where x: "x = Inr h" and h: "h \<noteq> []" "decode h = Inr st"
      using assms(1) r run by (cases x) (auto simp: load_def split: if_splits)
    obtain a where a: "rd_HGETALL rd (session_key sid) a = (Inr h, d')"
      using trip_ok [OF run [unfolded x] assms(2)] by metis
    then have "a = d'" using reads(5) by metis
    then obtain e where en: "entry d' (session_key sid) = Some (VHash h, e)"
      using a h(1) by (auto simp: hgetall_law as_hash_def split: option.splits redis_value.splits prod.splits)
    moreover have "mget h ''id'' = Some sid"
      using fw en by (auto simp: forward_def redis_inv_def)
    ultimately show ?thesis using h(2) decode_fields(1) [OF h(2)] by (auto simp: field_def)
  qed
qed

text \<open>Loading writes nothing: what is still there afterwards was there before.\<close>

lemma load_fades:
  assumes "load rd lk n sid d = (r, d')"
  shows "entry d' k = entry d k \<or> entry d' k = None"
proof -
  obtain x where run: "trip lk n (rd_HGETALL rd (session_key sid)) d = (x, d')"
    using assms(1) by (auto simp: load_def split: prod.splits sum.splits)
  have "d' = lk_Before lk n d"
    using run reads(5) [of "session_key sid" "lk_Before lk n d"]
    by (auto simp: trip_def Let_def split: fate.splits) (metis prod.collapse)
  then show ?thesis
    using before_ticks [of d n] entry_at_cases unfolding server_ticks_def by metis
qed

lemma load_keeps:
  assumes "load rd lk n sid d = (r, d')" and "entry d' (session_key j) = Some p"
  shows "entry d (session_key j) = Some p"
  using load_fades [OF assms(1), of "session_key j"] assms(2) by auto

lemma redis_get_step:
  assumes "redis_GetByKey rd sha256 lk key d = (r, d')" and "redis_inv entry d"
  shows "forward entry d d'"
proof -
  obtain x d1 where run: "trip lk 0 (rd_GET rd (idem_key sha256 key)) d = (x, d1)" by fastforce
  have f1: "forward entry d d1" by (rule trip_read [OF run assms(2) reads(1)])
  then have inv1: "redis_inv entry d1" by (simp add: forward_def)
  consider "d' = d1" | sid where "load rd lk 1 sid d1 = (r, d')"
    using assms(1) run by (auto simp: redis_GetByKey_def split: sum.splits option.splits)
  then show ?thesis
  proof cases
    case 1
    then show ?thesis using f1 by simp
  next
    case 2
    then show ?thesis using forward_trans [OF f1] load_step(1) [OF _ inv1] by blast
  qed
qed

lemma redis_close_step:
  assumes "redis_CloseAndRelease rd sha256 lk sid lease reason now d = (r, d')" and "redis_inv entry d"
  shows "forward entry d d'" and "r = Inr () \<Longrightarrow> redis_phase entry d' sid = PClosed"
proof -
  obtain x d1 where run1: "trip lk 0 (rd_HGET rd (session_key sid) ''subject_id'') d = (x, d1)" by fastforce
  have f1: "forward entry d d1" by (rule trip_read [OF run1 assms(2) reads(3)])
  then have inv1: "redis_inv entry d1" by (simp add: forward_def)
  have "forward entry d d' \<and> (r = Inr () \<longrightarrow> redis_phase entry d' sid = PClosed)"
  proof (cases "\<exists>subject. x = Inr (Some subject)")
    case False
    then have "d' = d1 \<and> r \<noteq> Inr ()"
      using assms(1) run1 by (auto simp: redis_CloseAndRelease_def split: sum.splits option.splits)
    then show ?thesis using f1 by simp
  next
    case True
    then obtain subject where x: "x = Inr (Some subject)" by blast
    let ?script = "close_script rd (session_key sid) global_leases_key (subject_leases_key sha256 subject)
      lease reason (unix_milli now) sid"
    obtain y d2 where run2: "trip lk 1 ?script d1 = (y, d2)" by fastforce
    have f2: "forward entry d1 d2" by (rule trip_forward [OF run2 inv1 close_script_step(1)])
    have d': "d' = d2" and y: "r = Inr () \<Longrightarrow> \<exists>vs. y = Inr vs \<and> single_code vs \<notin> {Inr 1, Inr 2} \<and> is_ok (single_code vs)"
      using assms(1) run1 x run2
      by (auto simp: redis_CloseAndRelease_def split: sum.splits if_splits)
    have "redis_phase entry d' sid = PClosed" if "r = Inr ()"
    proof -
      obtain vs where vs: "y = Inr vs" "single_code vs \<notin> {Inr 1, Inr 2}" using y [OF \<open>r = Inr ()\<close>] by blast
      obtain a where a: "forward entry d1 a" "?script a = (Inr vs, d2)"
        using trip_ok [OF run2 [unfolded vs(1)] inv1] by metis
      obtain c where "vs = [RespInt c]" "c \<in> {0, 1, 2}" using close_codes [OF a(2)] by blast
      then have "vs = [RespInt 0]" using vs(2) by (auto simp: single_code_def)
      then show ?thesis
        using close_script_step(2) [OF a(2)] a(1) d' by (auto simp: forward_def)
    qed
    then show ?thesis using forward_trans [OF f1 f2] d' by simp
  qed
  then show "forward entry d d'" and "r = Inr () \<Longrightarrow> redis_phase entry d' sid = PClosed" by blast+
qed

lemma redis_claim_step:
  assumes "redis_ClaimAndReserve rd sha256 lk sid dg now lim d = (r, d')" and "redis_inv entry d"
  shows "forward entry d d'"
    and "r = Inr l \<Longrightarrow> redis_phase entry d sid = PIssued dg \<and> redis_phase entry d' sid = PClaimed (le_ID l) \<and>
      s_ID (le_Session l) = sid"
proof -
  obtain x d1 where run1: "trip lk 0 (rd_HMGET rd (session_key sid) [''subject_id'', ''idempotency_key'']) d = (x, d1)"
    by fastforce
  have f1: "forward entry d d1" by (rule trip_read [OF run1 assms(2) reads(4)])
  then have inv1: "redis_inv entry d1" by (simp add: forward_def)
  have "forward entry d d' \<and> (\<forall>l. r = Inr l \<longrightarrow> redis_phase entry d sid = PIssued dg \<and>
      redis_phase entry d' sid = PClaimed (le_ID l) \<and> s_ID (le_Session l) = sid)"
  proof (cases "\<exists>subject ikey. x = Inr [Some subject, Some ikey]")
    case False
    then have "d' = d1 \<and> (\<exists>e. r = Inl e)"
      using assms(1) run1 by (auto simp: redis_ClaimAndReserve_def split: sum.splits list.splits option.splits)
    then show ?thesis using f1 by auto
  next
    case True
    then obtain subject ikey where x: "x = Inr [Some subject, Some ikey]" by blast
    let ?lease = "sid @ '':lease''"
    let ?script = "claim_script rd (session_key sid) global_leases_key (subject_leases_key sha256 subject)
      (idem_key sha256 ikey) (unix_milli now) (hex_encode dg) (cl_MaxActive lim) (cl_MaxActivePerSubject lim)
      (unix_milli (now + cl_SessionMaxDuration lim)) ?lease sid
      (unix_milli (now + cl_SessionMaxDuration lim + cl_IdempotencyTTL lim))"
    obtain y d2 where run2: "trip lk 1 ?script d1 = (y, d2)" by fastforce
    have f2: "forward entry d1 d2" by (rule trip_forward [OF run2 inv1 claim_script_step(1)])
    note f12 = forward_trans [OF f1 f2]
    have inv2: "redis_inv entry d2" using f2 by (simp add: forward_def)
    show ?thesis
    proof (cases "\<exists>vs c. y = Inr vs \<and> single_code vs = Inr c \<and> c \<notin> {1, 2, 3, 4}")
      case False
      then have "d' = d2 \<and> (\<exists>e. r = Inl e)"
        using assms(1) run1 x run2
        by (cases y) (auto simp: redis_ClaimAndReserve_def Let_def split: sum.splits)
      then show ?thesis using f12 by auto
    next
      case True
      then obtain vs c where vs: "y = Inr vs" "single_code vs = Inr c" "c \<notin> {1, 2, 3, 4}" by blast
      obtain z d3 where run3: "load rd lk 2 sid d2 = (z, d3)" by fastforce
      have f3: "forward entry d2 d3" by (rule load_step(1) [OF run3 inv2])
      have d': "d' = d3" and rz: "r = (case z of Inl e \<Rightarrow> Inl e
          | Inr st \<Rightarrow> Inr \<lparr> le_ID = ?lease, le_Session = st, le_ExpiresAt = now + cl_SessionMaxDuration lim \<rparr>)"
        using assms(1) run1 x run2 vs run3
        by (auto simp: redis_ClaimAndReserve_def Let_def split: sum.splits)
      obtain a where a: "forward entry d1 a" "?script a = (Inr vs, d2)"
        using trip_ok [OF run2 [unfolded vs(1)] inv1] by metis
      have "vs = [RespInt 0]" using claim_codes [OF a(2)] vs(2,3) by (auto simp: single_code_def)
      then have ph: "redis_phase entry a sid = PIssued dg" "redis_phase entry d2 sid \<in> {PClaimed ?lease, Absent}"
        using claim_script_step(2) [OF a(2)] a(1) by (auto simp: forward_def)
      have before: "redis_phase entry d sid = PIssued dg"
        using forward_trans [OF f1 a(1)] ph(1) by (metis forward_def lives_to_issued)
      have "redis_phase entry d' sid = PClaimed ?lease \<and> s_ID st = sid" if z: "z = Inr st" for st
      proof -
        obtain h e where h: "entry d3 (session_key sid) = Some (VHash h, e)" "decode h = Inr st" "s_ID st = sid"
          using load_step(2) [OF run3 inv2 z] by blast
        have hp: "redis_phase entry d3 sid = hash_phase h" using h(1) by (simp add: redis_phase_def)
        have "lives (redis_phase entry d2 sid) (hash_phase h)" using f3 hp by (metis forward_def)
        then have p2: "redis_phase entry d2 sid = PClaimed ?lease"
          using ph(2) hash_phase_present [of h] by auto
        have "redis_phase entry d3 sid = PClaimed ?lease"
          using load_keeps [OF run3] h(1) p2 hp by (auto simp: redis_phase_def)
        then show ?thesis using d' h(3) by simp
      qed
      then show ?thesis
        using forward_trans [OF f12 f3] d' rz before by (cases z) auto
    qed
  qed
  then show "forward entry d d'"
    and "r = Inr l \<Longrightarrow> redis_phase entry d sid = PIssued dg \<and> redis_phase entry d' sid = PClaimed (le_ID l) \<and>
      s_ID (le_Session l) = sid" by blast+
qed

lemma redis_create_step:
  assumes "redis_CreateOrGet rd sha256 lk key c d = (r, d')" and "redis_inv entry d"
    and "redis_phase entry d (s_ID c) = Absent" and "s_State c = StateIssued"
  shows "redis_inv entry d' \<and> (\<forall>j. j \<noteq> s_ID c \<longrightarrow> lives (redis_phase entry d j) (redis_phase entry d' j)) \<and>
      redis_phase entry d' (s_ID c) \<in> {Absent, PIssued (s_TicketDigest c)}"
    and "r = Inr (st, False) \<Longrightarrow> redis_phase entry d' (s_ID c) = PIssued (s_TicketDigest c) \<and> s_ID st = s_ID c \<and>
      s_TicketDigest st = s_TicketDigest c"
    and "r = Inr (st, True) \<Longrightarrow> redis_phase entry d' (s_ID st) = PIssued (s_TicketDigest st) \<and>
      s_RequestFingerprint st = s_RequestFingerprint c"
proof -
  let ?script = "create_script rd (idem_key sha256 key) (session_key (s_ID c)) session_prefix
    (dec_int (unix_milli (s_CreatedAt c))) (hex_encode (s_RequestFingerprint c)) (s_ID c) (encode c)
    (unix_milli (s_TombstoneExpiresAt c))"
  let ?a = "lk_Before lk 0 d"
  define keeps where "keeps = (\<lambda>b. redis_inv entry b \<and>
    (\<forall>j. j \<noteq> s_ID c \<longrightarrow> lives (redis_phase entry d j) (redis_phase entry b j)) \<and>
    redis_phase entry b (s_ID c) \<in> {Absent, PIssued (s_TicketDigest c)})"
  have fa: "forward entry d ?a" by (rule ticks_forward [OF before_ticks assms(2)])
  then have inva: "redis_inv entry ?a" and absa: "redis_phase entry ?a (s_ID c) = Absent"
    using assms(3) by (auto simp: forward_def) (metis lives_Absent)
  have ka: "keeps ?a" using fa absa by (simp add: keeps_def forward_def)
  obtain y b where run: "?script ?a = (y, b)" by fastforce
  note step = create_script_step [OF run inva absa assms(4)]
  have kb: "keeps b"
    using step(1,2,3) fa unfolding keeps_def forward_def by (meson rtranclp_trans)
  consider (early) "d' = ?a \<or> d' = b" "\<And>v. r \<noteq> Inr v"
  | (loaded) vs code sid z where "y = Inr vs" "result_code_id vs = Inr (code, sid)" "code \<notin> {2, 3}"
      "load rd lk 1 sid b = (z, d')" "r = (case z of Inl e \<Rightarrow> Inl e | Inr st \<Rightarrow> Inr (st, code = 1))"
    using assms(1) run
    by (cases "lk_Fate lk 0 ?a"; cases y)
      (auto simp: redis_CreateOrGet_def trip_def Let_def split: sum.splits prod.splits if_splits)
  then have "keeps d' \<and>
    (\<forall>st. r = Inr (st, False) \<longrightarrow> redis_phase entry d' (s_ID c) = PIssued (s_TicketDigest c) \<and> s_ID st = s_ID c \<and>
      s_TicketDigest st = s_TicketDigest c) \<and>
    (\<forall>st. r = Inr (st, True) \<longrightarrow> redis_phase entry d' (s_ID st) = PIssued (s_TicketDigest st) \<and>
      s_RequestFingerprint st = s_RequestFingerprint c)"
  proof cases
    case early
    then show ?thesis using ka kb by auto
  next
    case loaded
    note fade = load_fades [OF loaded(4)]
    have invb: "redis_inv entry b" using kb by (simp add: keeps_def)
    have fl: "forward entry b d'" by (rule load_step(1) [OF loaded(4) invb])
    have "redis_phase entry d' (s_ID c) \<in> {Absent, PIssued (s_TicketDigest c)}"
      using fade [of "session_key (s_ID c)"] kb by (auto simp: redis_phase_def keeps_def)
    then have kd: "keeps d'"
      using kb fl unfolding keeps_def forward_def by (meson rtranclp_trans)
    obtain code' sid' where "vs = [RespInt code', RespBulk sid']"
      and origin: "code' = 0 \<and> sid' = s_ID c \<or> code' \<in> {2, 3} \<or>
        code' = 1 \<and> (\<exists>h e. entry b (session_key sid') = Some (VHash h, e) \<and> mget h ''state'' = Some ''issued'' \<and>
           mget h ''fingerprint'' = Some (hex_encode (s_RequestFingerprint c)))"
      using step(4) [OF loaded(1)] by blast
    then have same: "code' = code" "sid' = sid" using loaded(2) by (simp_all add: result_code_id_def single_code_def)
    have found: "\<exists>h e. entry d' (session_key sid) = Some (VHash h, e) \<and> entry b (session_key sid) = Some (VHash h, e) \<and>
        decode h = Inr st \<and> s_ID st = sid" if z: "z = Inr st" for st
      using load_step(2) [OF loaded(4) invb z] load_keeps [OF loaded(4)] by blast
    show ?thesis
    proof (cases z)
      case (Inl e)
      then show ?thesis using kd loaded(5) by simp
    next
      case (Inr st)
      obtain h e where h: "entry d' (session_key sid) = Some (VHash h, e)" "entry b (session_key sid) = Some (VHash h, e)"
        "decode h = Inr st" "s_ID st = sid"
        using found [OF Inr] by blast
      have ph: "redis_phase entry d' sid = hash_phase h" using h(1) by (simp add: redis_phase_def)
      show ?thesis
      proof (cases "code = 1")
        case True
        then have st: "mget h ''state'' = Some ''issued''" "mget h ''fingerprint'' = Some (hex_encode (s_RequestFingerprint c))"
          using origin same h(2) by auto
        have "s_RequestFingerprint st = s_RequestFingerprint c"
          using decode_fields(3) [OF h(3)] st(2) by (simp add: field_def)
        moreover have "hash_phase h = PIssued (s_TicketDigest st)"
          using st(1) decode_fields(2) [OF h(3)] by (simp add: hash_phase_issued)
        ultimately show ?thesis using kd loaded(5) Inr True ph h(4) by simp
      next
        case False
        then have sid: "sid = s_ID c" using origin same loaded(3) by auto
        then have "hash_phase h = PIssued (s_TicketDigest c)"
          using kd ph hash_phase_present [of h] by (auto simp: keeps_def)
        then show ?thesis
          using kd loaded(5) Inr False ph h(4) sid hash_phase_decoded [OF h(3)] by simp
      qed
    qed
  qed
  then show "redis_inv entry d' \<and> (\<forall>j. j \<noteq> s_ID c \<longrightarrow> lives (redis_phase entry d j) (redis_phase entry d' j)) \<and>
      redis_phase entry d' (s_ID c) \<in> {Absent, PIssued (s_TicketDigest c)}"
    and "r = Inr (st, False) \<Longrightarrow> redis_phase entry d' (s_ID c) = PIssued (s_TicketDigest c) \<and> s_ID st = s_ID c \<and>
      s_TicketDigest st = s_TicketDigest c"
    and "r = Inr (st, True) \<Longrightarrow> redis_phase entry d' (s_ID st) = PIssued (s_TicketDigest st) \<and>
      s_RequestFingerprint st = s_RequestFingerprint c"
    unfolding keeps_def by blast+
qed

end

sublocale redis_client \<subseteq> store: session_store "redis_ops rd sha256 lk" "redis_inv entry" "redis_phase entry"
proof unfold_locales
  fix s s' :: 'd and c :: session and key r and st :: session
  assume pre: "redis_inv entry s" "redis_phase entry s (s_ID c) = Absent" "s_State c = StateIssued"
  show "redis_inv entry s' \<and> (\<forall>j. j \<noteq> s_ID c \<longrightarrow> lives (redis_phase entry s j) (redis_phase entry s' j)) \<and>
      redis_phase entry s' (s_ID c) \<in> {Absent, PIssued (s_TicketDigest c)}"
    if "st_CreateOrGet (redis_ops rd sha256 lk) key c s = (r, s')"
    using redis_create_step(1) [of key c s r s'] that pre by (simp add: redis_ops_def)
  show "redis_phase entry s' (s_ID c) = PIssued (s_TicketDigest c) \<and> s_ID st = s_ID c \<and>
      s_TicketDigest st = s_TicketDigest c"
    if "st_CreateOrGet (redis_ops rd sha256 lk) key c s = (Inr (st, False), s')"
    using redis_create_step(2) [of key c s "Inr (st, False)" s'] that pre by (simp add: redis_ops_def)
  show "redis_phase entry s' (s_ID st) = PIssued (s_TicketDigest st) \<and> s_RequestFingerprint st = s_RequestFingerprint c"
    if "st_CreateOrGet (redis_ops rd sha256 lk) key c s = (Inr (st, True), s')"
    using redis_create_step(3) [of key c s "Inr (st, True)" s'] that pre by (simp add: redis_ops_def)
next
  fix s s' sid d now lim rl l
  assume inv: "redis_inv entry s"
  show "redis_inv entry s' \<and> (\<forall>j. lives (redis_phase entry s j) (redis_phase entry s' j))"
    if "st_ClaimAndReserve (redis_ops rd sha256 lk) sid d now lim s = (rl, s')"
    using redis_claim_step(1) [of sid d now lim s rl s'] that inv by (simp add: redis_ops_def forward_def)
  show "redis_phase entry s sid = PIssued d \<and> redis_phase entry s' sid = PClaimed (le_ID l) \<and> s_ID (le_Session l) = sid"
    if "st_ClaimAndReserve (redis_ops rd sha256 lk) sid d now lim s = (Inr l, s')"
    using redis_claim_step(2) [of sid d now lim s "Inr l" s'] that inv by (simp add: redis_ops_def)
next
  fix s s' sid lid reason now ru
  assume inv: "redis_inv entry s"
  show "redis_inv entry s' \<and> (\<forall>j. lives (redis_phase entry s j) (redis_phase entry s' j))"
    if "st_CloseAndRelease (redis_ops rd sha256 lk) sid lid reason now s = (ru, s')"
    using redis_close_step(1) [of sid lid reason now s ru s'] that inv by (simp add: redis_ops_def forward_def)
  show "redis_phase entry s' sid = PClosed"
    if "st_CloseAndRelease (redis_ops rd sha256 lk) sid lid reason now s = (Inr (), s')"
    using redis_close_step(2) [of sid lid reason now s "Inr ()" s'] that inv by (simp add: redis_ops_def)
next
  fix s s' key rg
  assume "redis_inv entry s" and "st_GetByKey (redis_ops rd sha256 lk) key s = (rg, s')"
  then show "redis_inv entry s' \<and> (\<forall>j. lives (redis_phase entry s j) (redis_phase entry s' j))"
    using redis_get_step [of key s rg s'] by (simp add: redis_ops_def forward_def)
qed

context redis_client
begin

lemma keeps_contract: "session_store (redis_ops rd sha256 lk) (redis_inv entry) (redis_phase entry)"
  by (rule store.session_store_axioms)

end

end
