(* ===== verification/RedisSafety.thy ===== *)
theory RedisSafety
  imports RedisContract
begin

text \<open>
  What the Redis store guarantees to many clients at once. First the decision of the claim script, as a
  function of the record and of the two lease sets, on which the theory of the scripts builds. Then a
  server whose steps are the atomic scripts of any client and the passing of time, in any order, so that
  between the requests of one method everything may happen: a session is claimed at most once. Finally
  the store as an implementation of the store contract.
\<close>

section \<open>The decision of a claim\<close>

definition unexpired :: "int \<Rightarrow> (string, int) gomap \<Rightarrow> (string, int) gomap" where
  "unexpired now z = filter (\<lambda>(m, sc). now < sc) z"

definition claim_decision ::
  "(string, string) gomap \<Rightarrow> int \<Rightarrow> (string, int) gomap \<Rightarrow> (string, int) gomap \<Rightarrow> int \<Rightarrow> string \<Rightarrow> int \<Rightarrow> int \<Rightarrow> int" where
  "claim_decision h ticket_exp global subject now digest maxActive maxPerSubject =
     (if mget h ''state'' \<noteq> Some ''issued'' \<or> now \<ge> ticket_exp then 3
      else if field h ''ticket_digest'' \<noteq> digest then 2
      else if int (length (unexpired now global)) \<ge> maxActive \<or>
              int (length (unexpired now subject)) \<ge> maxPerSubject then 4
      else 0)"

text \<open>The members of a lease set, which an absent key has none of.\<close>

definition lease_set :: "redis_entry \<Rightarrow> (string, int) gomap" where
  "lease_set en = (case en of Some (VZset z, _) \<Rightarrow> z | _ \<Rightarrow> [])"

definition lease_key :: "redis_entry \<Rightarrow> bool" where
  "lease_key en \<longleftrightarrow> (case en of None \<Rightarrow> True | Some (VZset z, _) \<Rightarrow> True | _ \<Rightarrow> False)"

lemma lease_keyE:
  assumes "lease_key en"
  obtains e where "as_zset en = Some (lease_set en, e)"
  using assms by (auto simp: lease_key_def lease_set_def as_zset_def split: option.splits redis_value.splits)

lemma lease_set_zset_entry [simp]: "lease_set (zset_entry z e) = z" "lease_key (zset_entry z e)"
  by (simp_all add: lease_set_def zset_entry_def lease_key_def)

lemma lease_set_VZset [simp]: "lease_set (Some (VZset z, e)) = z" "lease_key (Some (VZset z, e))"
  by (simp_all add: lease_set_def lease_key_def)

context redis_server
begin

lemma prune_leases:
  assumes "lease_key (entry d k)"
  obtains d' where "rd_ZREMRANGEBYSCORE rd k now d = (Inr (), d')" and "clock d' = clock d"
    and "lease_set (entry d' k) = unexpired now (lease_set (entry d k))" and "lease_key (entry d' k)"
    and "\<And>j. j \<noteq> k \<Longrightarrow> entry d' j = entry d j"
proof -
  obtain e where z: "as_zset (entry d k) = Some (lease_set (entry d k), e)" using lease_keyE [OF assms] .
  then obtain d' where "rd_ZREMRANGEBYSCORE rd k now d = (Inr (), d')" "clock d' = clock d"
    "entry d' = (entry d)(k := zset_entry (unexpired now (lease_set (entry d k))) e)"
    using zremrangebyscore_law [where d = d and k = k and mx = now] by (auto simp: unexpired_def)
  then show ?thesis by (intro that [of d']) auto
qed

lemma add_lease:
  assumes "lease_key (entry d k)"
  obtains d' where "rd_ZADD rd k sc m d = (Inr (), d')"
    and "lease_set (entry d' k) = mput m sc (lease_set (entry d k))"
    and "\<And>j. j \<noteq> k \<Longrightarrow> entry d' j = entry d j"
proof -
  obtain e where z: "as_zset (entry d k) = Some (lease_set (entry d k), e)" using lease_keyE [OF assms] .
  then obtain d' where "rd_ZADD rd k sc m d = (Inr (), d')"
    "entry d' = (entry d)(k := Some (VZset (mput m sc (lease_set (entry d k))), e))"
    using zadd_law [where d = d and k = k and sc = sc and m = m] by auto
  then show ?thesis by (intro that [of d']) auto
qed

lemma card_leases: "lease_key (entry d k) \<Longrightarrow> rd_ZCARD rd k d = (Inr (int (length (lease_set (entry d k)))), d)"
  by (erule lease_keyE) (simp add: zcard_law)

lemma claim_full_value:
  assumes "lease_key (entry d g)" and "lease_key (entry d sb)"
  shows "claim_full rd g sb ma mp d =
    (Inr (int (length (lease_set (entry d g))) \<ge> ma \<or> int (length (lease_set (entry d sb))) \<ge> mp), d)"
  by (auto simp: claim_full_def rbind_def card_leases [OF assms(1)] card_leases [OF assms(2)])

lemma pexpire_other:
  obtains d' where "rd_PEXPIREAT rd k t d = (Inr (), d')" and "\<And>j. j \<noteq> k \<Longrightarrow> entry d' j = entry d j"
  using pexpireat_law [of k t d] by auto

text \<open>The writes of a winning claim succeed and add the session to both sets.\<close>

lemma claim_take_leases:
  assumes "entry d (session_key sid) = Some (VHash h, e)" and "g \<noteq> sb" and "ik \<noteq> g" and "ik \<noteq> sb"
    and "\<And>j. g \<noteq> session_key j" and "\<And>j. sb \<noteq> session_key j"
    and "lease_key (entry d g)" and "lease_key (entry d sb)"
  obtains d' where "claim_take rd (session_key sid) g sb ik now ex lease m tomb d = (Inr [RespInt 0], d')"
    and "lease_set (entry d' g) = mput m ex (lease_set (entry d g))"
    and "lease_set (entry d' sb) = mput m ex (lease_set (entry d sb))"
proof -
  have ne: "session_key sid \<noteq> g" "session_key sid \<noteq> sb" using assms(5,6) by metis+
  obtain d1 where d1: "rd_HSET rd (session_key sid) (claimed_fields (dec_int now) (dec_int ex) lease (dec_int tomb)) d
      = (Inr (), d1)" "entry d1 g = entry d g" "entry d1 sb = entry d sb"
    using hset_law [OF fields_nonempty(2) [of "dec_int now" "dec_int ex" lease "dec_int tomb"],
        where d = d and k = "session_key sid"] assms(1) ne
    by (auto simp: as_hash_def)
  obtain d2 where d2: "rd_PEXPIREAT rd (session_key sid) tomb d1 = (Inr (), d2)"
    "entry d2 g = entry d g" "entry d2 sb = entry d sb"
    using pexpire_other [of "session_key sid" tomb d1] d1(2,3) ne by metis
  obtain d3 where d3: "rd_PEXPIREAT rd ik tomb d2 = (Inr (), d3)" "entry d3 g = entry d g" "entry d3 sb = entry d sb"
    using pexpire_other [of ik tomb d2] d2(2,3) assms(3,4) by metis
  obtain d4 where d4: "rd_ZADD rd g ex m d3 = (Inr (), d4)" "lease_set (entry d4 g) = mput m ex (lease_set (entry d g))"
    "entry d4 sb = entry d sb"
    using add_lease [of d3 g ex m] d3(2,3) assms(2,7) by metis
  obtain d5 where d5: "rd_ZADD rd sb ex m d4 = (Inr (), d5)" "lease_set (entry d5 sb) = mput m ex (lease_set (entry d sb))"
    "lease_set (entry d5 g) = mput m ex (lease_set (entry d g))"
    using add_lease [of d4 sb ex m] d4(2,3) assms(2,8) by metis
  show ?thesis
    by (rule that [OF _ d5(3,2)]) (simp add: claim_take_def d1(1) d2(1) d3(1) d4(1) d5(1))
qed

lemma claim_check_state:
  assumes "entry d (session_key sid) = Some (VHash h, e)"
    and "lua_tonumber (or_default ''0'' (mget h ''ticket_expires_at'')) = Some te"
    and "lease_key (entry d g)" and "lease_key (entry d sb)"
  shows "claim_check rd (session_key sid) g sb now dg ma mp win d =
    (if mget h ''state'' \<noteq> Some ''issued'' \<or> now \<ge> te
     then (Inr [RespInt 3], if mget h ''state'' = Some ''issued''
       then snd (rd_HSET rd (session_key sid) (expired_fields (dec_int now)) d) else d)
     else if field h ''ticket_digest'' \<noteq> dg then (Inr [RespInt 2], d)
     else if int (length (lease_set (entry d g))) \<ge> ma \<or> int (length (lease_set (entry d sb))) \<ge> mp
     then (Inr [RespInt 4], d)
     else win d)"
proof -
  note hg = hget_hash [OF assms(1)]
  have dead: "lua_unclaimable (mget h ''state'') (Some now) (mget h ''ticket_expires_at'') d =
      (Inr (mget h ''state'' \<noteq> Some ''issued'' \<or> now \<ge> te), d)"
    by (simp add: lua_unclaimable_def lua_ge_def assms(2))
  have digest: "or_default [] (mget h ''ticket_digest'') = field h ''ticket_digest''"
    by (simp add: or_default_def field_def)
  obtain d1 where set: "rd_HSET rd (session_key sid) (expired_fields (dec_int now)) d = (Inr (), d1)"
    using hset_record [OF assms(1) fields_nonempty(1)] by metis
  show ?thesis
    unfolding claim_check_def rbind_def hg dead prod.case sum.case digest lua_different_iff claim_full_value [OF assms(3,4)]
    by (simp add: set rreturn_def hg claim_full_value [OF assms(3,4)] digest lua_different_iff rbind_def)
qed

end

lemma lease_keys_differ:
  "global_leases_key \<noteq> subject_leases_key sha sub" "idem_key sha' key \<noteq> global_leases_key"
  "idem_key sha' key \<noteq> subject_leases_key sha sub"
  by (simp_all add: global_leases_key_def subject_leases_key_def idem_key_def)

lemma length_mput: "length (mput k v m) \<le> Suc (length m)"
  by (induction m) (auto simp: mput_def)

context redis_server
begin

lemma claim_script_prunes:
  assumes "entry d (session_key sid) \<noteq> None"
    and g: "lease_key (entry d global_leases_key)" and sb: "lease_key (entry d (subject_leases_key sha sub))"
  obtains d2 where "claim_script rd (session_key sid) global_leases_key (subject_leases_key sha sub) ik now dg ma mp ex lease m tomb d =
      claim_check rd (session_key sid) global_leases_key (subject_leases_key sha sub) now dg ma mp
        (claim_take rd (session_key sid) global_leases_key (subject_leases_key sha sub) ik now ex lease m tomb) d2"
    and "clock d2 = clock d"
    and "lease_set (entry d2 global_leases_key) = unexpired now (lease_set (entry d global_leases_key))"
    and "lease_set (entry d2 (subject_leases_key sha sub)) = unexpired now (lease_set (entry d (subject_leases_key sha sub)))"
    and "lease_key (entry d2 global_leases_key)" and "lease_key (entry d2 (subject_leases_key sha sub))"
    and "\<And>j. j \<notin> {global_leases_key, subject_leases_key sha sub} \<Longrightarrow> entry d2 j = entry d j"
proof -
  let ?g = global_leases_key and ?sb = "subject_leases_key sha sub"
  obtain d1 where d1: "rd_ZREMRANGEBYSCORE rd ?g now d = (Inr (), d1)" "clock d1 = clock d"
    "lease_set (entry d1 ?g) = unexpired now (lease_set (entry d ?g))" "lease_key (entry d1 ?g)"
    "\<And>j. j \<noteq> ?g \<Longrightarrow> entry d1 j = entry d j"
    using prune_leases [OF g, of now] by metis
  have sb1: "lease_key (entry d1 ?sb)" and s1: "entry d1 ?sb = entry d ?sb"
    using sb d1(5) [of ?sb] lease_keys_differ(1) [of sha sub] by auto
  obtain d2 where d2: "rd_ZREMRANGEBYSCORE rd ?sb now d1 = (Inr (), d2)" "clock d2 = clock d1"
    "lease_set (entry d2 ?sb) = unexpired now (lease_set (entry d1 ?sb))" "lease_key (entry d2 ?sb)"
    "\<And>j. j \<noteq> ?sb \<Longrightarrow> entry d2 j = entry d1 j"
    using prune_leases [OF sb1, of now] by metis
  have g2: "entry d2 ?g = entry d1 ?g" using d2(5) [of ?g] lease_keys_differ(1) by auto
  show ?thesis
  proof (rule that [of d2])
    show "claim_script rd (session_key sid) ?g ?sb ik now dg ma mp ex lease m tomb d =
      claim_check rd (session_key sid) ?g ?sb now dg ma mp (claim_take rd (session_key sid) ?g ?sb ik now ex lease m tomb) d2"
      using assms(1) by (simp add: claim_script_def rbind_exists d1(1) d2(1))
  qed (use d1 d2 s1 g2 in auto)
qed

lemma claim_script_value:
  assumes "entry d (session_key sid) = Some (VHash h, e)"
    and "lua_tonumber (or_default ''0'' (mget h ''ticket_expires_at'')) = Some te"
    and g: "lease_key (entry d global_leases_key)" and sb: "lease_key (entry d (subject_leases_key sha sub))"
  shows "\<exists>d'. claim_script rd (session_key sid) global_leases_key (subject_leases_key sha sub) (idem_key sha key)
      now dg ma mp ex lease m tomb d =
        (Inr [RespInt (claim_decision h te (lease_set (entry d global_leases_key))
           (lease_set (entry d (subject_leases_key sha sub))) now dg ma mp)], d') \<and>
    (claim_decision h te (lease_set (entry d global_leases_key))
       (lease_set (entry d (subject_leases_key sha sub))) now dg ma mp = 0 \<longrightarrow>
     lease_set (entry d' global_leases_key) = mput m ex (unexpired now (lease_set (entry d global_leases_key))) \<and>
     lease_set (entry d' (subject_leases_key sha sub)) =
       mput m ex (unexpired now (lease_set (entry d (subject_leases_key sha sub)))))"
proof -
  let ?g = global_leases_key and ?sb = "subject_leases_key sha sub"
  let ?win = "claim_take rd (session_key sid) ?g ?sb (idem_key sha key) now ex lease m tomb"
  obtain d2 where script: "claim_script rd (session_key sid) ?g ?sb (idem_key sha key) now dg ma mp ex lease m tomb d =
      claim_check rd (session_key sid) ?g ?sb now dg ma mp ?win d2"
    and d2: "lease_set (entry d2 ?g) = unexpired now (lease_set (entry d ?g))"
      "lease_set (entry d2 ?sb) = unexpired now (lease_set (entry d ?sb))"
      "lease_key (entry d2 ?g)" "lease_key (entry d2 ?sb)" "\<And>j. j \<notin> {?g, ?sb} \<Longrightarrow> entry d2 j = entry d j"
    using claim_script_prunes [OF _ g sb, of sid] assms(1) by (metis option.distinct(1))
  have at2: "entry d2 (session_key sid) = Some (VHash h, e)" using assms(1) d2(5) by simp
  obtain d3 where "?win d2 = (Inr [RespInt 0], d3)"
    "lease_set (entry d3 ?g) = mput m ex (lease_set (entry d2 ?g))"
    "lease_set (entry d3 ?sb) = mput m ex (lease_set (entry d2 ?sb))"
    using claim_take_leases [OF at2 lease_keys_differ other_keys(2,3) d2(3,4)] by metis
  then show ?thesis
    unfolding script claim_check_state [OF at2 assms(2) d2(3,4)] d2(1,2)
    by (auto simp: claim_decision_def)
qed

end

section \<open>Many clients\<close>

datatype step_label = Quiet | Offered string | Won string

inductive server_step ::
  "'d redis \<Rightarrow> ('d \<Rightarrow> string \<Rightarrow> redis_entry) \<Rightarrow> ('d \<Rightarrow> int) \<Rightarrow> (bytes \<Rightarrow> bytes) \<Rightarrow> 'd \<Rightarrow> step_label \<Rightarrow> 'd \<Rightarrow> bool"
  for rd entry clock sha where
  tick: "server_ticks entry clock d d' \<Longrightarrow> server_step rd entry clock sha d Quiet d'"
| create: "s_State c = StateIssued \<Longrightarrow>
    create_script rd (idem_key sha key) (session_key (s_ID c)) session_prefix now (hex_encode (s_RequestFingerprint c))
      (s_ID c) (encode c) tomb d = (r, d') \<Longrightarrow>
    server_step rd entry clock sha d (Offered (s_ID c)) d'"
| claim: "claim_script rd (session_key sid) global_leases_key (subject_leases_key sha sub) (idem_key sha key)
      now (hex_encode dg) ma mp ex lease m tomb d = (r, d') \<Longrightarrow>
    server_step rd entry clock sha d (if r = Inr [RespInt 0] then Won sid else Quiet) d'"
| close: "close_script rd (session_key sid) global_leases_key (subject_leases_key sha sub) lease reason now m d = (r, d') \<Longrightarrow>
    server_step rd entry clock sha d Quiet d'"

inductive server_run ::
  "'d redis \<Rightarrow> ('d \<Rightarrow> string \<Rightarrow> redis_entry) \<Rightarrow> ('d \<Rightarrow> int) \<Rightarrow> (bytes \<Rightarrow> bytes) \<Rightarrow> 'd \<Rightarrow> step_label list \<Rightarrow> 'd \<Rightarrow> bool"
  for rd entry clock sha where
  stop: "server_run rd entry clock sha d [] d"
| step: "server_step rd entry clock sha d l d1 \<Longrightarrow> server_run rd entry clock sha d1 ls d' \<Longrightarrow>
    server_run rd entry clock sha d (l # ls) d'"

fun offered :: "step_label list \<Rightarrow> string list" where
  "offered [] = []"
| "offered (Offered i # ls) = i # offered ls"
| "offered (_ # ls) = offered ls"

definition wins :: "string \<Rightarrow> step_label list \<Rightarrow> nat" where
  "wins sid ls = length (filter ((=) (Won sid)) ls)"

lemma wins_simps [simp]:
  "wins sid [] = 0" "wins sid (l # ls) = (if l = Won sid then 1 else 0) + wins sid ls"
  by (auto simp: wins_def)

text \<open>Identifiers are offered once, and none that the server already knows.\<close>

definition fresh_offers :: "('d \<Rightarrow> string \<Rightarrow> redis_entry) \<Rightarrow> 'd \<Rightarrow> step_label list \<Rightarrow> bool" where
  "fresh_offers entry d ls \<longleftrightarrow> distinct (offered ls) \<and> (\<forall>i \<in> set (offered ls). redis_phase entry d i = Absent)"

context redis_server
begin

lemma server_step_phases:
  assumes "server_step rd entry clock sha d l d'" and "redis_inv entry d"
    and "\<forall>i. l = Offered i \<longrightarrow> redis_phase entry d i = Absent"
  shows "redis_inv entry d'"
    and "l \<noteq> Offered j \<Longrightarrow> lives (redis_phase entry d j) (redis_phase entry d' j)"
    and "l = Won sid \<Longrightarrow> \<exists>b. redis_phase entry d sid = PIssued b"
    and "l = Won sid \<Longrightarrow> redis_phase entry d' sid \<noteq> PIssued b"
proof -
  have "redis_inv entry d' \<and> (\<forall>j. l \<noteq> Offered j \<longrightarrow> lives (redis_phase entry d j) (redis_phase entry d' j)) \<and>
      (\<forall>sid. l = Won sid \<longrightarrow> (\<exists>b. redis_phase entry d sid = PIssued b) \<and> (\<forall>b. redis_phase entry d' sid \<noteq> PIssued b))"
    using assms(1)
  proof cases
    case tick
    then show ?thesis using ticks_forward [OF _ assms(2)] unfolding forward_def by blast
  next
    case (create c key now tomb r)
    note step = create_script_step [OF create(3) assms(2) assms(3) [rule_format, OF create(1)] create(2)]
    show ?thesis using step(1,2) create(1) by auto
  next
    case (claim sid sub key now dg ma mp ex lease m tomb r)
    note step = claim_script_step [OF claim(2) assms(2)]
    show ?thesis
      using step claim(1) by (cases "r = Inr [RespInt 0]") (auto simp: forward_def)
  next
    case (close sid sub lease reason now m r)
    show ?thesis using close_script_step(1) [OF close(2) assms(2)] close(1) by (auto simp: forward_def)
  qed
  then show "redis_inv entry d'"
    and "l \<noteq> Offered j \<Longrightarrow> lives (redis_phase entry d j) (redis_phase entry d' j)"
    and "l = Won sid \<Longrightarrow> \<exists>b. redis_phase entry d sid = PIssued b"
    and "l = Won sid \<Longrightarrow> redis_phase entry d' sid \<noteq> PIssued b"
    by blast+
qed

lemma fresh_offers_step:
  assumes "server_step rd entry clock sha d l d'" and "redis_inv entry d" and "fresh_offers entry d (l # ls)"
  shows "redis_inv entry d'" and "fresh_offers entry d' ls"
    and "\<forall>i. l = Offered i \<longrightarrow> redis_phase entry d i = Absent"
proof -
  show absent: "\<forall>i. l = Offered i \<longrightarrow> redis_phase entry d i = Absent"
    using assms(3) by (auto simp: fresh_offers_def)
  note step = server_step_phases [OF assms(1,2) absent]
  show "redis_inv entry d'" by (rule step(1))
  have "redis_phase entry d' i = Absent" if i: "i \<in> set (offered ls)" for i
  proof -
    have "l \<noteq> Offered i" and "redis_phase entry d i = Absent"
      using assms(3) i by (cases l; auto simp: fresh_offers_def)+
    then show ?thesis using step(2) by (metis lives_Absent)
  qed
  then show "fresh_offers entry d' ls"
    using assms(3) by (cases l) (auto simp: fresh_offers_def)
qed

lemma no_win_after:
  assumes "server_run rd entry clock sha d ls d'" and "redis_inv entry d" and "fresh_offers entry d ls"
    and "sid \<notin> set (offered ls)" and "\<And>b. redis_phase entry d sid \<noteq> PIssued b"
  shows "wins sid ls = 0"
  using assms
proof (induction rule: server_run.induct)
  case (step d l d1 ls d')
  note fresh = fresh_offers_step [OF step.hyps(1) step.prems(1,2)]
  note phases = server_step_phases [OF step.hyps(1) step.prems(1) fresh(3)]
  have l: "l \<noteq> Offered sid" "sid \<notin> set (offered ls)" using step.prems(3) by (cases l; auto)+
  have "redis_phase entry d1 sid \<noteq> PIssued b" for b
    using phases(2) [OF l(1)] step.prems(4) by (metis lives_to_issued)
  then have "wins sid ls = 0" using step.IH fresh(1,2) l(2) by blast
  moreover have "l \<noteq> Won sid" using phases(3) step.prems(4) by blast
  ultimately show ?case by simp
qed simp

lemma won_at_most_once:
  assumes "server_run rd entry clock sha d ls d'" and "redis_inv entry d" and "fresh_offers entry d ls"
  shows "wins sid ls \<le> 1"
  using assms
proof (induction rule: server_run.induct)
  case (step d l d1 ls d')
  note fresh = fresh_offers_step [OF step.hyps(1) step.prems]
  note phases = server_step_phases [OF step.hyps(1) step.prems(1) fresh(3)]
  show ?case
  proof (cases "l = Won sid")
    case False
    then show ?thesis using step.IH fresh by simp
  next
    case True
    then obtain b where "redis_phase entry d sid = PIssued b" using phases(3) by blast
    then have "sid \<notin> set (offered ls)"
      using step.prems(2) True by (auto simp: fresh_offers_def)
    then have "wins sid ls = 0"
      using no_win_after [OF step.hyps(2) fresh(1,2)] phases(4) [OF True] by blast
    then show ?thesis using True by simp
  qed
qed simp

end

section \<open>A client of the table server\<close>

text \<open>Each request finds the clock a millisecond later; the second request of a method is lost when the clock is even.\<close>

definition demo_link :: "table link" where
  "demo_link =
     \<lparr> lk_Before = (\<lambda>n d. d\<lparr> tb_Clock := tb_Clock d + 1 \<rparr>),
       lk_Fate = (\<lambda>n d. if n = 1 \<and> even (tb_Clock d) then ReplyLost (ErrText ''EOF'') else Delivered) \<rparr>"

definition demo_sha :: "bytes \<Rightarrow> bytes" where
  "demo_sha b = b"

lemma entry_at_later: "now \<le> later \<Longrightarrow> entry_at later (entry_at now en) = entry_at later en"
  by (cases "(now, en)" rule: entry_at.cases) auto

lemma demo_link_ticks: "server_ticks table_entry tb_Clock d (lk_Before demo_link n d)"
  by (simp add: server_ticks_def demo_link_def table_entry_def entry_at_later)

interpretation demo_client: redis_client table_redis table_entry tb_Clock demo_sha demo_link
  by unfold_locales (rule demo_link_ticks)

text \<open>A server that knows one issued session.\<close>

definition demo_hash :: "(string, string) gomap" where
  "demo_hash = [(''id'', ''s1''), (''state'', ''issued''), (''ticket_expires_at'', ''9''), (''ticket_digest'', ''07'')]"

definition demo_server :: table where
  "demo_server = \<lparr> tb_Clock = 1, tb_Entries = [(session_key ''s1'', (VHash demo_hash, Some 90))] \<rparr>"

lemma demo_server_entries:
  "table_entry demo_server (session_key ''s1'') = Some (VHash demo_hash, Some 90)"
  "table_entry demo_server global_leases_key = None"
  "table_entry demo_server (subject_leases_key sha sub) = None"
  by (simp_all add: demo_server_def table_entry_def)

lemma demo_server_inv: "redis_inv table_entry demo_server"
  by (auto simp: redis_inv_def demo_server_def table_entry_def demo_hash_def split: if_splits)

lemma demo_hash_facts:
  "lua_tonumber (or_default ''0'' (mget demo_hash ''ticket_expires_at'')) = Some 9"
  "claim_decision demo_hash 9 [] [] 2 ''07'' 5 2 = 0"
  by (simp_all add: demo_hash_def lua_tonumber_def or_default_def parse_nat_def is_digit_def digits_value_def
      claim_decision_def field_def unexpired_def)

section \<open>Properties\<close>

text \<open>
  C8: a session is claimed at most once, however the requests of the clients interleave. In every run of
  a server that obeys the Redis laws, whose steps are the scripts of any clients with any arguments
  and the passing of time, at most one claim of a session identifier succeeds, as long as new
  identifiers are not reused.
\<close>

theorem redis_single_claim:
  assumes "redis_server rd entry clock" and "server_run rd entry clock sha d ls d'"
    and "redis_inv entry d" and "fresh_offers entry d ls"
  shows "wins sid ls \<le> 1"
  by (rule redis_server.won_at_most_once [OF assms])

theorem redis_single_claim_witness:
  "\<exists>d'. server_run table_redis table_entry tb_Clock demo_sha demo_server [Won ''s1'', Quiet] d' \<and>
     wins ''s1'' [Won ''s1'', Quiet] = 1 \<and> wins ''s1'' [Won ''s1'', Quiet] \<le> 1"
proof -
  have "hex_encode [7] = ''07''"
    by code_simp
  then obtain d1 where "claim_script table_redis (session_key ''s1'') global_leases_key (subject_leases_key demo_sha ''u'')
      (idem_key demo_sha ''k'') 2 (hex_encode [7]) 5 2 50 ''s1:lease'' ''s1'' 90 demo_server = (Inr [RespInt 0], d1)"
    using table.claim_script_value [OF demo_server_entries(1) demo_hash_facts(1), where now = 2 and dg = "''07''"
        and ma = 5 and mp = 2 and ex = 50 and sha = demo_sha and sub = "''u''" and key = "''k''"
        and lease = "''s1:lease''" and m = "''s1''" and tomb = 90] demo_hash_facts(2)
    by (auto simp: demo_server_entries lease_key_def lease_set_def)
  from server_step.claim [OF this, where entry = table_entry and clock = tb_Clock]
  have "server_step table_redis table_entry tb_Clock demo_sha demo_server (Won ''s1'') d1" by simp
  moreover have "server_step table_redis table_entry tb_Clock demo_sha d1 Quiet (lk_Before demo_link 0 d1)"
    by (rule server_step.tick) (rule demo_link_ticks)
  ultimately have run: "server_run table_redis table_entry tb_Clock demo_sha demo_server [Won ''s1'', Quiet]
      (lk_Before demo_link 0 d1)"
    by (blast intro: server_run.intros)
  have fresh: "fresh_offers table_entry demo_server [Won ''s1'', Quiet]" by (simp add: fresh_offers_def)
  show ?thesis
    using redis_single_claim [OF table.redis_server_axioms run demo_server_inv fresh, of "''s1''"] run by auto
qed

text \<open>
  C9: the Redis store implements the store contract. On every server that obeys the Redis laws, for
  every client whose requests and replies may be lost in any pattern while the server's clock
  advances, each method keeps the invariant, moves every session only forward through its life, and
  reports success only for what happened.
\<close>

theorem redis_implements_store:
  assumes "redis_server rd entry clock" and "\<And>n d. server_ticks entry clock d (lk_Before lk n d)"
  shows "session_store (redis_ops rd sha lk) (redis_inv entry) (redis_phase entry)"
proof -
  have "redis_client rd entry clock lk"
    using assms by (simp add: redis_client_def redis_client_axioms_def)
  then show ?thesis by (rule redis_client.keeps_contract)
qed

theorem redis_implements_store_witness:
  "session_store (redis_ops table_redis demo_sha demo_link) (redis_inv table_entry) (redis_phase table_entry) \<and>
   redis_inv table_entry demo_server"
  using redis_implements_store [OF table.redis_server_axioms demo_link_ticks] demo_server_inv by blast

text \<open>
  A claim decides exactly as it should, and keeps the limits. For a session record and well-typed
  lease sets the script answers 3 when the session is not issued or its ticket has expired, 2 when the
  digests differ, 4 when the unexpired leases, of all or of the subject, reach their limit, and 0
  otherwise; and when it answers 0 both sets hold the new lease and are within the limits.
\<close>

lemma redis_claim_exact:
  assumes "redis_server rd entry clock" and "entry d (session_key sid) = Some (VHash h, e)"
    and "lua_tonumber (or_default ''0'' (mget h ''ticket_expires_at'')) = Some te"
    and "lease_key (entry d global_leases_key)" and "lease_key (entry d (subject_leases_key sha sub))"
    and "claim_script rd (session_key sid) global_leases_key (subject_leases_key sha sub) (idem_key sha key)
      now dg ma mp ex lease sid tomb d = (r, d')"
  shows "r = Inr [RespInt (claim_decision h te (lease_set (entry d global_leases_key))
      (lease_set (entry d (subject_leases_key sha sub))) now dg ma mp)] \<and>
    (r = Inr [RespInt 0] \<longrightarrow>
      mget (lease_set (entry d' global_leases_key)) sid = Some ex \<and>
      mget (lease_set (entry d' (subject_leases_key sha sub))) sid = Some ex \<and>
      int (length (lease_set (entry d' global_leases_key))) \<le> ma \<and>
      int (length (lease_set (entry d' (subject_leases_key sha sub)))) \<le> mp)"
proof -
  let ?g = "lease_set (entry d global_leases_key)" and ?sb = "lease_set (entry d (subject_leases_key sha sub))"
  note exact = redis_server.claim_script_value [OF assms(1-5), where now = now and dg = dg and ma = ma and mp = mp
      and ex = ex and lease = lease and m = sid and tomb = tomb and key = key]
  have r: "r = Inr [RespInt (claim_decision h te ?g ?sb now dg ma mp)]"
    and zero: "claim_decision h te ?g ?sb now dg ma mp = 0 \<longrightarrow>
      lease_set (entry d' global_leases_key) = mput sid ex (unexpired now ?g) \<and>
      lease_set (entry d' (subject_leases_key sha sub)) = mput sid ex (unexpired now ?sb)"
    using exact assms(6) by auto
  have "int (length (mput sid ex (unexpired now ?g))) \<le> ma \<and> int (length (mput sid ex (unexpired now ?sb))) \<le> mp"
    if "claim_decision h te ?g ?sb now dg ma mp = 0"
    using that length_mput [of sid ex "unexpired now ?g"] length_mput [of sid ex "unexpired now ?sb"]
    by (auto simp: claim_decision_def split: if_splits)
  then show ?thesis using r zero by auto
qed

end
