(* ===== verification/MemoryStore.thy ===== *)
theory MemoryStore
  imports StoreContract
begin

text \<open>
  \<open>internal/store/memory/store.go\<close>: the in-process store. Every method runs under one mutex, so
  each is one atomic function from store to store. The range loops of \<open>cleanup\<close> are folds over
  the entries of the map; since each iteration changes its own entry only, the fold over the
  entries at the start of the loop is the loop, in any order (\<open>cleanup_order_irrelevant\<close>).
\<close>

section \<open>State and operations\<close>

record mem_store =
  ms_sessions :: "(string, session) gomap"
  ms_byKey :: "(string, string) gomap"
  ms_leases :: "(string, session_lease) gomap"

definition new_mem_store :: mem_store where
  "new_mem_store = \<lparr> ms_sessions = [], ms_byKey = [], ms_leases = [] \<rparr>"

definition clone :: "session \<Rightarrow> session" where
  "clone v = v\<lparr> s_Command := [] @ s_Command v, s_TicketCiphertext := [] @ s_TicketCiphertext v \<rparr>"

lemma clone_id [simp]: "clone v = v"
  by (simp add: clone_def)

definition expire_lease :: "time \<Rightarrow> string \<times> session_lease \<Rightarrow> mem_store \<Rightarrow> mem_store" where
  "expire_lease now p s =
     (case p of (sid, lease) \<Rightarrow>
        if \<not> now < le_ExpiresAt lease then
          let stored = (case mget (ms_sessions s) sid of Some st \<Rightarrow> st | None \<Rightarrow> zero_session) in
          s\<lparr> ms_leases := mdel sid (ms_leases s),
             ms_sessions :=
               mput sid (closed_session (le_ExpiresAt lease) ''max_duration'' stored)
                 (ms_sessions s) \<rparr>
        else s)"

definition purge_key :: "time \<Rightarrow> string \<times> string \<Rightarrow> mem_store \<Rightarrow> mem_store" where
  "purge_key now p s =
     (case p of (key, sid) \<Rightarrow>
        case mget (ms_sessions s) sid of
          None \<Rightarrow> s
        | Some stored \<Rightarrow>
            if \<not> now < s_TombstoneExpiresAt stored then
              s\<lparr> ms_byKey := mdel key (ms_byKey s), ms_sessions := mdel sid (ms_sessions s),
                 ms_leases := mdel sid (ms_leases s) \<rparr>
            else s)"

text \<open>The two loops over given orders of the entries, and \<open>cleanup\<close> over the order of the lists.\<close>

definition cleanup_in_order ::
  "time \<Rightarrow> (string \<times> session_lease) list \<Rightarrow> (string \<times> string) list \<Rightarrow> mem_store \<Rightarrow> mem_store" where
  "cleanup_in_order now ls ks s = fold (purge_key now) ks (fold (expire_lease now) ls s)"

definition cleanup :: "time \<Rightarrow> mem_store \<Rightarrow> mem_store" where
  "cleanup now s = cleanup_in_order now (ms_leases s) (ms_byKey s) s"

definition mem_GetByKey :: "string \<Rightarrow> mem_store \<Rightarrow> session result \<times> mem_store" where
  "mem_GetByKey key s =
     (case mget (ms_byKey s) key of
        None \<Rightarrow> (Inl (Sentinel ErrNotFound), s)
      | Some sid \<Rightarrow>
          (case mget (ms_sessions s) sid of
             None \<Rightarrow> (Inl (Sentinel ErrNotFound), s)
           | Some stored \<Rightarrow> (Inr (clone stored), s)))"

definition mem_CreateOrGet ::
  "string \<Rightarrow> session \<Rightarrow> mem_store \<Rightarrow> (session \<times> bool) result \<times> mem_store" where
  "mem_CreateOrGet key candidate s0 =
     (let s = cleanup (s_CreatedAt candidate) s0 in
      case mget (ms_byKey s) key of
        Some sid \<Rightarrow>
          let existing = (case mget (ms_sessions s) sid of Some st \<Rightarrow> st | None \<Rightarrow> zero_session) in
          if s_RequestFingerprint existing \<noteq> s_RequestFingerprint candidate
          then (Inl (Sentinel ErrConflict), s)
          else if s_State existing \<noteq> StateIssued
                  \<or> \<not> s_CreatedAt candidate < s_TicketExpiresAt existing
          then (Inl (Sentinel ErrFailedPrecondition),
                if s_State existing = StateIssued
                then s\<lparr> ms_sessions :=
                       mput sid (closed_session (s_CreatedAt candidate) ''ticket_expired'' existing)
                         (ms_sessions s) \<rparr>
                else s)
          else (Inr (clone existing, True), s)
      | None \<Rightarrow>
          (Inr (clone candidate, False),
           s\<lparr> ms_byKey := mput key (s_ID candidate) (ms_byKey s),
              ms_sessions := mput (s_ID candidate) (clone candidate) (ms_sessions s) \<rparr>))"

definition claimed_session :: "string \<Rightarrow> time \<Rightarrow> claim_limits \<Rightarrow> session \<Rightarrow> session" where
  "claimed_session leaseID now limits stored =
     (let expires = now + cl_SessionMaxDuration limits in
      stored\<lparr> s_State := StateClaimed, s_ClaimedAt := now, s_ExpiresAt := expires,
              s_TombstoneExpiresAt := expires + cl_IdempotencyTTL limits,
              s_LeaseID := leaseID, s_TicketCiphertext := [] \<rparr>)"

definition active_subject :: "(string, session_lease) gomap \<Rightarrow> string \<Rightarrow> nat" where
  "active_subject leases subject =
     length (filter (\<lambda>(_, lease). s_SubjectID (le_Session lease) = subject) leases)"

definition mem_ClaimAndReserve ::
  "string \<Rightarrow> bytes \<Rightarrow> time \<Rightarrow> claim_limits \<Rightarrow> mem_store \<Rightarrow> session_lease result \<times> mem_store" where
  "mem_ClaimAndReserve sid digest now limits s0 =
     (let s = cleanup now s0 in
      case mget (ms_sessions s) sid of
        None \<Rightarrow> (Inl (Sentinel ErrNotFound), s)
      | Some stored \<Rightarrow>
          if s_State stored \<noteq> StateIssued \<or> \<not> now < s_TicketExpiresAt stored then
            (Inl (Sentinel ErrFailedPrecondition),
             if s_State stored = StateIssued
             then s\<lparr> ms_sessions :=
                    mput sid (closed_session now ''ticket_expired'' stored) (ms_sessions s) \<rparr>
             else s)
          else if s_TicketDigest stored \<noteq> digest then (Inl (Sentinel ErrInvalidTicket), s)
          else if int (length (ms_leases s)) \<ge> cl_MaxActive limits
          then (Inl (Sentinel ErrCapacity), s)
          else if int (active_subject (ms_leases s) (s_SubjectID stored))
                  \<ge> cl_MaxActivePerSubject limits
          then (Inl (Sentinel ErrCapacity), s)
          else
            let leaseID = sid @ '':lease'';
                stored' = claimed_session leaseID now limits stored;
                lease = \<lparr> le_ID = leaseID, le_Session = clone stored',
                          le_ExpiresAt = s_ExpiresAt stored' \<rparr>
            in (Inr lease,
                s\<lparr> ms_sessions := mput sid stored' (ms_sessions s),
                   ms_leases := mput sid lease (ms_leases s) \<rparr>))"

definition mem_CloseAndRelease ::
  "string \<Rightarrow> string \<Rightarrow> string \<Rightarrow> time \<Rightarrow> mem_store \<Rightarrow> unit result \<times> mem_store" where
  "mem_CloseAndRelease sid leaseID reason now s0 =
     (let s = cleanup now s0 in
      case mget (ms_sessions s) sid of
        None \<Rightarrow> (Inl (Sentinel ErrNotFound), s)
      | Some stored \<Rightarrow>
          if s_State stored = StateClosed then (Inr (), s)
          else if s_State stored \<noteq> StateClaimed \<or> s_LeaseID stored \<noteq> leaseID
          then (Inl (Sentinel ErrFailedPrecondition), s)
          else (Inr (),
                s\<lparr> ms_leases := mdel sid (ms_leases s),
                   ms_sessions := mput sid (closed_session now reason stored) (ms_sessions s) \<rparr>))"

definition mem_Ready :: "mem_store \<Rightarrow> unit result" where
  "mem_Ready s = Inr ()"

definition memory_ops :: "mem_store store_ops" where
  "memory_ops = \<lparr> st_CreateOrGet = mem_CreateOrGet, st_GetByKey = mem_GetByKey,
     st_ClaimAndReserve = mem_ClaimAndReserve, st_CloseAndRelease = mem_CloseAndRelease,
     st_Ready = mem_Ready, st_Mode = ''memory'' \<rparr>"

section \<open>What the cleanup loops compute\<close>

abbreviation lease_expired :: "time \<Rightarrow> session_lease \<Rightarrow> bool" where
  "lease_expired now l \<equiv> le_ExpiresAt l \<le> now"

abbreviation tombstone_expired :: "time \<Rightarrow> session \<Rightarrow> bool" where
  "tombstone_expired now st \<equiv> s_TombstoneExpiresAt st \<le> now"

lemma expire_lease_maps:
  "ms_byKey (expire_lease now (i, l) s) = ms_byKey s"
  "mget (ms_leases (expire_lease now (i, l) s)) sid =
     (if sid = i \<and> lease_expired now l then None else mget (ms_leases s) sid)"
  "mget (ms_sessions (expire_lease now (i, l) s)) sid =
     (if sid = i \<and> lease_expired now l
      then Some (closed_session (le_ExpiresAt l) ''max_duration''
             (case mget (ms_sessions s) i of Some st \<Rightarrow> st | None \<Rightarrow> zero_session))
      else mget (ms_sessions s) sid)"
  "mwf (ms_leases s) \<Longrightarrow> mwf (ms_leases (expire_lease now (i, l) s))"
  "mwf (ms_sessions s) \<Longrightarrow> mwf (ms_sessions (expire_lease now (i, l) s))"
  by (auto simp: expire_lease_def Let_def)

lemma fold_expire_byKey: "ms_byKey (fold (expire_lease now) ls s) = ms_byKey s"
  by (induction ls arbitrary: s) (auto simp: expire_lease_maps)

lemma fold_expire_mwf:
  "mwf (ms_leases s) \<Longrightarrow> mwf (ms_leases (fold (expire_lease now) ls s))"
  "mwf (ms_sessions s) \<Longrightarrow> mwf (ms_sessions (fold (expire_lease now) ls s))"
  by (induction ls arbitrary: s) (auto simp: expire_lease_maps)

lemma fold_expire_leases:
  "mwf ls \<Longrightarrow> mget (ms_leases (fold (expire_lease now) ls s)) sid =
     (case mget ls sid of
        Some l \<Rightarrow> if lease_expired now l then None else mget (ms_leases s) sid
      | None \<Rightarrow> mget (ms_leases s) sid)"
proof (induction ls arbitrary: s)
  case Nil
  then show ?case by simp
next
  case (Cons p ls)
  obtain i l where p: "p = (i, l)" by (cases p)
  from Cons.prems have "mwf ls" and "mget ls i = None" by (simp_all add: p)
  with Cons.IH [of "expire_lease now p s"] show ?case
    by (cases "sid = i") (auto simp: p expire_lease_maps split: option.split)
qed

lemma fold_expire_sessions:
  "mwf ls \<Longrightarrow> mget (ms_sessions (fold (expire_lease now) ls s)) sid =
     (case mget ls sid of
        Some l \<Rightarrow>
          if lease_expired now l
          then Some (closed_session (le_ExpiresAt l) ''max_duration''
                 (case mget (ms_sessions s) sid of Some st \<Rightarrow> st | None \<Rightarrow> zero_session))
          else mget (ms_sessions s) sid
      | None \<Rightarrow> mget (ms_sessions s) sid)"
proof (induction ls arbitrary: s)
  case Nil
  then show ?case by simp
next
  case (Cons p ls)
  obtain i l where p: "p = (i, l)" by (cases p)
  from Cons.prems have "mwf ls" and "mget ls i = None" by (simp_all add: p)
  with Cons.IH [of "expire_lease now p s"] show ?case
    by (cases "sid = i") (auto simp: p expire_lease_maps split: option.split)
qed


text \<open>The second loop, for key lists in which no session identifier occurs twice.\<close>

lemma purge_key_maps:
  "mget (ms_sessions (purge_key now (k, i) s)) sid =
     (if sid = i \<and> (\<exists>st. mget (ms_sessions s) i = Some st \<and> tombstone_expired now st)
      then None else mget (ms_sessions s) sid)"
  "mget (ms_leases (purge_key now (k, i) s)) sid =
     (if sid = i \<and> (\<exists>st. mget (ms_sessions s) i = Some st \<and> tombstone_expired now st)
      then None else mget (ms_leases s) sid)"
  "mget (ms_byKey (purge_key now (k, i) s)) key =
     (if key = k \<and> (\<exists>st. mget (ms_sessions s) i = Some st \<and> tombstone_expired now st)
      then None else mget (ms_byKey s) key)"
  "mwf (ms_sessions s) \<Longrightarrow> mwf (ms_sessions (purge_key now (k, i) s))"
  "mwf (ms_leases s) \<Longrightarrow> mwf (ms_leases (purge_key now (k, i) s))"
  "mwf (ms_byKey s) \<Longrightarrow> mwf (ms_byKey (purge_key now (k, i) s))"
  by (auto simp: purge_key_def split: option.splits)

definition dead_id :: "time \<Rightarrow> mem_store \<Rightarrow> string \<Rightarrow> bool" where
  "dead_id now s i \<longleftrightarrow> (case mget (ms_sessions s) i of None \<Rightarrow> False | Some st \<Rightarrow> tombstone_expired now st)"

lemma fold_purge_mwf:
  "mwf (ms_sessions s) \<Longrightarrow> mwf (ms_sessions (fold (purge_key now) ks s))"
  "mwf (ms_leases s) \<Longrightarrow> mwf (ms_leases (fold (purge_key now) ks s))"
  "mwf (ms_byKey s) \<Longrightarrow> mwf (ms_byKey (fold (purge_key now) ks s))"
  by (induction ks arbitrary: s) (auto simp: purge_key_maps)

lemma dead_id_purge: "i \<noteq> j \<Longrightarrow> dead_id now (purge_key now (k, i) s) j = dead_id now s j"
  by (simp add: dead_id_def purge_key_maps)

lemma purge_key_dead:
  "mget (ms_sessions (purge_key now (k, i) s)) sid =
     (if sid = i \<and> dead_id now s i then None else mget (ms_sessions s) sid)"
  "mget (ms_leases (purge_key now (k, i) s)) sid =
     (if sid = i \<and> dead_id now s i then None else mget (ms_leases s) sid)"
  "mget (ms_byKey (purge_key now (k, i) s)) key =
     (if key = k \<and> dead_id now s i then None else mget (ms_byKey s) key)"
  by (auto simp: purge_key_maps dead_id_def split: option.splits)

lemma fold_purge_sessions:
  "distinct (map snd ks) \<Longrightarrow> mget (ms_sessions (fold (purge_key now) ks s)) sid =
     (if sid \<in> set (map snd ks) \<and> dead_id now s sid then None else mget (ms_sessions s) sid)"
proof (induction ks arbitrary: s)
  case Nil
  then show ?case by simp
next
  case (Cons p ks)
  obtain k i where p: "p = (k, i)" by (cases p)
  from Cons.prems have "distinct (map snd ks)" and "i \<notin> set (map snd ks)" by (auto simp: p)
  with Cons.IH [of "purge_key now p s"] show ?case
    by (cases "sid = i") (auto simp: p purge_key_dead dead_id_purge)
qed

lemma fold_purge_leases:
  "distinct (map snd ks) \<Longrightarrow> mget (ms_leases (fold (purge_key now) ks s)) sid =
     (if sid \<in> set (map snd ks) \<and> dead_id now s sid then None else mget (ms_leases s) sid)"
proof (induction ks arbitrary: s)
  case Nil
  then show ?case by simp
next
  case (Cons p ks)
  obtain k i where p: "p = (k, i)" by (cases p)
  from Cons.prems have "distinct (map snd ks)" and "i \<notin> set (map snd ks)" by (auto simp: p)
  with Cons.IH [of "purge_key now p s"] show ?case
    by (cases "sid = i") (auto simp: p purge_key_dead dead_id_purge)
qed

lemma fold_purge_byKey:
  "distinct (map snd ks) \<Longrightarrow> mwf ks \<Longrightarrow> mget (ms_byKey (fold (purge_key now) ks s)) key =
     (case mget ks key of
        Some i \<Rightarrow> if dead_id now s i then None else mget (ms_byKey s) key
      | None \<Rightarrow> mget (ms_byKey s) key)"
proof (induction ks arbitrary: s)
  case Nil
  then show ?case by simp
next
  case (Cons p ks)
  obtain k i where p: "p = (k, i)" by (cases p)
  from Cons.prems have d: "distinct (map snd ks)" "i \<notin> set (map snd ks)"
    and w: "mwf ks" "mget ks k = None"
    by (simp_all add: p)
  have "j \<noteq> i" if "mget ks key = Some j" for j
    using that d(2) by (force dest: mget_set)
  with Cons.IH [OF d(1) w(1), of "purge_key now p s"] w(2) show ?case
    by (cases "key = k") (auto simp: p purge_key_dead dead_id_purge split: option.split)
qed

section \<open>The store invariant\<close>

text \<open>
  \<open>mem_inv\<close>: the maps have one entry per key; the idempotency index is a bijection between keys
  and sessions; the leases are exactly the claimed sessions, each holding the stored session,
  its lease identifier and its expiry; and only an issued session still holds a ticket ciphertext.
\<close>

definition index_inv :: "mem_store \<Rightarrow> bool" where
  "index_inv s \<longleftrightarrow> mwf (ms_byKey s) \<and> mwf (ms_sessions s) \<and> mwf (ms_leases s) \<and>
     (\<forall>k k' i. mget (ms_byKey s) k = Some i \<and> mget (ms_byKey s) k' = Some i \<longrightarrow> k = k') \<and>
     (\<forall>i. (\<exists>k. mget (ms_byKey s) k = Some i) \<longleftrightarrow> mget (ms_sessions s) i \<noteq> None)"

definition lease_of :: "string \<Rightarrow> session \<Rightarrow> session_lease" where
  "lease_of sid st =
     \<lparr> le_ID = sid @ '':lease'', le_Session = st, le_ExpiresAt = s_ExpiresAt st \<rparr>"

definition session_ok :: "string \<Rightarrow> session \<Rightarrow> bool" where
  "session_ok sid st \<longleftrightarrow> s_ID st = sid \<and>
     s_State st \<in> {StateIssued, StateClaimed, StateClosed} \<and>
     (s_State st \<noteq> StateIssued \<longrightarrow> s_TicketCiphertext st = []) \<and>
     (s_State st = StateClaimed \<longrightarrow> s_LeaseID st = sid @ '':lease'')"

definition lease_view :: "string \<Rightarrow> session \<Rightarrow> session_lease option" where
  "lease_view sid st = (if s_State st = StateClaimed then Some (lease_of sid st) else None)"

definition lease_inv :: "mem_store \<Rightarrow> bool" where
  "lease_inv s \<longleftrightarrow>
     (\<forall>i st. mget (ms_sessions s) i = Some st \<longrightarrow> session_ok i st) \<and>
     (\<forall>i. mget (ms_leases s) i = Option.bind (mget (ms_sessions s) i) (lease_view i))"

definition mem_inv :: "mem_store \<Rightarrow> bool" where
  "mem_inv s \<longleftrightarrow> index_inv s \<and> lease_inv s"

lemma mem_inv_new: "mem_inv new_mem_store"
  by (simp add: mem_inv_def index_inv_def lease_inv_def new_mem_store_def)

lemma index_inv_ids:
  assumes "index_inv s"
  shows "distinct (map snd (ms_byKey s))"
proof -
  have wf: "mwf (ms_byKey s)"
    and inj: "\<And>k k' i. mget (ms_byKey s) k = Some i \<Longrightarrow> mget (ms_byKey s) k' = Some i \<Longrightarrow> k = k'"
    using assms by (auto simp: index_inv_def)
  have "distinct (ms_byKey s)"
    using wf by (simp add: mwf_def mkeys_def distinct_map)
  moreover have "inj_on snd (set (ms_byKey s))"
    using inj by (auto simp: inj_on_def mget_iff [OF wf, symmetric])
  ultimately show ?thesis by (simp add: distinct_map)
qed

lemma index_inv_snd:
  assumes "index_inv s"
  shows "sid \<in> set (map snd (ms_byKey s)) \<longleftrightarrow> mget (ms_sessions s) sid \<noteq> None"
proof -
  have "sid \<in> set (map snd (ms_byKey s)) \<longleftrightarrow> (\<exists>k. (k, sid) \<in> set (ms_byKey s))"
    by force
  also have "\<dots> \<longleftrightarrow> (\<exists>k. mget (ms_byKey s) k = Some sid)"
    using assms by (simp add: index_inv_def mget_iff)
  finally show ?thesis
    using assms by (simp add: index_inv_def)
qed

lemma mem_inv_ok: "mem_inv s \<Longrightarrow> mget (ms_sessions s) i = Some st \<Longrightarrow> session_ok i st"
  by (simp add: mem_inv_def lease_inv_def)

lemma mem_inv_leases:
  "mem_inv s \<Longrightarrow> mget (ms_leases s) i = Option.bind (mget (ms_sessions s) i) (lease_view i)"
  by (simp add: mem_inv_def lease_inv_def)

lemma mem_inv_index: "mem_inv s \<Longrightarrow> index_inv s"
  by (simp add: mem_inv_def)

lemma index_inv_session:
  assumes "index_inv s" and "mget (ms_byKey s) k = Some i"
  obtains st where "mget (ms_sessions s) i = Some st"
proof -
  have "(\<exists>k. mget (ms_byKey s) k = Some i) \<longleftrightarrow> mget (ms_sessions s) i \<noteq> None"
    using assms(1) by (simp add: index_inv_def)
  with assms(2) that show thesis by blast
qed

lemma index_inv_fresh: "index_inv s \<Longrightarrow> mget (ms_sessions s) i = None \<Longrightarrow> mget (ms_byKey s) k \<noteq> Some i"
  by (metis index_inv_session option.distinct(1))

lemma index_inv_mwf:
  "index_inv s \<Longrightarrow> mwf (ms_byKey s)" "index_inv s \<Longrightarrow> mwf (ms_sessions s)"
  "index_inv s \<Longrightarrow> mwf (ms_leases s)"
  by (simp_all add: index_inv_def)

section \<open>The cleanup as a function of each session\<close>

text \<open>The first loop's effect on a session, and both loops': what the next operation finds.\<close>

definition expire_session :: "time \<Rightarrow> session \<Rightarrow> session" where
  "expire_session now st =
     (if s_State st = StateClaimed \<and> s_ExpiresAt st \<le> now
      then closed_session (s_ExpiresAt st) ''max_duration'' st else st)"

definition after_cleanup :: "time \<Rightarrow> session \<Rightarrow> session option" where
  "after_cleanup now st = (if tombstone_expired now st then None else Some (expire_session now st))"

lemma expire_session_tombstone [simp]:
  "s_TombstoneExpiresAt (expire_session now st) = s_TombstoneExpiresAt st"
  by (simp add: expire_session_def)

lemma expired_sessions:
  assumes inv: "mem_inv s" and ls: "mset ls = mset (ms_leases s)"
  shows "mget (ms_sessions (fold (expire_lease now) ls s)) sid =
    map_option (expire_session now) (mget (ms_sessions s) sid)"
proof -
  have w: "mwf (ms_leases s)"
    using inv by (simp add: mem_inv_index index_inv_mwf)
  show ?thesis
    unfolding fold_expire_sessions [OF mwf_mset [OF w ls]] mget_mset [OF w ls] mem_inv_leases [OF inv]
    by (cases "mget (ms_sessions s) sid") (simp_all add: lease_view_def lease_of_def expire_session_def)
qed

lemma expired_leases:
  assumes inv: "mem_inv s" and ls: "mset ls = mset (ms_leases s)"
  shows "mget (ms_leases (fold (expire_lease now) ls s)) sid =
    Option.bind (mget (ms_sessions s) sid) (\<lambda>st. lease_view sid (expire_session now st))"
proof -
  have w: "mwf (ms_leases s)"
    using inv by (simp add: mem_inv_index index_inv_mwf)
  show ?thesis
    unfolding fold_expire_leases [OF mwf_mset [OF w ls]] mget_mset [OF w ls] mem_inv_leases [OF inv]
    by (cases "mget (ms_sessions s) sid") (simp_all add: lease_view_def lease_of_def expire_session_def)
qed

lemma dead_id_expired:
  assumes "mem_inv s" and "mset ls = mset (ms_leases s)"
  shows "dead_id now (fold (expire_lease now) ls s) sid = dead_id now s sid"
  unfolding dead_id_def expired_sessions [OF assms] by (simp split: option.split)

lemma index_order:
  assumes inv: "mem_inv s" and ks: "mset ks = mset (ms_byKey s)"
  shows "distinct (map snd ks)" "mwf ks" "mget ks key = mget (ms_byKey s) key"
    "sid \<in> set (map snd ks) \<longleftrightarrow> mget (ms_sessions s) sid \<noteq> None"
proof -
  have idx: "index_inv s" using inv by (rule mem_inv_index)
  have eq: "mset (map snd ks) = mset (map snd (ms_byKey s))" using ks by simp
  show "distinct (map snd ks)"
    using mset_eq_imp_distinct_iff [OF eq] index_inv_ids [OF idx] by simp
  show "mwf ks" "mget ks key = mget (ms_byKey s) key"
    using mwf_mset [OF _ ks] mget_mset [OF _ ks] index_inv_mwf [OF idx] by simp_all
  show "sid \<in> set (map snd ks) \<longleftrightarrow> mget (ms_sessions s) sid \<noteq> None"
    using mset_eq_setD [OF eq] index_inv_snd [OF idx, of sid] by simp
qed

lemma cleanup_in_order_sessions:
  assumes inv: "mem_inv s" and ls: "mset ls = mset (ms_leases s)" and ks: "mset ks = mset (ms_byKey s)"
  shows "mget (ms_sessions (cleanup_in_order now ls ks s)) sid =
    Option.bind (mget (ms_sessions s) sid) (after_cleanup now)"
  unfolding cleanup_in_order_def fold_purge_sessions [OF index_order(1) [OF inv ks]]
    dead_id_expired [OF inv ls] index_order(4) [OF inv ks] expired_sessions [OF inv ls]
  by (cases "mget (ms_sessions s) sid") (simp_all add: dead_id_def after_cleanup_def)

lemma cleanup_in_order_leases:
  assumes inv: "mem_inv s" and ls: "mset ls = mset (ms_leases s)" and ks: "mset ks = mset (ms_byKey s)"
  shows "mget (ms_leases (cleanup_in_order now ls ks s)) sid =
    Option.bind (Option.bind (mget (ms_sessions s) sid) (after_cleanup now)) (lease_view sid)"
  unfolding cleanup_in_order_def fold_purge_leases [OF index_order(1) [OF inv ks]]
    dead_id_expired [OF inv ls] index_order(4) [OF inv ks] expired_leases [OF inv ls]
  by (cases "mget (ms_sessions s) sid") (simp_all add: dead_id_def after_cleanup_def)

lemma cleanup_in_order_byKey:
  assumes inv: "mem_inv s" and ls: "mset ls = mset (ms_leases s)" and ks: "mset ks = mset (ms_byKey s)"
  shows "mget (ms_byKey (cleanup_in_order now ls ks s)) key =
    Option.bind (mget (ms_byKey s) key) (\<lambda>i. if dead_id now s i then None else Some i)"
  unfolding cleanup_in_order_def fold_purge_byKey [OF index_order(1,2) [OF inv ks]]
    dead_id_expired [OF inv ls] index_order(3) [OF inv ks] fold_expire_byKey
  by (cases "mget (ms_byKey s) key") simp_all

lemma cleanup_in_order_mwf:
  assumes "mem_inv s"
  shows "mwf (ms_sessions (cleanup_in_order now ls ks s))" "mwf (ms_leases (cleanup_in_order now ls ks s))"
    "mwf (ms_byKey (cleanup_in_order now ls ks s))"
  using assms
  by (simp_all add: cleanup_in_order_def mem_inv_def index_inv_def fold_purge_mwf fold_expire_mwf
      fold_expire_byKey)

lemma cleanup_sessions:
  "mem_inv s \<Longrightarrow> mget (ms_sessions (cleanup now s)) sid =
     Option.bind (mget (ms_sessions s) sid) (after_cleanup now)"
  by (simp add: cleanup_def cleanup_in_order_sessions)

lemma cleanup_leases:
  "mem_inv s \<Longrightarrow> mget (ms_leases (cleanup now s)) sid =
     Option.bind (mget (ms_sessions (cleanup now s)) sid) (lease_view sid)"
  by (simp add: cleanup_def cleanup_in_order_leases cleanup_in_order_sessions)

lemma cleanup_byKey:
  "mem_inv s \<Longrightarrow> mget (ms_byKey (cleanup now s)) key =
     Option.bind (mget (ms_byKey s) key) (\<lambda>i. if dead_id now s i then None else Some i)"
  by (simp add: cleanup_def cleanup_in_order_byKey)

section \<open>Every operation keeps the invariant\<close>

lemma cleanup_index_inv:
  assumes inv: "mem_inv s"
  shows "index_inv (cleanup now s)"
proof -
  have idx: "index_inv s" using inv by (rule mem_inv_index)
  have "(\<exists>k. mget (ms_byKey (cleanup now s)) k = Some i) \<longleftrightarrow> mget (ms_sessions (cleanup now s)) i \<noteq> None" for i
  proof -
    have "(\<exists>k. mget (ms_byKey (cleanup now s)) k = Some i) \<longleftrightarrow>
        (\<exists>k. mget (ms_byKey s) k = Some i) \<and> \<not> dead_id now s i"
      by (auto simp: cleanup_byKey [OF inv] bind_eq_Some_conv split: if_splits)
    also have "\<dots> \<longleftrightarrow> mget (ms_sessions s) i \<noteq> None \<and> \<not> dead_id now s i"
      using idx by (simp add: index_inv_def)
    finally show ?thesis
      by (simp add: cleanup_sessions [OF inv] dead_id_def after_cleanup_def split: option.split)
  qed
  moreover have "k = k'" if "mget (ms_byKey (cleanup now s)) k = Some i"
      "mget (ms_byKey (cleanup now s)) k' = Some i" for k k' i
    using that idx unfolding cleanup_byKey [OF inv] index_inv_def
    by (auto simp: bind_eq_Some_conv split: if_splits)
  ultimately show ?thesis
    using cleanup_in_order_mwf [OF inv] by (auto simp: index_inv_def cleanup_def)
qed

lemma session_ok_closed [simp]: "session_ok sid (closed_session at reason st) \<longleftrightarrow> s_ID st = sid"
  by (simp add: session_ok_def)

lemma expire_session_ok: "session_ok sid st \<Longrightarrow> session_ok sid (expire_session now st)"
  by (auto simp: expire_session_def session_ok_def)

lemma cleanup_session_ok:
  assumes inv: "mem_inv s" and "mget (ms_sessions (cleanup now s)) i = Some st"
  shows "session_ok i st"
proof -
  obtain st0 where "mget (ms_sessions s) i = Some st0" and "st = expire_session now st0"
    using assms(2) by (auto simp: cleanup_sessions [OF inv] bind_eq_Some_conv after_cleanup_def
        split: if_splits)
  then show ?thesis
    using mem_inv_ok [OF inv] by (auto intro: expire_session_ok)
qed

lemma cleanup_lease_inv: "mem_inv s \<Longrightarrow> lease_inv (cleanup now s)"
  by (simp add: lease_inv_def cleanup_leases cleanup_session_ok)

lemma cleanup_inv [simp, intro]: "mem_inv s \<Longrightarrow> mem_inv (cleanup now s)"
  by (simp add: mem_inv_def cleanup_index_inv cleanup_lease_inv)

lemma mem_upd_swap:
  "s\<lparr> ms_leases := L, ms_sessions := S \<rparr> = s\<lparr> ms_sessions := S, ms_leases := L \<rparr>"
  by simp

text \<open>Replacing one stored session, with its lease; adding a fresh one.\<close>

lemma mem_inv_update:
  assumes inv: "mem_inv s" and old: "mget (ms_sessions s) i = Some st" and ok: "session_ok i st'"
    and L: "mwf L" "\<And>j. mget L j = (if j = i then lease_view i st' else mget (ms_leases s) j)"
  shows "mem_inv (s\<lparr> ms_sessions := mput i st' (ms_sessions s), ms_leases := L \<rparr>)"
  using inv ok L old unfolding mem_inv_def index_inv_def lease_inv_def by auto

lemma mem_inv_update_unleased:
  assumes inv: "mem_inv s" and old: "mget (ms_sessions s) i = Some st" and ok: "session_ok i st'"
    and "s_State st \<noteq> StateClaimed" and "s_State st' \<noteq> StateClaimed"
  shows "mem_inv (s\<lparr> ms_sessions := mput i st' (ms_sessions s) \<rparr>)"
proof -
  have "mget (ms_leases s) j = (if j = i then lease_view i st' else mget (ms_leases s) j)" for j
    using assms by (simp add: mem_inv_leases lease_view_def)
  from mem_inv_update [OF inv old ok index_inv_mwf(3) [OF mem_inv_index [OF inv]] this]
  show ?thesis by simp
qed

lemma mem_inv_insert:
  assumes inv: "mem_inv s" and fresh: "mget (ms_sessions s) i = None" "mget (ms_byKey s) k = None"
    and ok: "session_ok i st" "s_State st \<noteq> StateClaimed"
  shows "mem_inv (s\<lparr> ms_byKey := mput k i (ms_byKey s), ms_sessions := mput i st (ms_sessions s) \<rparr>)"
    (is "mem_inv ?t")
proof -
  have idx: "index_inv s" using inv by (rule mem_inv_index)
  note none = index_inv_fresh [OF idx fresh(1)]
  have le: "mget (ms_leases s) i = None"
    using fresh(1) by (simp add: mem_inv_leases [OF inv])
  have inj: "k1 = k2" if "mget (ms_byKey ?t) k1 = Some j" "mget (ms_byKey ?t) k2 = Some j" for k1 k2 j
    using that none idx by (auto simp: index_inv_def split: if_splits)
  have cover: "(\<exists>k. mget (ms_byKey ?t) k = Some j) \<longleftrightarrow> mget (ms_sessions ?t) j \<noteq> None" for j
  proof (cases "j = i")
    case True
    then show ?thesis by auto
  next
    case False
    have "(\<exists>k. mget (ms_byKey s) k = Some j) \<longleftrightarrow> mget (ms_sessions s) j \<noteq> None"
      using idx by (simp add: index_inv_def)
    moreover have e: "mget (ms_byKey ?t) k' = Some j \<longleftrightarrow> mget (ms_byKey s) k' = Some j" for k'
      using False fresh(2) by (cases "k' = k") auto
    moreover have "mget (ms_sessions ?t) j = mget (ms_sessions s) j"
      using False by simp
    ultimately show ?thesis by (simp only: e)
  qed
  have "mwf (ms_byKey ?t) \<and> mwf (ms_sessions ?t) \<and> mwf (ms_leases ?t)"
    using idx by (simp add: index_inv_mwf)
  then have "index_inv ?t"
    unfolding index_inv_def using inj cover by blast
  moreover have "lease_inv ?t"
    using ok le by (simp add: lease_inv_def mem_inv_leases [OF inv] lease_view_def mem_inv_ok [OF inv])
  ultimately show ?thesis by (simp add: mem_inv_def)
qed

lemma mem_GetByKey_state [simp]: "snd (mem_GetByKey key s) = s"
  by (simp add: mem_GetByKey_def split: option.split)

lemma claimed_session_simps [simp]:
  "s_State (claimed_session l now lim st) = StateClaimed"
  "s_LeaseID (claimed_session l now lim st) = l"
  "s_TicketCiphertext (claimed_session l now lim st) = []"
  "s_ExpiresAt (claimed_session l now lim st) = now + cl_SessionMaxDuration lim"
  "s_TombstoneExpiresAt (claimed_session l now lim st) =
     now + cl_SessionMaxDuration lim + cl_IdempotencyTTL lim"
  "s_ClaimedAt (claimed_session l now lim st) = now"
  "s_SubjectID (claimed_session l now lim st) = s_SubjectID st"
  "s_ID (claimed_session l now lim st) = s_ID st"
  "s_TicketDigest (claimed_session l now lim st) = s_TicketDigest st"
  by (simp_all add: claimed_session_def Let_def)

lemma mem_CreateOrGet_inv:
  assumes inv: "mem_inv s" and fresh: "mget (ms_sessions s) (s_ID c) = None"
    and issued: "s_State c = StateIssued"
  shows "mem_inv (snd (mem_CreateOrGet key c s))"
proof -
  let ?s = "cleanup (s_CreatedAt c) s"
  have inv': "mem_inv ?s" using inv by simp
  have fresh': "mget (ms_sessions ?s) (s_ID c) = None"
    using fresh by (simp add: cleanup_sessions [OF inv])
  have ok: "session_ok (s_ID c) c" using issued by (simp add: session_ok_def)
  show ?thesis
  proof (cases "mget (ms_byKey ?s) key")
    case None
    then show ?thesis
      using mem_inv_insert [OF inv' fresh' None ok] issued by (simp add: mem_CreateOrGet_def Let_def)
  next
    case (Some i)
    then obtain st where st: "mget (ms_sessions ?s) i = Some st"
      by (rule index_inv_session [OF mem_inv_index [OF inv']])
    then have "s_ID st = i" using mem_inv_ok [OF inv' st] by (simp add: session_ok_def)
    with st show ?thesis
      using inv' mem_inv_update_unleased [OF inv' st]
      by (simp add: mem_CreateOrGet_def Let_def Some)
  qed
qed

lemma mem_ClaimAndReserve_inv:
  assumes inv: "mem_inv s"
  shows "mem_inv (snd (mem_ClaimAndReserve sid d now lim s))"
proof -
  let ?s = "cleanup now s"
  have inv': "mem_inv ?s" using inv by simp
  show ?thesis
  proof (cases "mget (ms_sessions ?s) sid")
    case None
    with inv' show ?thesis by (simp add: mem_ClaimAndReserve_def)
  next
    case (Some st)
    let ?c = "claimed_session (sid @ '':lease'') now lim st"
    have sid: "s_ID st = sid" using mem_inv_ok [OF inv' Some] by (simp add: session_ok_def)
    then have ok: "session_ok sid ?c" by (simp add: session_ok_def)
    have "mem_inv (?s\<lparr> ms_sessions := mput sid ?c (ms_sessions ?s),
        ms_leases := mput sid (lease_of sid ?c) (ms_leases ?s) \<rparr>)"
      using inv' by (intro mem_inv_update [OF inv' Some ok])
        (auto simp: lease_view_def mem_inv_index index_inv_mwf)
    then show ?thesis
      using inv' sid mem_inv_update_unleased [OF inv' Some]
      by (simp add: mem_ClaimAndReserve_def Let_def Some lease_of_def)
  qed
qed

lemma mem_CloseAndRelease_inv:
  assumes inv: "mem_inv s"
  shows "mem_inv (snd (mem_CloseAndRelease sid lid reason now s))"
proof -
  let ?s = "cleanup now s"
  have inv': "mem_inv ?s" using inv by simp
  show ?thesis
  proof (cases "mget (ms_sessions ?s) sid")
    case None
    with inv' show ?thesis by (simp add: mem_CloseAndRelease_def)
  next
    case (Some st)
    have sid: "s_ID st = sid" using mem_inv_ok [OF inv' Some] by (simp add: session_ok_def)
    then have "mem_inv (?s\<lparr> ms_sessions := mput sid (closed_session now reason st) (ms_sessions ?s),
        ms_leases := mdel sid (ms_leases ?s) \<rparr>)"
      using inv' by (intro mem_inv_update [OF inv' Some])
        (auto simp: lease_view_def mem_inv_index index_inv_mwf)
    then show ?thesis
      using inv' by (simp add: mem_CloseAndRelease_def Let_def Some mem_upd_swap)
  qed
qed


section \<open>The memory store implements the contract\<close>

definition mem_phase :: "mem_store \<Rightarrow> string \<Rightarrow> phase" where
  "mem_phase s i = (case mget (ms_sessions s) i of None \<Rightarrow> Absent | Some st \<Rightarrow> session_phase st)"

lemma session_phase_simps [simp]:
  "s_State st = StateIssued \<Longrightarrow> session_phase st = PIssued (s_TicketDigest st)"
  "s_State st = StateClaimed \<Longrightarrow> session_phase st = PClaimed (s_LeaseID st)"
  "s_State st = StateClosed \<Longrightarrow> session_phase st = PClosed"
  by (simp_all add: session_phase_def)

lemma lives_closed_session: "session_ok i st \<Longrightarrow> lives (session_phase st) PClosed"
  by (auto simp: session_ok_def)

lemma lives_cleanup:
  assumes inv: "mem_inv s"
  shows "lives (mem_phase s j) (mem_phase (cleanup now s) j)"
proof (cases "mget (ms_sessions s) j")
  case None
  then show ?thesis by (simp add: mem_phase_def cleanup_sessions [OF inv])
next
  case (Some st)
  have "lives (session_phase st) (session_phase (expire_session now st))"
    using mem_inv_ok [OF inv Some] lives_closed_session by (auto simp: expire_session_def)
  then show ?thesis
    by (simp add: mem_phase_def cleanup_sessions [OF inv] Some after_cleanup_def)
qed

lemma cleanup_phase_back:
  "mem_inv s \<Longrightarrow> mem_phase (cleanup now s) j = PIssued d \<Longrightarrow> mem_phase s j = PIssued d"
  using lives_cleanup [of s j now] by simp

lemma cleanup_phase_Absent: "mem_inv s \<Longrightarrow> mem_phase s j = Absent \<Longrightarrow> mem_phase (cleanup now s) j = Absent"
  using lives_cleanup [of s j now] by simp

lemma mem_phase_Absent_iff: "mem_phase s i = Absent \<longleftrightarrow> mget (ms_sessions s) i = None"
  by (auto simp: mem_phase_def session_phase_def split: option.splits session_state.splits)

text \<open>Storing one session changes the phase of its identifier only.\<close>

lemma mem_phase_mput [simp]:
  "mem_phase (s\<lparr> ms_sessions := mput i st (ms_sessions s) \<rparr>) j =
     (if j = i then session_phase st else mem_phase s j)"
  by (simp add: mem_phase_def)

lemma mem_phase_frame [simp]:
  "mem_phase (s\<lparr> ms_leases := L \<rparr>) j = mem_phase s j" "mem_phase (s\<lparr> ms_byKey := K \<rparr>) j = mem_phase s j"
  by (simp_all add: mem_phase_def)

lemma mem_phase_upd [simp]:
  "mem_phase (s\<lparr> ms_sessions := mput i st (ms_sessions s), ms_leases := L \<rparr>) j =
     (if j = i then session_phase st else mem_phase s j)"
  "mem_phase (s\<lparr> ms_leases := L, ms_sessions := mput i st (ms_sessions s) \<rparr>) j =
     (if j = i then session_phase st else mem_phase s j)"
  "mem_phase (s\<lparr> ms_byKey := K, ms_sessions := mput i st (ms_sessions s) \<rparr>) j =
     (if j = i then session_phase st else mem_phase s j)"
  by (simp_all add: mem_phase_def)


lemma mem_CreateOrGet_phase:
  assumes inv: "mem_inv s" and absent: "mem_phase s (s_ID c) = Absent"
    and issued: "s_State c = StateIssued" and eq: "mem_CreateOrGet key c s = (r, s')"
  shows "(\<forall>j. j \<noteq> s_ID c \<longrightarrow> lives (mem_phase s j) (mem_phase s' j)) \<and>
    mem_phase s' (s_ID c) = (if r = Inr (c, False) then PIssued (s_TicketDigest c) else Absent)"
    (is "?others \<and> ?own")
    and "\<And>st. r = Inr (st, False) \<Longrightarrow> st = c"
    and "\<And>st. r = Inr (st, True) \<Longrightarrow> mem_phase s' (s_ID st) = PIssued (s_TicketDigest st) \<and>
       s_RequestFingerprint st = s_RequestFingerprint c"
proof -
  let ?s = "cleanup (s_CreatedAt c) s"
  have inv': "mem_inv ?s" using inv by simp
  have c_absent: "mem_phase ?s (s_ID c) = Absent"
    using cleanup_phase_Absent [OF inv absent] .
  have live: "lives (mem_phase s j) (mem_phase ?s j)" for j
    using inv by (rule lives_cleanup)
  have "(?others \<and> ?own) \<and> (\<forall>st. r = Inr (st, False) \<longrightarrow> st = c) \<and>
    (\<forall>st. r = Inr (st, True) \<longrightarrow> mem_phase s' (s_ID st) = PIssued (s_TicketDigest st) \<and>
       s_RequestFingerprint st = s_RequestFingerprint c)"
  proof (cases "mget (ms_byKey ?s) key")
    case None
    then show ?thesis
      using eq live issued by (auto simp: mem_CreateOrGet_def Let_def)
  next
    case (Some i)
    then obtain st where st: "mget (ms_sessions ?s) i = Some st"
      by (rule index_inv_session [OF mem_inv_index [OF inv']])
    then have i: "mem_phase ?s i = session_phase st" and ok: "session_ok i st"
      using mem_inv_ok [OF inv'] by (simp_all add: mem_phase_def)
    have "i \<noteq> s_ID c"
      using st c_absent by (auto simp: mem_phase_Absent_iff)
    moreover have "lives (mem_phase s i) PClosed" if "s_State st = StateIssued"
      using live [of i] i lives_closed_session [OF ok] by (auto intro: rtranclp_trans)
    ultimately show ?thesis
      using eq live c_absent i ok
      by (auto simp: mem_CreateOrGet_def Let_def Some st session_ok_def split: if_splits)
  qed
  then show "?others \<and> ?own" and "\<And>st. r = Inr (st, False) \<Longrightarrow> st = c"
    and "\<And>st. r = Inr (st, True) \<Longrightarrow> mem_phase s' (s_ID st) = PIssued (s_TicketDigest st) \<and>
       s_RequestFingerprint st = s_RequestFingerprint c"
    by blast+
qed

lemma mem_ClaimAndReserve_phase:
  assumes inv: "mem_inv s" and eq: "mem_ClaimAndReserve sid d now lim s = (r, s')"
  shows "lives (mem_phase s j) (mem_phase s' j)"
    and "\<And>l. r = Inr l \<Longrightarrow> mem_phase s sid = PIssued d \<and> mem_phase s' sid = PClaimed (le_ID l) \<and>
       s_ID (le_Session l) = sid"
proof -
  let ?s = "cleanup now s"
  have inv': "mem_inv ?s" using inv by simp
  have live: "lives (mem_phase s j) (mem_phase ?s j)" for j
    using inv by (rule lives_cleanup)
  have "lives (mem_phase s j) (mem_phase s' j) \<and>
    (\<forall>l. r = Inr l \<longrightarrow> mem_phase s sid = PIssued d \<and> mem_phase s' sid = PClaimed (le_ID l) \<and>
       s_ID (le_Session l) = sid)"
  proof (cases "mget (ms_sessions ?s) sid")
    case None
    then show ?thesis using eq live by (auto simp: mem_ClaimAndReserve_def Let_def)
  next
    case (Some st)
    then have i: "mem_phase ?s sid = session_phase st" and ok: "s_ID st = sid"
      using mem_inv_ok [OF inv'] by (simp_all add: mem_phase_def session_ok_def)
    then have origin: "mem_phase s sid = PIssued (s_TicketDigest st)" if "s_State st = StateIssued"
      using that by (intro cleanup_phase_back [OF inv]) auto
    show ?thesis
      using eq live origin ok
      by (auto simp: mem_ClaimAndReserve_def Let_def Some split: if_splits)
  qed
  then show "lives (mem_phase s j) (mem_phase s' j)"
    and "\<And>l. r = Inr l \<Longrightarrow> mem_phase s sid = PIssued d \<and> mem_phase s' sid = PClaimed (le_ID l) \<and>
       s_ID (le_Session l) = sid"
    by blast+
qed

lemma mem_CloseAndRelease_phase:
  assumes inv: "mem_inv s" and eq: "mem_CloseAndRelease sid lid reason now s = (r, s')"
  shows "lives (mem_phase s j) (mem_phase s' j)"
    and "r = Inr () \<Longrightarrow> mem_phase s' sid = PClosed"
proof -
  let ?s = "cleanup now s"
  have inv': "mem_inv ?s" using inv by simp
  have live: "lives (mem_phase s j) (mem_phase ?s j)" for j
    using inv by (rule lives_cleanup)
  have "lives (mem_phase s j) (mem_phase s' j) \<and> (r = Inr () \<longrightarrow> mem_phase s' sid = PClosed)"
  proof (cases "mget (ms_sessions ?s) sid")
    case None
    then show ?thesis using eq live by (auto simp: mem_CloseAndRelease_def Let_def)
  next
    case (Some st)
    then have i: "mem_phase ?s sid = session_phase st" and ok: "session_ok sid st"
      using mem_inv_ok [OF inv'] by (simp_all add: mem_phase_def)
    then have "lives (mem_phase s sid) PClosed"
      using live [of sid] lives_closed_session [OF ok] by (auto intro: rtranclp_trans)
    then show ?thesis
      using eq live i
      by (auto simp: mem_CloseAndRelease_def Let_def Some split: if_splits)
  qed
  then show "lives (mem_phase s j) (mem_phase s' j)" and "r = Inr () \<Longrightarrow> mem_phase s' sid = PClosed"
    by blast+
qed

lemma memory_ops_simps [simp]:
  "st_CreateOrGet memory_ops = mem_CreateOrGet" "st_GetByKey memory_ops = mem_GetByKey"
  "st_ClaimAndReserve memory_ops = mem_ClaimAndReserve"
  "st_CloseAndRelease memory_ops = mem_CloseAndRelease"
  "st_Ready memory_ops = mem_Ready" "st_Mode memory_ops = ''memory''"
  by (simp_all add: memory_ops_def)

interpretation mem: session_store memory_ops mem_inv mem_phase
proof unfold_locales
  fix s s' :: mem_store and c key r
  assume a: "mem_inv s" "mem_phase s (s_ID c) = Absent" "s_State c = StateIssued"
    and eq: "st_CreateOrGet memory_ops key c s = (r, s')"
  have "mem_inv s'"
    using mem_CreateOrGet_inv [OF a(1) _ a(3), of key] a(2) eq by (simp add: mem_phase_Absent_iff)
  then show "mem_inv s' \<and> (\<forall>j. j \<noteq> s_ID c \<longrightarrow> lives (mem_phase s j) (mem_phase s' j)) \<and>
      mem_phase s' (s_ID c) \<in> {Absent, PIssued (s_TicketDigest c)}"
    using mem_CreateOrGet_phase(1) [OF a] eq by simp
next
  fix s s' :: mem_store and c key st
  assume a: "mem_inv s" "mem_phase s (s_ID c) = Absent" "s_State c = StateIssued"
    and eq: "st_CreateOrGet memory_ops key c s = (Inr (st, False), s')"
  have eq': "mem_CreateOrGet key c s = (Inr (st, False), s')" using eq by simp
  show "mem_phase s' (s_ID c) = PIssued (s_TicketDigest c) \<and> s_ID st = s_ID c \<and>
      s_TicketDigest st = s_TicketDigest c"
    using mem_CreateOrGet_phase(1,2) [OF a eq'] by simp
next
  fix s s' :: mem_store and c key st
  assume a: "mem_inv s" "mem_phase s (s_ID c) = Absent" "s_State c = StateIssued"
    and eq: "st_CreateOrGet memory_ops key c s = (Inr (st, True), s')"
  have eq': "mem_CreateOrGet key c s = (Inr (st, True), s')" using eq by simp
  show "mem_phase s' (s_ID st) = PIssued (s_TicketDigest st) \<and>
      s_RequestFingerprint st = s_RequestFingerprint c"
    using mem_CreateOrGet_phase(3) [OF a eq'] by simp
next
  fix s s' :: mem_store and key r
  assume "mem_inv s" and "st_GetByKey memory_ops key s = (r, s')"
  then show "mem_inv s' \<and> (\<forall>j. lives (mem_phase s j) (mem_phase s' j))"
    using mem_GetByKey_state [of key s] by simp
next
  fix s s' :: mem_store and sid d now lim r
  assume "mem_inv s" and "st_ClaimAndReserve memory_ops sid d now lim s = (r, s')"
  then show "mem_inv s' \<and> (\<forall>j. lives (mem_phase s j) (mem_phase s' j))"
    using mem_ClaimAndReserve_phase(1) [of s sid d now lim r s'] mem_ClaimAndReserve_inv [of s sid d now lim]
    by simp
next
  fix s s' :: mem_store and sid d now lim l
  assume "mem_inv s" and "st_ClaimAndReserve memory_ops sid d now lim s = (Inr l, s')"
  then show "mem_phase s sid = PIssued d \<and> mem_phase s' sid = PClaimed (le_ID l) \<and>
      s_ID (le_Session l) = sid"
    using mem_ClaimAndReserve_phase(2) [of s sid d now lim "Inr l" s' l] by simp
next
  fix s s' :: mem_store and sid lid reason now r
  assume "mem_inv s" and "st_CloseAndRelease memory_ops sid lid reason now s = (r, s')"
  then show "mem_inv s' \<and> (\<forall>j. lives (mem_phase s j) (mem_phase s' j))"
    using mem_CloseAndRelease_phase(1) [of s sid lid reason now r s']
      mem_CloseAndRelease_inv [of s sid lid reason now] by simp
next
  fix s s' :: mem_store and sid lid reason now
  assume "mem_inv s" and "st_CloseAndRelease memory_ops sid lid reason now s = (Inr (), s')"
  then show "mem_phase s' sid = PClosed"
    using mem_CloseAndRelease_phase(2) [of s sid lid reason now "Inr ()" s'] by simp
qed

end
