(* ===== verification/RedisScripts.thy ===== *)
theory RedisScripts
  imports RedisSafety MemoryStore
begin

text \<open>
  The three Lua scripts of \<open>internal/store/redis/store.go\<close> on stored sessions: what each answers and leaves behind, as a
  function of the session whose record it works on. The memory store's \<open>claimed_session\<close> and
  \<open>closed_session\<close> are the specification: the fields a script sets are exactly those that storing the
  claimed or closed session would write. What a script does not touch is kept track of by \<open>confined\<close>.
\<close>

named_theorems confined_intros \<open>commands that keep the clock and the keys they do not name\<close>

section \<open>Fields of a stored session\<close>

text \<open>A time the store can write: from the first millisecond on, and 64 bits of milliseconds.\<close>

definition stamp :: "time \<Rightarrow> bool" where
  "stamp t \<longleftrightarrow> 1000000 \<le> t \<and> t < 2 ^ 63 * 1000000"

lemma stamp_facts:
  assumes "stamp t"
  shows "storable_time t" and "t \<noteq> zero_time" and "dec_int (unix_milli t) = millis t" and "0 < unix_milli t"
proof -
  have "0 < t div 1000000" "t div 1000000 < 2 ^ 63" "t \<noteq> zero_time"
    using assms by (auto simp: stamp_def zero_time_def)
  then show "storable_time t" "t \<noteq> zero_time" "dec_int (unix_milli t) = millis t" "0 < unix_milli t"
    by (auto simp: storable_time_def int64_def unix_milli_def millis_def)
qed

lemma session_hash_encode: "session_hash v = encode v"
  by (simp add: session_hash_def encode_def mput_def)

lemma session_hash_nonempty [simp]: "session_hash v \<noteq> []"
  by (simp add: session_hash_encode encode_def)

lemma stored_fields:
  "mget (session_hash v) ''subject_id'' = Some (s_SubjectID v)"
  "mget (session_hash v) ''idempotency_key'' = Some (s_IdempotencyKey v)"
  "mget (session_hash v) ''state'' = Some (state_str (s_State v))"
  "mget (session_hash v) ''fingerprint'' = Some (hex_encode (s_RequestFingerprint v))"
  "mget (session_hash v) ''ticket_digest'' = Some (hex_encode (s_TicketDigest v))"
  "mget (session_hash v) ''ticket_expires_at'' = Some (millis (s_TicketExpiresAt v))"
  "mget (session_hash v) ''lease_id'' = Some (s_LeaseID v)"
  "mget (session_hash v) ''id'' = Some (s_ID v)"
  by (simp_all add: session_hash_encode encode_def)

text \<open>The fields the scripts set are those of the claimed and of the closed session.\<close>

lemma claimed_hash:
  assumes "stamp now" "stamp (now + cl_SessionMaxDuration lim)"
    and "stamp (now + cl_SessionMaxDuration lim + cl_IdempotencyTTL lim)"
  shows "hset_all (claimed_fields (dec_int (unix_milli now)) (dec_int (unix_milli (now + cl_SessionMaxDuration lim))) lease
      (dec_int (unix_milli (now + cl_SessionMaxDuration lim + cl_IdempotencyTTL lim)))) (session_hash v) =
    session_hash (claimed_session lease now lim v)"
  unfolding session_hash_encode
  by (simp add: claimed_fields_def encode_def mput_def claimed_session_def Let_def stamp_facts(3) assms b64_encode_def)

lemma closed_hash:
  assumes "stamp now"
  shows "hset_all (closed_fields (dec_int (unix_milli now)) reason) (session_hash v) =
    session_hash (closed_session now reason v)"
  unfolding session_hash_encode
  by (simp add: closed_fields_def encode_def mput_def closed_session_def stamp_facts(3) assms b64_encode_def)

lemma expired_hash:
  "stamp now \<Longrightarrow> hset_all (expired_fields (dec_int (unix_milli now))) (session_hash v) =
    session_hash (closed_session now ''ticket_expired'' v)"
  using closed_hash [of now "''ticket_expired''"] by (simp add: closed_fields_def expired_fields_def)

lemma lua_tonumber_dec_int: "lua_tonumber (dec_int i) = Some i"
proof (cases "i < 0")
  case True
  then show ?thesis by (simp add: lua_tonumber_def dec_int_def)
next
  case False
  obtain c u where cu: "dec_nat (nat i) = c # u" and c: "is_digit c"
    using dec_nat_head [of "nat i"] dec_nat_nonempty [of "nat i"] by (cases "dec_nat (nat i)") auto
  then have "c \<noteq> CHR ''-''" by (auto simp: is_digit_def)
  with False cu parse_nat_dec_nat [of "nat i"] show ?thesis by (simp add: lua_tonumber_def dec_int_def)
qed

text \<open>A zero time is written as 0, which no clock reading precedes.\<close>

lemma lua_tonumber_millis:
  assumes "0 < now"
  shows "\<exists>te. lua_tonumber (millis t) = Some te \<and> (te \<le> now \<longleftrightarrow> unix_milli t \<le> now)"
proof (cases "t = zero_time")
  case True
  have "lua_tonumber ''0'' = Some 0"
    by (simp add: lua_tonumber_def parse_nat_def is_digit_def digits_value_def)
  with True assms show ?thesis by (simp add: millis_def unix_milli_def zero_time_def)
qed (simp add: millis_def lua_tonumber_dec_int)

lemma state_str_issued: "state_canonical s \<Longrightarrow> state_str s = ''issued'' \<longleftrightarrow> s = StateIssued"
  by (cases s) (auto simp: state_canonical_def state_of_str_def)

lemma storable_claimed:
  assumes "storable v" "stamp now" "stamp (now + cl_SessionMaxDuration lim)"
    and "stamp (now + cl_SessionMaxDuration lim + cl_IdempotencyTTL lim)"
  shows "storable (claimed_session lease now lim v)"
  using assms by (simp add: storable_def session_times_def claimed_session_def Let_def stamp_facts(1))

lemma storable_closed: "storable v \<Longrightarrow> stamp now \<Longrightarrow> storable (closed_session now reason v)"
  by (simp add: storable_def session_times_def closed_session_def stamp_facts(1))

section \<open>What a command touches\<close>

text \<open>A lease set never expires.\<close>

definition permanent :: "redis_entry \<Rightarrow> bool" where
  "permanent en \<longleftrightarrow> en = None \<or> (\<exists>z. en = Some (VZset z, None))"

lemma permanent_lease_key: "permanent en \<Longrightarrow> lease_key en"
  by (auto simp: permanent_def lease_key_def)

text \<open>A command keeps the clock and the keys outside \<open>K\<close>, and lets the keys in \<open>L\<close> be lease sets that never expire.\<close>

definition confined ::
  "('d \<Rightarrow> string \<Rightarrow> redis_entry) \<Rightarrow> ('d \<Rightarrow> int) \<Rightarrow> string set \<Rightarrow> string set \<Rightarrow> ('d, 'a) command \<Rightarrow> bool" where
  "confined entry clock K L f \<longleftrightarrow>
     (\<forall>d r d'. f d = (r, d') \<longrightarrow> clock d' = clock d \<and> (\<forall>k. k \<notin> K \<longrightarrow> entry d' k = entry d k) \<and>
        (\<forall>k. k \<in> L \<and> permanent (entry d k) \<longrightarrow> permanent (entry d' k)))"

lemma confinedD:
  assumes "confined entry clock K L f" and "f d = (r, d')"
  shows "clock d' = clock d" and "k \<notin> K \<Longrightarrow> entry d' k = entry d k"
    and "k \<in> L \<Longrightarrow> permanent (entry d k) \<Longrightarrow> permanent (entry d' k)"
  using assms by (auto simp: confined_def)

lemma confined_rbind [confined_intros]:
  assumes "confined entry clock K L m" and "\<And>a. confined entry clock K L (f a)"
  shows "confined entry clock K L (rbind m f)"
  unfolding confined_def
proof (intro allI impI)
  fix d r d'
  assume "rbind m f d = (r, d')"
  then show "clock d' = clock d \<and> (\<forall>k. k \<notin> K \<longrightarrow> entry d' k = entry d k) \<and>
      (\<forall>k. k \<in> L \<and> permanent (entry d k) \<longrightarrow> permanent (entry d' k))"
  proof (cases rule: rbind_cases)
    case error
    then show ?thesis using confinedD [OF assms(1)] by blast
  next
    case (ok a d1)
    then show ?thesis using confinedD [OF assms(1) ok(1)] confinedD [OF assms(2) ok(2)] by simp
  qed
qed

lemma confined_if [confined_intros]:
  "(c \<Longrightarrow> confined entry clock K L x) \<Longrightarrow> (\<not> c \<Longrightarrow> confined entry clock K L y) \<Longrightarrow> confined entry clock K L (if c then x else y)"
  by simp

lemma confined_pure:
  assumes "\<And>d. snd (f d) = d"
  shows "confined entry clock K L f"
  unfolding confined_def using assms by (metis snd_conv)

text \<open>One key is written; when it is to be a lease set, it stays one.\<close>

definition written :: "('d \<Rightarrow> string \<Rightarrow> redis_entry) \<Rightarrow> ('d \<Rightarrow> int) \<Rightarrow> string \<Rightarrow> bool \<Rightarrow> 'd \<Rightarrow> 'd \<Rightarrow> bool" where
  "written entry clock k leases d d' \<longleftrightarrow> clock d' = clock d \<and>
     (\<exists>en. entry d' = (entry d)(k := en) \<and> (leases \<and> permanent (entry d k) \<longrightarrow> permanent en))"

lemma written_same: "written entry clock k leases d d"
  unfolding written_def by (intro conjI exI [of _ "entry d k"]) auto

lemma confined_write:
  assumes "k \<in> K"
    and "\<And>d. written entry clock k (k \<in> L) d (snd (f d))"
  shows "confined entry clock K L f"
  unfolding confined_def
proof (intro allI impI)
  fix d r d'
  assume "f d = (r, d')"
  with assms(2) [of d] have "written entry clock k (k \<in> L) d d'" by simp
  with assms(1) show "clock d' = clock d \<and> (\<forall>k. k \<notin> K \<longrightarrow> entry d' k = entry d k) \<and>
      (\<forall>k. k \<in> L \<and> permanent (entry d k) \<longrightarrow> permanent (entry d' k))"
    by (auto simp: written_def)
qed

lemma confined_values [confined_intros]:
  "confined entry clock K L (rreturn a)" "confined entry clock K L (lua_ge p q)"
  "confined entry clock K L (lua_unclaimable state now te)"
  by (rule confined_pure, simp add: lua_ge_def lua_unclaimable_def split: option.split)+

context redis_server
begin

lemma confined_reads [confined_intros]:
  "confined entry clock K L (rd_GET rd k)" "confined entry clock K L (rd_EXISTS rd k)"
  "confined entry clock K L (rd_HGET rd k f)" "confined entry clock K L (rd_ZCARD rd k)"
  by (rule confined_pure, simp add: get_law exists_law hget_law zcard_law split: option.split)+

lemma permanent_zset:
  assumes "permanent en" and "as_zset en = Some (z, e)"
  shows "permanent (zset_entry z' e)" and "permanent (Some (VZset z', e))"
  using assms by (auto simp: permanent_def as_zset_def zset_entry_def)

lemma confined_writes [confined_intros]:
  assumes k: "k \<in> K"
  shows "k \<notin> L \<Longrightarrow> confined entry clock K L (rd_SET_PXAT rd k v t)"
    and "k \<notin> L \<Longrightarrow> confined entry clock K L (rd_PEXPIREAT rd k t)"
    and "k \<notin> L \<Longrightarrow> fvs \<noteq> [] \<Longrightarrow> confined entry clock K L (rd_HSET rd k fvs)"
    and "confined entry clock K L (rd_ZREMRANGEBYSCORE rd k mx)"
    and "confined entry clock K L (rd_ZADD rd k sc m)" and "confined entry clock K L (rd_ZREM rd k m)"
proof -
  show "confined entry clock K L (rd_SET_PXAT rd k v t)" if "k \<notin> L"
  proof (rule confined_write [OF k])
    show "written entry clock k (k \<in> L) d (snd (rd_SET_PXAT rd k v t d))" for d
      using set_law [of k v t d] that by (auto simp: written_def)
  qed
  show "confined entry clock K L (rd_PEXPIREAT rd k t)" if "k \<notin> L"
  proof (rule confined_write [OF k])
    show "written entry clock k (k \<in> L) d (snd (rd_PEXPIREAT rd k t d))" for d
      using pexpireat_law [of k t d] that by (auto simp: written_def)
  qed
  show "confined entry clock K L (rd_HSET rd k fvs)" if "k \<notin> L" "fvs \<noteq> []"
  proof (rule confined_write [OF k])
    show "written entry clock k (k \<in> L) d (snd (rd_HSET rd k fvs d))" for d
      using hset_law [OF that(2), where d = d and k = k] that
      by (cases "as_hash (entry d k)") (auto simp: written_same, auto simp: written_def)
  qed
  show "confined entry clock K L (rd_ZREMRANGEBYSCORE rd k mx)"
  proof (rule confined_write [OF k])
    show "written entry clock k (k \<in> L) d (snd (rd_ZREMRANGEBYSCORE rd k mx d))" for d
      using zremrangebyscore_law [where d = d and k = k and mx = mx] written_same permanent_zset [of "entry d k"]
      by (cases "as_zset (entry d k)") (auto simp: written_def)
  qed
  show "confined entry clock K L (rd_ZADD rd k sc m)"
  proof (rule confined_write [OF k])
    show "written entry clock k (k \<in> L) d (snd (rd_ZADD rd k sc m d))" for d
      using zadd_law [where d = d and k = k and sc = sc and m = m] written_same permanent_zset [of "entry d k"]
      by (cases "as_zset (entry d k)") (auto simp: written_def)
  qed
  show "confined entry clock K L (rd_ZREM rd k m)"
  proof (rule confined_write [OF k])
    show "written entry clock k (k \<in> L) d (snd (rd_ZREM rd k m d))" for d
      using zrem_law [where d = d and k = k and m = m] written_same permanent_zset [of "entry d k"]
      by (cases "as_zset (entry d k)") (auto simp: written_def)
  qed
qed

lemma confined_hset_each: "k \<in> K \<Longrightarrow> k \<notin> L \<Longrightarrow> confined entry clock K L (hset_each rd k fvs)"
  by (induction fvs) (auto intro!: confined_intros)

lemma confined_scripts:
  "sk \<notin> L \<Longrightarrow> ik \<notin> L \<Longrightarrow>
    confined entry clock {sk, g, sb, ik} L (claim_script rd sk g sb ik now dg ma mp ex lease m tomb)"
  "sk \<notin> L \<Longrightarrow> confined entry clock {sk, g, sb} L (close_script rd sk g sb lease reason now m)"
  "sk \<notin> L \<Longrightarrow> ik \<notin> L \<Longrightarrow> confined entry clock {sk, ik} L (create_new rd ik sk cid fvs tomb)"
  by (auto simp: claim_script_def claim_check_def claim_take_def claim_full_def close_script_def create_new_def
      intro!: confined_intros confined_hset_each)

lemma confined_create_script:
  "confined entry clock UNIV {} (create_script rd ik sk prefix now fp cid fvs tomb)"
  by (auto simp: create_script_def create_new_def create_existing_def intro!: confined_intros confined_hset_each
      split: option.split)

lemma confined_create_existing: "ek \<notin> L \<Longrightarrow> confined entry clock {ek} L (create_existing rd ek now fp sid)"
  by (auto simp: create_existing_def intro!: confined_intros split: option.split)

end

section \<open>Sessions on a server\<close>

text \<open>The record of a session with its expiry, the entry of its key, and its two lease sets.\<close>

definition holds :: "('d \<Rightarrow> string \<Rightarrow> redis_entry) \<Rightarrow> session \<Rightarrow> 'd \<Rightarrow> bool" where
  "holds entry v d \<longleftrightarrow>
     entry d (session_key (s_ID v)) = Some (VHash (session_hash v), Some (unix_milli (s_TombstoneExpiresAt v)))"

definition indexed :: "('d \<Rightarrow> string \<Rightarrow> redis_entry) \<Rightarrow> (bytes \<Rightarrow> bytes) \<Rightarrow> session \<Rightarrow> 'd \<Rightarrow> bool" where
  "indexed entry sha v d \<longleftrightarrow>
     entry d (idem_key sha (s_IdempotencyKey v)) = Some (VStr (s_ID v), Some (unix_milli (s_TombstoneExpiresAt v)))"

definition lease_sets :: "('d \<Rightarrow> string \<Rightarrow> redis_entry) \<Rightarrow> (bytes \<Rightarrow> bytes) \<Rightarrow> session \<Rightarrow> 'd \<Rightarrow> (string, int) gomap \<times> (string, int) gomap" where
  "lease_sets entry sha v d =
     (lease_set (entry d global_leases_key), lease_set (entry d (subject_leases_key sha (s_SubjectID v))))"

definition lasting :: "('d \<Rightarrow> string \<Rightarrow> redis_entry) \<Rightarrow> (bytes \<Rightarrow> bytes) \<Rightarrow> session \<Rightarrow> 'd \<Rightarrow> bool" where
  "lasting entry sha v d \<longleftrightarrow>
     permanent (entry d global_leases_key) \<and> permanent (entry d (subject_leases_key sha (s_SubjectID v)))"

definition registered :: "('d \<Rightarrow> string \<Rightarrow> redis_entry) \<Rightarrow> (bytes \<Rightarrow> bytes) \<Rightarrow> session \<Rightarrow> 'd \<Rightarrow> bool" where
  "registered entry sha v d \<longleftrightarrow> holds entry v d \<and> indexed entry sha v d \<and> lasting entry sha v d"

text \<open>What a claim answers.\<close>

definition claim_answer ::
  "session \<Rightarrow> (string, int) gomap \<times> (string, int) gomap \<Rightarrow> bytes \<Rightarrow> time \<Rightarrow> claim_limits \<Rightarrow> session_lease result" where
  "claim_answer v leases digest now lim =
     (if s_State v \<noteq> StateIssued \<or> unix_milli (s_TicketExpiresAt v) \<le> unix_milli now then Inl (Sentinel ErrFailedPrecondition)
      else if s_TicketDigest v \<noteq> digest then Inl (Sentinel ErrInvalidTicket)
      else if int (length (unexpired (unix_milli now) (fst leases))) \<ge> cl_MaxActive lim \<or>
              int (length (unexpired (unix_milli now) (snd leases))) \<ge> cl_MaxActivePerSubject lim
      then Inl (Sentinel ErrCapacity)
      else Inr \<lparr> le_ID = s_ID v @ '':lease'',
                 le_Session = stored_form (claimed_session (s_ID v @ '':lease'') now lim v),
                 le_ExpiresAt = now + cl_SessionMaxDuration lim \<rparr>)"

text \<open>The record and the lease sets after it.\<close>

definition claim_record ::
  "session \<Rightarrow> (string, int) gomap \<times> (string, int) gomap \<Rightarrow> bytes \<Rightarrow> time \<Rightarrow> claim_limits \<Rightarrow> session" where
  "claim_record v leases digest now lim =
     (case claim_answer v leases digest now lim of
        Inr _ \<Rightarrow> claimed_session (s_ID v @ '':lease'') now lim v
      | Inl e \<Rightarrow> if e = Sentinel ErrFailedPrecondition \<and> s_State v = StateIssued
                then closed_session now ''ticket_expired'' v else v)"

definition claim_leases ::
  "session \<Rightarrow> (string, int) gomap \<times> (string, int) gomap \<Rightarrow> bytes \<Rightarrow> time \<Rightarrow> claim_limits
     \<Rightarrow> (string, int) gomap \<times> (string, int) gomap" where
  "claim_leases v leases digest now lim =
     (let keep = map_prod (unexpired (unix_milli now)) (unexpired (unix_milli now)) leases;
          add = mput (s_ID v) (unix_milli (now + cl_SessionMaxDuration lim))
      in case claim_answer v leases digest now lim of Inr _ \<Rightarrow> map_prod add add keep | Inl _ \<Rightarrow> keep)"

definition claim_code :: "session_lease result \<Rightarrow> int" where
  "claim_code r = (case r of Inr _ \<Rightarrow> 0
     | Inl e \<Rightarrow> if e = Sentinel ErrFailedPrecondition then 3 else if e = Sentinel ErrInvalidTicket then 2 else 4)"

definition claim_stamps :: "time \<Rightarrow> claim_limits \<Rightarrow> bool" where
  "claim_stamps now lim \<longleftrightarrow> stamp now \<and> stamp (now + cl_SessionMaxDuration lim) \<and>
     stamp (now + cl_SessionMaxDuration lim + cl_IdempotencyTTL lim)"

lemma claim_record_same [simp]:
  "s_SubjectID (claim_record v ls dg now lim) = s_SubjectID v" "s_ID (claim_record v ls dg now lim) = s_ID v"
  "s_IdempotencyKey (claim_record v ls dg now lim) = s_IdempotencyKey v"
  by (simp_all add: claim_record_def claimed_session_def closed_session_def Let_def split: sum.split)

lemma lease_sets_subject: "s_SubjectID w = s_SubjectID v \<Longrightarrow> lease_sets entry sha w d = lease_sets entry sha v d"
  by (simp add: lease_sets_def)

section \<open>The claim script on a stored session\<close>

lemma key_kept [simp]:
  "s_IdempotencyKey (claimed_session l now lim v) = s_IdempotencyKey v"
  "s_IdempotencyKey (closed_session now reason v) = s_IdempotencyKey v"
  by (simp_all add: claimed_session_def closed_session_def Let_def)

context redis_server
begin

lemma claim_check_won:
  assumes "claim_check rd sk g sb now dg ma mp win d = (Inr [RespInt 0], d')"
  shows "win d = (Inr [RespInt 0], d')"
  using assms unfolding claim_check_def
  by (auto elim!: rbind_cases split: if_splits dest!: reads lua_reads claim_full_reads)

lemma claim_take_index:
  assumes "claim_take rd sk g sb ik now ex lease m tomb d = (Inr [RespInt 0], d')"
    and "ik \<notin> {sk, g, sb}" and "entry d ik = Some (w, e)"
  shows "entry d' ik = entry_at (clock d) (Some (w, Some tomb))"
proof -
  obtain u1 d1 where d1: "rd_HSET rd sk (claimed_fields (dec_int now) (dec_int ex) lease (dec_int tomb)) d = (Inr u1, d1)"
    "rbind (rd_PEXPIREAT rd sk tomb) (\<lambda>_. rbind (rd_PEXPIREAT rd ik tomb) (\<lambda>_. rbind (rd_ZADD rd g ex m) (\<lambda>_.
       rbind (rd_ZADD rd sb ex m) (\<lambda>_. rreturn [RespInt 0])))) d1 = (Inr [RespInt 0], d')"
    using assms(1) unfolding claim_take_def by (auto elim!: rbind_cases)
  obtain u2 d2 where d2: "rd_PEXPIREAT rd sk tomb d1 = (Inr u2, d2)"
    "rbind (rd_PEXPIREAT rd ik tomb) (\<lambda>_. rbind (rd_ZADD rd g ex m) (\<lambda>_.
       rbind (rd_ZADD rd sb ex m) (\<lambda>_. rreturn [RespInt 0]))) d2 = (Inr [RespInt 0], d')"
    using d1(2) by (auto elim!: rbind_cases)
  obtain d3 where d3: "rd_PEXPIREAT rd ik tomb d2 = (Inr (), d3)" "clock d3 = clock d2"
    "entry d3 ik = (case entry d2 ik of None \<Rightarrow> None | Some (v, _) \<Rightarrow> entry_at (clock d2) (Some (v, Some tomb)))"
    using pexpireat_law [of ik tomb d2] by auto
  have rest: "rbind (rd_ZADD rd g ex m) (\<lambda>_. rbind (rd_ZADD rd sb ex m) (\<lambda>_. rreturn [RespInt 0])) d3 = (Inr [RespInt 0], d')"
    using d2(2) d3(1) by simp
  have "confined entry clock {sk} {} (rd_HSET rd sk (claimed_fields (dec_int now) (dec_int ex) lease (dec_int tomb)))"
    "confined entry clock {sk} {} (rd_PEXPIREAT rd sk tomb)"
    by (auto intro!: confined_intros)
  note c = confinedD(1,2) [OF this(1) d1(1)] confinedD(1,2) [OF this(2) d2(1)]
  have "confined entry clock {g, sb} {} (rbind (rd_ZADD rd g ex m) (\<lambda>_. rbind (rd_ZADD rd sb ex m) (\<lambda>_. rreturn [RespInt 0])))"
    by (auto intro!: confined_intros)
  note z = confinedD(2) [OF this rest]
  have "entry d2 ik = Some (w, e)" "clock d2 = clock d" using c assms(2,3) by auto
  then show ?thesis using z [of ik] d3(3) assms(2) by simp
qed

lemma claim_script_index:
  assumes "claim_script rd sk g sb ik now dg ma mp ex lease m tomb d = (Inr [RespInt 0], d')"
    and "ik \<notin> {sk, g, sb}" and "entry d ik = Some (w, e)"
  shows "entry d' ik = entry_at (clock d) (Some (w, Some tomb))"
proof -
  obtain u1 d1 u2 d2 where d12: "rd_ZREMRANGEBYSCORE rd g now d = (u1, d1)" "rd_ZREMRANGEBYSCORE rd sb now d1 = (u2, d2)"
    and "claim_check rd sk g sb now dg ma mp (claim_take rd sk g sb ik now ex lease m tomb) d2 = (Inr [RespInt 0], d')"
    using assms(1) unfolding claim_script_def
    by (auto elim!: rbind_cases split: if_splits dest!: reads(2))
  note take = claim_check_won [OF this(3)]
  have "confined entry clock {g, sb} {} (rd_ZREMRANGEBYSCORE rd g now)" "confined entry clock {g, sb} {} (rd_ZREMRANGEBYSCORE rd sb now)"
    by (auto intro!: confined_intros)
  note c = confinedD(1,2) [OF this(1) d12(1)] confinedD(1,2) [OF this(2) d12(2)]
  have "entry d2 ik = Some (w, e)" "clock d2 = clock d" using c assms(2,3) by auto
  then show ?thesis using claim_take_index [OF take assms(2)] by simp
qed

lemma session_conditions:
  assumes "storable v"
  shows "mget (session_hash v) ''state'' = Some ''issued'' \<longleftrightarrow> s_State v = StateIssued"
    and "field (session_hash v) ''ticket_digest'' = hex_encode dg \<longleftrightarrow> s_TicketDigest v = dg"
  using assms by (simp_all add: stored_fields state_str_issued storable_def session_hash_fields)

lemma claim_script_held:
  assumes run: "claim_script rd (session_key (s_ID v)) global_leases_key (subject_leases_key sha (s_SubjectID v))
      (idem_key sha (s_IdempotencyKey v)) (unix_milli now) (hex_encode dg) (cl_MaxActive lim) (cl_MaxActivePerSubject lim)
      (unix_milli (now + cl_SessionMaxDuration lim)) (s_ID v @ '':lease'') (s_ID v)
      (unix_milli (now + cl_SessionMaxDuration lim + cl_IdempotencyTTL lim)) d = (y, d')"
    and v: "registered entry sha v d" "storable v" and stamps: "claim_stamps now lim"
    and live: "clock d < unix_milli (s_TombstoneExpiresAt (claim_record v (lease_sets entry sha v d) dg now lim))"
  shows "y = Inr [RespInt (claim_code (claim_answer v (lease_sets entry sha v d) dg now lim))]"
    and "registered entry sha (claim_record v (lease_sets entry sha v d) dg now lim) d'"
    and "lease_sets entry sha v d' = claim_leases v (lease_sets entry sha v d) dg now lim"
proof -
  let ?sk = "session_key (s_ID v)" and ?g = global_leases_key and ?sb = "subject_leases_key sha (s_SubjectID v)"
  let ?ik = "idem_key sha (s_IdempotencyKey v)"
  let ?ls = "lease_sets entry sha v d" and ?x = "unix_milli (s_TombstoneExpiresAt v)"
  let ?ex = "now + cl_SessionMaxDuration lim"
  let ?w = "claimed_session (s_ID v @ '':lease'') now lim v"
  have st: "stamp now" "stamp ?ex" "stamp (?ex + cl_IdempotencyTTL lim)" using stamps by (simp_all add: claim_stamps_def)
  have rec: "entry d ?sk = Some (VHash (session_hash v), Some ?x)" and ik: "entry d ?ik = Some (VStr (s_ID v), Some ?x)"
    and perm: "permanent (entry d ?g)" "permanent (entry d ?sb)"
    using v(1) by (simp_all add: registered_def holds_def indexed_def lasting_def)
  note sets = permanent_lease_key [OF perm(1)] permanent_lease_key [OF perm(2)]
  note sep = lease_keys_differ [of sha "s_SubjectID v"] lease_keys_differ(2) [of sha "s_IdempotencyKey v"]
    lease_keys_differ(3) [of sha "s_IdempotencyKey v" sha "s_SubjectID v"]
  have lasting': "permanent (entry d' ?g)" "permanent (entry d' ?sb)"
    using confinedD(3) [OF confined_scripts(1) [where L = "{?g, ?sb}"] run] perm sep by auto
  obtain te where te: "lua_tonumber (or_default ''0'' (mget (session_hash v) ''ticket_expires_at'')) = Some te"
    "te \<le> unix_milli now \<longleftrightarrow> unix_milli (s_TicketExpiresAt v) \<le> unix_milli now"
    using lua_tonumber_millis stamp_facts(4) [OF st(1)] by (auto simp: stored_fields or_default_def)
  obtain d2 where d2: "clock d2 = clock d" "lease_set (entry d2 ?g) = unexpired (unix_milli now) (fst ?ls)"
    "lease_set (entry d2 ?sb) = unexpired (unix_milli now) (snd ?ls)" "lease_key (entry d2 ?g)" "lease_key (entry d2 ?sb)"
    "\<And>j. j \<notin> {?g, ?sb} \<Longrightarrow> entry d2 j = entry d j"
    and check: "claim_check rd ?sk ?g ?sb (unix_milli now) (hex_encode dg) (cl_MaxActive lim) (cl_MaxActivePerSubject lim)
      (claim_take rd ?sk ?g ?sb ?ik (unix_milli now) (unix_milli ?ex) (s_ID v @ '':lease'') (s_ID v)
         (unix_milli (?ex + cl_IdempotencyTTL lim))) d2 = (y, d')"
    using claim_script_prunes [of d "s_ID v" sha "s_SubjectID v"] rec sets run unfolding lease_sets_def
    by (metis fst_conv snd_conv option.distinct(1))
  have rec2: "entry d2 ?sk = Some (VHash (session_hash v), Some ?x)" using rec d2(6) by simp
  note state = check [unfolded claim_check_state [OF rec2 te(1) d2(4,5)] session_conditions [OF v(2)] d2(2,3) te(2)]
  let ?answer = "claim_answer v ?ls dg now lim" and ?u = "claim_record v ?ls dg now lim"
  note kept = d2(6) [of ?ik] ik sep rec rec2
  have "y = Inr [RespInt (claim_code ?answer)] \<and> holds entry ?u d' \<and> indexed entry sha ?u d' \<and>
      lease_sets entry sha v d' = claim_leases v ?ls dg now lim"
  proof (cases ?answer)
    case (Inr l)
    then have take: "claim_take rd ?sk ?g ?sb ?ik (unix_milli now) (unix_milli ?ex) (s_ID v @ '':lease'') (s_ID v)
         (unix_milli (?ex + cl_IdempotencyTTL lim)) d2 = (y, d')"
      using state by (auto simp: claim_answer_def split: if_splits)
    have u: "?u = ?w" using Inr by (simp add: claim_record_def)
    obtain d3 where d3: "claim_take rd ?sk ?g ?sb ?ik (unix_milli now) (unix_milli ?ex) (s_ID v @ '':lease'') (s_ID v)
         (unix_milli (?ex + cl_IdempotencyTTL lim)) d2 = (Inr [RespInt 0], d3)"
      "lease_set (entry d3 ?g) = mput (s_ID v) (unix_milli ?ex) (lease_set (entry d2 ?g))"
      "lease_set (entry d3 ?sb) = mput (s_ID v) (unix_milli ?ex) (lease_set (entry d2 ?sb))"
      by (rule claim_take_leases [OF rec2 sep(1,4,5) other_keys(2,3) d2(4,5)])
    then have y: "y = Inr [RespInt 0]" "d3 = d'" using take by auto
    have "holds entry ?w d'"
      using claim_take_effect [OF take rec2 other_keys(2,3,1)] claimed_hash [OF st] live d2(1)
      by (simp add: holds_def record_written_def u)
    moreover have "indexed entry sha ?w d'"
      using claim_take_index [OF take [unfolded y(1)] _ trans [OF d2(6) ik]] sep live d2(1) by (simp add: indexed_def u)
    ultimately show ?thesis
      using d3(2,3) d2(2,3) Inr y u by (simp add: claim_code_def claim_leases_def Let_def lease_sets_def)
  next
    case (Inl e)
    have plain: "holds entry v d2" "indexed entry sha v d2"
      using kept by (simp_all add: holds_def indexed_def)
    have leases: "claim_leases v ?ls dg now lim = lease_sets entry sha v d2"
      using Inl d2(2,3) by (simp add: claim_leases_def lease_sets_def)
    show ?thesis
    proof (cases "e = Sentinel ErrFailedPrecondition \<and> s_State v = StateIssued")
      case True
      obtain d3 where d3: "rd_HSET rd ?sk (expired_fields (dec_int (unix_milli now))) d2 = (Inr (), d3)"
        "record_written entry (s_ID v) (Some (VHash (hset_all (expired_fields (dec_int (unix_milli now))) (session_hash v)), Some ?x)) d2 d3"
        using hset_record [OF rec2 fields_nonempty(1)] by metis
      have "confined entry clock {?sk} {} (rd_HSET rd ?sk (expired_fields (dec_int (unix_milli now))))"
        by (auto intro!: confined_intros)
      note other = confinedD(2) [OF this d3(1)]
      have "y = Inr [RespInt 3]" "d' = d3"
        using state Inl True d3(1) by (auto simp: claim_answer_def split: if_splits)
      then show ?thesis
        using Inl True d3(2) plain leases other [of ?ik] other [of ?g] other [of ?sb] expired_hash [OF st(1), of v]
        by (simp add: claim_code_def claim_record_def holds_def indexed_def record_written_def lease_sets_def)
    next
      case False
      then have "y = Inr [RespInt (claim_code ?answer)]" "d' = d2" "?u = v"
        using state Inl by (auto simp: claim_answer_def claim_code_def claim_record_def split: if_splits)
      then show ?thesis using plain leases by simp
    qed
  qed
  then show "y = Inr [RespInt (claim_code ?answer)]" "registered entry sha ?u d'"
    "lease_sets entry sha v d' = claim_leases v ?ls dg now lim"
    using lasting' by (simp_all add: registered_def lasting_def)
qed

end

section \<open>The other scripts on a stored session\<close>

definition close_answer :: "session \<Rightarrow> string \<Rightarrow> unit result" where
  "close_answer v lease =
     (if s_State v = StateClosed then Inr ()
      else if s_State v \<noteq> StateClaimed \<or> s_LeaseID v \<noteq> lease then Inl (Sentinel ErrFailedPrecondition)
      else Inr ())"

definition releases :: "session \<Rightarrow> string \<Rightarrow> bool" where
  "releases v lease \<longleftrightarrow> s_State v = StateClaimed \<and> s_LeaseID v = lease"

definition close_record :: "session \<Rightarrow> string \<Rightarrow> string \<Rightarrow> time \<Rightarrow> session" where
  "close_record v lease reason now = (if releases v lease then closed_session now reason v else v)"

definition close_leases ::
  "session \<Rightarrow> (string, int) gomap \<times> (string, int) gomap \<Rightarrow> string \<Rightarrow> (string, int) gomap \<times> (string, int) gomap" where
  "close_leases v leases lease = (if releases v lease then map_prod (mdel (s_ID v)) (mdel (s_ID v)) leases else leases)"

definition create_answer :: "session \<Rightarrow> session \<Rightarrow> (session \<times> bool) result" where
  "create_answer v c =
     (if s_RequestFingerprint v \<noteq> s_RequestFingerprint c then Inl (Sentinel ErrConflict)
      else if s_State v \<noteq> StateIssued \<or> unix_milli (s_TicketExpiresAt v) \<le> unix_milli (s_CreatedAt c)
      then Inl (Sentinel ErrFailedPrecondition)
      else Inr (stored_form v, True))"

definition create_record :: "session \<Rightarrow> session \<Rightarrow> session" where
  "create_record v c =
     (if create_answer v c = Inl (Sentinel ErrFailedPrecondition) \<and> s_State v = StateIssued
      then closed_session (s_CreatedAt c) ''ticket_expired'' v else v)"

lemma state_str_inject: "state_canonical s \<Longrightarrow> state_canonical t \<Longrightarrow> state_str s = state_str t \<longleftrightarrow> s = t"
  by (metis state_canonical_def)

lemma stored_state:
  assumes "storable v"
  shows "mget (session_hash v) ''state'' = Some ''issued'' \<longleftrightarrow> s_State v = StateIssued"
    and "mget (session_hash v) ''state'' = Some ''claimed'' \<longleftrightarrow> s_State v = StateClaimed"
    and "mget (session_hash v) ''state'' = Some ''closed'' \<longleftrightarrow> s_State v = StateClosed"
  using state_str_inject [of "s_State v" StateIssued] state_str_inject [of "s_State v" StateClaimed]
    state_str_inject [of "s_State v" StateClosed] assms
  by (simp_all add: stored_fields storable_def)

context redis_server
begin

lemma remove_lease:
  assumes "lease_key (entry d k)"
  obtains d' where "rd_ZREM rd k m d = (Inr (), d')" and "clock d' = clock d"
    and "lease_set (entry d' k) = mdel m (lease_set (entry d k))" and "lease_key (entry d' k)"
    and "\<And>j. j \<noteq> k \<Longrightarrow> entry d' j = entry d j"
proof -
  obtain e where z: "as_zset (entry d k) = Some (lease_set (entry d k), e)" using lease_keyE [OF assms] .
  then obtain d' where "rd_ZREM rd k m d = (Inr (), d')" "clock d' = clock d"
    "entry d' = (entry d)(k := zset_entry (mdel m (lease_set (entry d k))) e)"
    using zrem_law [where d = d and k = k and m = m] by auto
  then show ?thesis by (intro that [of d']) auto
qed

lemma close_script_held:
  assumes run: "close_script rd (session_key (s_ID v)) global_leases_key (subject_leases_key sha (s_SubjectID v)) lease reason
      (unix_milli now) (s_ID v) d = (y, d')"
    and v: "registered entry sha v d" "storable v" and now: "stamp now"
  shows "y = Inr [RespInt (if isl (close_answer v lease) then 2 else 0)]"
    and "registered entry sha (close_record v lease reason now) d'"
    and "lease_sets entry sha v d' = close_leases v (lease_sets entry sha v d) lease"
proof -
  let ?sk = "session_key (s_ID v)" and ?g = global_leases_key and ?sb = "subject_leases_key sha (s_SubjectID v)"
  let ?ik = "idem_key sha (s_IdempotencyKey v)"
  let ?u = "close_record v lease reason now" and ?x = "unix_milli (s_TombstoneExpiresAt v)"
  have rec: "entry d ?sk = Some (VHash (session_hash v), Some ?x)"
    and perm: "permanent (entry d ?g)" "permanent (entry d ?sb)"
    using v(1) by (simp_all add: registered_def holds_def lasting_def)
  note sets = permanent_lease_key [OF perm(1)] permanent_lease_key [OF perm(2)]
  note sep = lease_keys_differ(1) [of sha "s_SubjectID v"] lease_keys_differ(2) [of sha "s_IdempotencyKey v"]
    lease_keys_differ(3) [of sha "s_IdempotencyKey v" sha "s_SubjectID v"]
  have lasting': "permanent (entry d' ?g)" "permanent (entry d' ?sb)"
    using confinedD(3) [OF confined_scripts(2) [where L = "{?g, ?sb}"] run] perm by auto
  have idx: "entry d' ?ik = entry d ?ik"
    using confinedD(2) [OF confined_scripts(2) [where L = "{}"] run] sep by auto
  note hg = hget_hash [OF rec]
  have "y = Inr [RespInt (if isl (close_answer v lease) then 2 else 0)] \<and> holds entry ?u d' \<and>
      lease_sets entry sha v d' = close_leases v (lease_sets entry sha v d) lease"
  proof (cases "releases v lease")
    case False
    then have "(y, d') = (Inr [RespInt (if isl (close_answer v lease) then 2 else 0)], d)"
      using run rec stored_state [OF v(2)]
      by (auto simp: close_script_def rbind_exists rbind_if rbind_assoc hg stored_fields close_answer_def releases_def
          split: if_splits)
    then show ?thesis using False v(1) by (simp add: close_record_def close_leases_def registered_def)
  next
    case True
    obtain d1 where d1: "rd_ZREM rd ?g (s_ID v) d = (Inr (), d1)"
      "lease_set (entry d1 ?g) = mdel (s_ID v) (lease_set (entry d ?g))" "\<And>j. j \<noteq> ?g \<Longrightarrow> entry d1 j = entry d j"
      using remove_lease [OF sets(1)] by metis
    have sb1: "entry d1 ?sb = entry d ?sb" using d1(3) sep(1) by metis
    obtain d2 where d2: "rd_ZREM rd ?sb (s_ID v) d1 = (Inr (), d2)"
      "lease_set (entry d2 ?sb) = mdel (s_ID v) (lease_set (entry d ?sb))" "\<And>j. j \<noteq> ?sb \<Longrightarrow> entry d2 j = entry d1 j"
      using remove_lease [of d1 ?sb] sets(2) unfolding sb1 by metis
    have rec2: "entry d2 ?sk = Some (VHash (session_hash v), Some ?x)" using rec d1(3) [of ?sk] d2(3) [of ?sk] by simp
    obtain d3 where d3: "rd_HSET rd ?sk (closed_fields (dec_int (unix_milli now)) reason) d2 = (Inr (), d3)"
      "record_written entry (s_ID v) (Some (VHash (hset_all (closed_fields (dec_int (unix_milli now)) reason) (session_hash v)), Some ?x)) d2 d3"
      using hset_record [OF rec2 fields_nonempty(3)] by metis
    have "confined entry clock {?sk} {} (rd_HSET rd ?sk (closed_fields (dec_int (unix_milli now)) reason))"
      by (auto intro!: confined_intros)
    note other = confinedD(2) [OF this d3(1)]
    have "(y, d') = (Inr [RespInt 0], d3)"
      using run rec True stored_state [OF v(2)] d1(1) d2(1) d3(1)
      by (simp add: close_script_def rbind_exists rbind_if rbind_assoc hg stored_fields releases_def)
    moreover have "entry d2 ?g = entry d1 ?g" using d2(3) sep(1) by metis
    ultimately show ?thesis
      using True d1(2) d2(2) d3(2) other [of ?g] other [of ?sb] closed_hash [OF now, of reason v]
      by (simp add: close_record_def close_leases_def lease_sets_def holds_def record_written_def close_answer_def releases_def)
  qed
  then show "y = Inr [RespInt (if isl (close_answer v lease) then 2 else 0)]" "registered entry sha ?u d'"
    "lease_sets entry sha v d' = close_leases v (lease_sets entry sha v d) lease"
    using lasting' idx v(1) by (simp_all add: registered_def lasting_def indexed_def close_record_def)
qed

definition create_code :: "(session \<times> bool) result \<Rightarrow> int" where
  "create_code r = (case r of Inr _ \<Rightarrow> 1 | Inl e \<Rightarrow> if e = Sentinel ErrConflict then 2 else 3)"

lemma create_existing_held:
  assumes run: "create_existing rd (session_key (s_ID v)) (dec_int (unix_milli (s_CreatedAt c)))
      (hex_encode (s_RequestFingerprint c)) (s_ID v) d = (y, d')"
    and v: "registered entry sha v d" "storable v" and now: "stamp (s_CreatedAt c)"
  shows "y = Inr [RespInt (create_code (create_answer v c)), RespBulk (s_ID v)]"
    and "registered entry sha (create_record v c) d'"
    and "lease_sets entry sha v d' = lease_sets entry sha v d"
proof -
  let ?sk = "session_key (s_ID v)" and ?now = "unix_milli (s_CreatedAt c)"
  let ?g = global_leases_key and ?sb = "subject_leases_key sha (s_SubjectID v)"
  have rec: "entry d ?sk = Some (VHash (session_hash v), Some (unix_milli (s_TombstoneExpiresAt v)))"
    using v(1) by (simp add: registered_def holds_def)
  note hg = hget_hash [OF rec]
  have other: "entry d' k = entry d k" if "k \<noteq> ?sk" for k
    using confinedD(2) [OF confined_create_existing [where L = "{}"] run] that by auto
  obtain te where te: "lua_tonumber (millis (s_TicketExpiresAt v)) = Some te"
    "te \<le> ?now \<longleftrightarrow> unix_milli (s_TicketExpiresAt v) \<le> ?now"
    using lua_tonumber_millis stamp_facts(4) [OF now] by blast
  have dead: "lua_unclaimable (Some (state_str (s_State v))) (lua_tonumber (dec_int ?now)) (Some (millis (s_TicketExpiresAt v))) d =
      (Inr (s_State v \<noteq> StateIssued \<or> unix_milli (s_TicketExpiresAt v) \<le> ?now), d)"
    using stored_state(1) [OF v(2)] te
    by (simp add: lua_unclaimable_def lua_ge_def or_default_def lua_tonumber_dec_int stored_fields)
  obtain d1 where d1: "rd_HSET rd ?sk (expired_fields (dec_int ?now)) d = (Inr (), d1)"
    "record_written entry (s_ID v) (Some (VHash (hset_all (expired_fields (dec_int ?now)) (session_hash v)),
       Some (unix_milli (s_TombstoneExpiresAt v)))) d d1"
    using hset_record [OF rec fields_nonempty(1)] by metis
  have "(y, d') = (Inr [RespInt (create_code (create_answer v c)), RespBulk (s_ID v)],
      if create_answer v c = Inl (Sentinel ErrFailedPrecondition) \<and> s_State v = StateIssued then d1 else d)"
    using run stored_state(1) [OF v(2)] d1(1) dead
    by (cases "s_RequestFingerprint v = s_RequestFingerprint c";
        cases "s_State v = StateIssued"; cases "unix_milli (s_TicketExpiresAt v) \<le> ?now")
      (simp_all add: create_existing_def hg stored_fields create_answer_def create_code_def)
  then show "y = Inr [RespInt (create_code (create_answer v c)), RespBulk (s_ID v)]"
    "registered entry sha (create_record v c) d'" "lease_sets entry sha v d' = lease_sets entry sha v d"
    using v(1) d1(2) other expired_hash [OF now, of v]
    by (auto simp: registered_def holds_def indexed_def lasting_def create_record_def record_written_def lease_sets_def)
qed

lemma create_new_held:
  assumes run: "create_new rd (idem_key sha (s_IdempotencyKey c)) (session_key (s_ID c)) (s_ID c) (encode c)
      (unix_milli (s_TombstoneExpiresAt c)) d = (y, d')"
    and "entry d (session_key (s_ID c)) = None" and "clock d < unix_milli (s_TombstoneExpiresAt c)"
  shows "y = Inr [RespInt 0, RespBulk (s_ID c)]" and "holds entry c d'" and "indexed entry sha c d'"
proof -
  let ?sk = "session_key (s_ID c)" and ?x = "unix_milli (s_TombstoneExpiresAt c)"
  have ne: "encode c \<noteq> []" by (simp add: encode_def)
  have "as_hash (entry d ?sk) = Some ([], None)" using assms(2) by (simp add: as_hash_def)
  from hset_each_fresh [OF this ne] obtain d1 where
    d1: "hset_each rd ?sk (encode c) d = (Inr (), d1)" "clock d1 = clock d"
      "record_written entry (s_ID c) (Some (VHash (session_hash c), None)) d d1"
    unfolding session_hash_def by blast
  then have "entry d1 ?sk = Some (VHash (session_hash c), None)" by (simp add: record_written_def)
  then obtain d2 where d2: "rd_PEXPIREAT rd ?sk ?x d1 = (Inr (), d2)" "clock d2 = clock d1"
    "entry d2 = (entry d1)(?sk := entry_at (clock d1) (Some (VHash (session_hash c), Some ?x)))"
    using pexpireat_law [of ?sk ?x d1] by auto
  obtain d3 where d3: "rd_SET_PXAT rd (idem_key sha (s_IdempotencyKey c)) (s_ID c) ?x d2 = (Inr (), d3)"
    "entry d3 = (entry d2)(idem_key sha (s_IdempotencyKey c) := entry_at (clock d2) (Some (VStr (s_ID c), Some ?x)))"
    using set_law [of "idem_key sha (s_IdempotencyKey c)" "s_ID c" ?x d2] by auto
  have "(y, d') = (Inr [RespInt 0, RespBulk (s_ID c)], d3)"
    using run d1(1) d2(1) d3(1) by (simp add: create_new_def)
  then show "y = Inr [RespInt 0, RespBulk (s_ID c)]" "holds entry c d'" "indexed entry sha c d'"
    using assms(3) d1(2) d2(2,3) d3(2) by (auto simp: holds_def indexed_def)
qed

end

end
