(* ===== verification/RedisLedger.thy ===== *)
theory RedisLedger
  imports RedisScripts
begin

text \<open>
  The Redis store as a ledger. The ledger is what the store is about once scripts, encodings, expiries
  and requests are forgotten: the sessions by identifier, the identifiers by key, and the lease sets.
  Its operations are specified with the functions of the memory store. While no record expires and the
  requests arrive, every history of the Redis store answers what the ledger answers, on any server that
  obeys the laws of \<open>redis_server\<close>.
\<close>

section \<open>The ledger\<close>

record ledger =
  lg_Sessions :: "(string, session) gomap"
  lg_Keys :: "(string, string) gomap"
  lg_Leases :: "string \<Rightarrow> (string, int) gomap"

definition ledger_leases :: "(bytes \<Rightarrow> bytes) \<Rightarrow> session \<Rightarrow> ledger \<Rightarrow> (string, int) gomap \<times> (string, int) gomap" where
  "ledger_leases sha v A = (lg_Leases A global_leases_key, lg_Leases A (subject_leases_key sha (s_SubjectID v)))"

definition ledger_put ::
  "(bytes \<Rightarrow> bytes) \<Rightarrow> session \<Rightarrow> (string, int) gomap \<times> (string, int) gomap \<Rightarrow> ledger \<Rightarrow> ledger" where
  "ledger_put sha v leases A =
     A\<lparr> lg_Sessions := mput (s_ID v) v (lg_Sessions A),
        lg_Leases := (lg_Leases A)(global_leases_key := fst leases,
                                   subject_leases_key sha (s_SubjectID v) := snd leases) \<rparr>"

definition ledger_CreateOrGet ::
  "(bytes \<Rightarrow> bytes) \<Rightarrow> string \<Rightarrow> session \<Rightarrow> ledger \<Rightarrow> (session \<times> bool) result \<times> ledger" where
  "ledger_CreateOrGet sha key c A =
     (case mget (lg_Keys A) (idem_key sha key) of
        None \<Rightarrow> (Inr (stored_form c, False),
                 A\<lparr> lg_Sessions := mput (s_ID c) c (lg_Sessions A),
                    lg_Keys := mput (idem_key sha key) (s_ID c) (lg_Keys A) \<rparr>)
      | Some sid \<Rightarrow>
          (case mget (lg_Sessions A) sid of
             None \<Rightarrow> (Inl (Sentinel ErrFailedPrecondition), A)
           | Some v \<Rightarrow> (create_answer v c, ledger_put sha (create_record v c) (ledger_leases sha v A) A)))"

definition ledger_GetByKey :: "(bytes \<Rightarrow> bytes) \<Rightarrow> string \<Rightarrow> ledger \<Rightarrow> session result \<times> ledger" where
  "ledger_GetByKey sha key A =
     (case mget (lg_Keys A) (idem_key sha key) of
        None \<Rightarrow> (Inl (Sentinel ErrNotFound), A)
      | Some sid \<Rightarrow>
          (case mget (lg_Sessions A) sid of
             None \<Rightarrow> (Inl (Sentinel ErrNotFound), A)
           | Some v \<Rightarrow> (Inr (stored_form v), A)))"

definition ledger_ClaimAndReserve ::
  "(bytes \<Rightarrow> bytes) \<Rightarrow> string \<Rightarrow> bytes \<Rightarrow> time \<Rightarrow> claim_limits \<Rightarrow> ledger \<Rightarrow> session_lease result \<times> ledger" where
  "ledger_ClaimAndReserve sha sid digest now lim A =
     (case mget (lg_Sessions A) sid of
        None \<Rightarrow> (Inl (Sentinel ErrNotFound), A)
      | Some v \<Rightarrow>
          (claim_answer v (ledger_leases sha v A) digest now lim,
           ledger_put sha (claim_record v (ledger_leases sha v A) digest now lim)
             (claim_leases v (ledger_leases sha v A) digest now lim) A))"

definition ledger_CloseAndRelease ::
  "(bytes \<Rightarrow> bytes) \<Rightarrow> string \<Rightarrow> string \<Rightarrow> string \<Rightarrow> time \<Rightarrow> ledger \<Rightarrow> unit result \<times> ledger" where
  "ledger_CloseAndRelease sha sid lease reason now A =
     (case mget (lg_Sessions A) sid of
        None \<Rightarrow> (Inl (Sentinel ErrNotFound), A)
      | Some v \<Rightarrow>
          (close_answer v lease,
           ledger_put sha (close_record v lease reason now) (close_leases v (ledger_leases sha v A) lease) A))"

definition ledger_ops :: "(bytes \<Rightarrow> bytes) \<Rightarrow> ledger store_ops" where
  "ledger_ops sha =
     \<lparr> st_CreateOrGet = ledger_CreateOrGet sha, st_GetByKey = ledger_GetByKey sha,
       st_ClaimAndReserve = ledger_ClaimAndReserve sha, st_CloseAndRelease = ledger_CloseAndRelease sha,
       st_Ready = (\<lambda>_. Inr ()), st_Mode = ''redis'' \<rparr>"

section \<open>A server that holds a ledger\<close>

lemma ticks_trans: "server_ticks entry clock a b \<Longrightarrow> server_ticks entry clock b c \<Longrightarrow> server_ticks entry clock a c"
  by (simp add: server_ticks_def entry_at_later)

lemma ticks_live:
  assumes "server_ticks entry clock d d'" and "entry d k = Some (w, Some x)" and "clock d' < x"
  shows "entry d' k = Some (w, Some x)"
  using assms by (simp add: server_ticks_def)

lemma ticks_permanent:
  assumes "server_ticks entry clock d d'" and "permanent (entry d k)"
  shows "entry d' k = entry d k"
  using assms by (auto simp: server_ticks_def permanent_def)

text \<open>Up to the time \<open>T\<close> no record of the ledger expires.\<close>

definition session_tracked ::
  "('d \<Rightarrow> string \<Rightarrow> redis_entry) \<Rightarrow> (bytes \<Rightarrow> bytes) \<Rightarrow> int \<Rightarrow> session \<Rightarrow> 'd \<Rightarrow> bool" where
  "session_tracked entry sha T v d \<longleftrightarrow> storable v \<and> T < unix_milli (s_TombstoneExpiresAt v) \<and>
     holds entry v d \<and> indexed entry sha v d"

definition tracks ::
  "('d \<Rightarrow> string \<Rightarrow> redis_entry) \<Rightarrow> (bytes \<Rightarrow> bytes) \<Rightarrow> int \<Rightarrow> ledger \<Rightarrow> 'd \<Rightarrow> bool" where
  "tracks entry sha T A d \<longleftrightarrow>
     (\<forall>i v. mget (lg_Sessions A) i = Some v \<longrightarrow> s_ID v = i \<and> session_tracked entry sha T v d) \<and>
     (\<forall>i. mget (lg_Sessions A) i = None \<longrightarrow> entry d (session_key i) = None) \<and>
     (\<forall>k. mget (lg_Keys A) (idem_key sha k) = None \<longrightarrow> entry d (idem_key sha k) = None) \<and>
     (\<forall>k i. mget (lg_Keys A) (idem_key sha k) = Some i \<longrightarrow>
        (\<exists>v. mget (lg_Sessions A) i = Some v \<and> idem_key sha (s_IdempotencyKey v) = idem_key sha k)) \<and>
     (\<forall>k. k = global_leases_key \<or> (\<exists>sub. k = subject_leases_key sha sub) \<longrightarrow>
        permanent (entry d k) \<and> lease_set (entry d k) = lg_Leases A k)"

lemma tracks_session:
  assumes "tracks entry sha T A d" and "mget (lg_Sessions A) i = Some v"
  shows "s_ID v = i" and "storable v" and "T < unix_milli (s_TombstoneExpiresAt v)"
    and "registered entry sha v d" and "lease_sets entry sha v d = ledger_leases sha v A"
  using assms unfolding tracks_def session_tracked_def registered_def lasting_def lease_sets_def ledger_leases_def
  by auto

lemma tracks_ticks:
  assumes "tracks entry sha T A d" and "server_ticks entry clock d d'" and "clock d' \<le> T"
  shows "tracks entry sha T A d'"
proof -
  have live: "entry d' k = Some (w, Some x)" if "entry d k = Some (w, Some x)" "T < x" for k w x
    using ticks_live [where entry = entry, OF assms(2) that(1)] that(2) assms(3) by simp
  have gone: "entry d' k = None" if "entry d k = None" for k
    using assms(2) that by (simp add: server_ticks_def)
  have "session_tracked entry sha T v d'" if "session_tracked entry sha T v d" for v
    using that live by (simp add: session_tracked_def holds_def indexed_def)
  then show ?thesis
    using assms(1) gone ticks_permanent [where entry = entry, OF assms(2)] unfolding tracks_def by simp
qed

text \<open>One session with its lease sets is replaced by another of the same name, key and subject.\<close>

lemma tracks_update:
  assumes A: "tracks entry sha T A d" "mget (lg_Sessions A) (s_ID v) = Some v"
    and u: "s_ID u = s_ID v" "s_IdempotencyKey u = s_IdempotencyKey v" "s_SubjectID u = s_SubjectID v"
      "storable u" "T < unix_milli (s_TombstoneExpiresAt u)" "registered entry sha u d'" "lease_sets entry sha v d' = ls"
    and other: "\<And>k. k \<notin> {session_key (s_ID v), global_leases_key, subject_leases_key sha (s_SubjectID v),
      idem_key sha (s_IdempotencyKey v)} \<Longrightarrow> entry d' k = entry d k"
  shows "tracks entry sha T (ledger_put sha u ls A) d'"
proof -
  let ?B = "ledger_put sha u ls A" and ?ik = "idem_key sha (s_IdempotencyKey v)"
  have sessions: "mget (lg_Sessions ?B) i = (if i = s_ID v then Some u else mget (lg_Sessions A) i)" for i
    by (simp add: ledger_put_def u(1))
  have keys: "lg_Keys ?B = lg_Keys A" by (simp add: ledger_put_def)
  have indexed: "entry d ?ik = Some (VStr (s_ID v), Some (unix_milli (s_TombstoneExpiresAt v)))"
    using tracks_session(4) [OF A] by (simp add: registered_def indexed_def)
  have "session_tracked entry sha T w d'" if w: "mget (lg_Sessions A) i = Some w" "i \<noteq> s_ID v" for i w
  proof -
    have old: "s_ID w = i" "session_tracked entry sha T w d" using A(1) w(1) unfolding tracks_def by blast+
    then have "idem_key sha (s_IdempotencyKey w) \<noteq> ?ik"
      using indexed w(2) by (auto simp: session_tracked_def indexed_def)
    then have "entry d' (idem_key sha (s_IdempotencyKey w)) = entry d (idem_key sha (s_IdempotencyKey w))"
      by (intro other) (simp add: lease_keys_differ)
    moreover have "entry d' (session_key i) = entry d (session_key i)" using w(2) by (intro other) simp
    ultimately show ?thesis using old by (simp add: session_tracked_def holds_def indexed_def)
  qed
  moreover have "session_tracked entry sha T u d'" using u by (simp add: session_tracked_def registered_def)
  ultimately have S: "\<forall>i w. mget (lg_Sessions ?B) i = Some w \<longrightarrow> s_ID w = i \<and> session_tracked entry sha T w d'"
    using A(1) u(1) unfolding sessions tracks_def by auto
  have N: "\<forall>i. mget (lg_Sessions ?B) i = None \<longrightarrow> entry d' (session_key i) = None"
    using A(1) other unfolding sessions tracks_def by auto
  have K0: "\<forall>k. mget (lg_Keys ?B) (idem_key sha k) = None \<longrightarrow> entry d' (idem_key sha k) = None"
  proof (intro allI impI)
    fix k
    assume "mget (lg_Keys ?B) (idem_key sha k) = None"
    then have none: "entry d (idem_key sha k) = None" using A(1) unfolding keys tracks_def by blast
    then have "idem_key sha k \<noteq> ?ik" using indexed by auto
    then show "entry d' (idem_key sha k) = None" using none other by (simp add: lease_keys_differ)
  qed
  have K1: "\<forall>k i. mget (lg_Keys ?B) (idem_key sha k) = Some i \<longrightarrow>
        (\<exists>w. mget (lg_Sessions ?B) i = Some w \<and> idem_key sha (s_IdempotencyKey w) = idem_key sha k)"
  proof (intro allI impI)
    fix k i
    assume "mget (lg_Keys ?B) (idem_key sha k) = Some i"
    then obtain w where "mget (lg_Sessions A) i = Some w" "idem_key sha (s_IdempotencyKey w) = idem_key sha k"
      using A(1) unfolding keys tracks_def by blast
    then show "\<exists>w. mget (lg_Sessions ?B) i = Some w \<and> idem_key sha (s_IdempotencyKey w) = idem_key sha k"
      using A(2) u(2) unfolding sessions by auto
  qed
  have "permanent (entry d' k) \<and> lease_set (entry d' k) = lg_Leases ?B k"
    if k: "k = global_leases_key \<or> (\<exists>sub. k = subject_leases_key sha sub)" for k
  proof (cases "k \<in> {global_leases_key, subject_leases_key sha (s_SubjectID v)}")
    case True
    then show ?thesis using u(3,6,7) by (auto simp: ledger_put_def registered_def lasting_def lease_sets_def)
  next
    case False
    then have "entry d' k = entry d k"
      using k lease_keys_differ(2,3) by (intro other) (auto dest: sym)
    then show ?thesis using A(1) k False u(3) unfolding tracks_def by (auto simp: ledger_put_def)
  qed
  with S N K0 K1 show ?thesis unfolding tracks_def by blast
qed

text \<open>A new session is stored under a key that is not in use.\<close>

lemma tracks_create:
  assumes A: "tracks entry sha T A d" "mget (lg_Keys A) (idem_key sha (s_IdempotencyKey c)) = None"
    and new: "mget (lg_Sessions A) (s_ID c) = None"
    and c: "storable c" "T < unix_milli (s_TombstoneExpiresAt c)" "holds entry c d'" "indexed entry sha c d'"
    and other: "\<And>k. k \<notin> {session_key (s_ID c), idem_key sha (s_IdempotencyKey c)} \<Longrightarrow> entry d' k = entry d k"
  shows "tracks entry sha T (A\<lparr> lg_Sessions := mput (s_ID c) c (lg_Sessions A),
    lg_Keys := mput (idem_key sha (s_IdempotencyKey c)) (s_ID c) (lg_Keys A) \<rparr>) d'"
proof -
  let ?ik = "idem_key sha (s_IdempotencyKey c)"
  let ?B = "A\<lparr> lg_Sessions := mput (s_ID c) c (lg_Sessions A), lg_Keys := mput ?ik (s_ID c) (lg_Keys A) \<rparr>"
  have free: "entry d ?ik = None" using A unfolding tracks_def by blast
  have "session_tracked entry sha T w d'" if w: "mget (lg_Sessions A) i = Some w" "i \<noteq> s_ID c" for i w
  proof -
    have old: "s_ID w = i" "session_tracked entry sha T w d" using A(1) w(1) unfolding tracks_def by blast+
    then have "idem_key sha (s_IdempotencyKey w) \<noteq> ?ik"
      using free by (auto simp: session_tracked_def indexed_def)
    then show ?thesis
      using old w(2) other [of "session_key i"] other [of "idem_key sha (s_IdempotencyKey w)"]
      by (simp add: session_tracked_def holds_def indexed_def)
  qed
  moreover have "session_tracked entry sha T c d'" using c by (simp add: session_tracked_def)
  ultimately have S: "\<forall>i w. mget (lg_Sessions ?B) i = Some w \<longrightarrow> s_ID w = i \<and> session_tracked entry sha T w d'"
    using A(1) unfolding tracks_def by auto
  have N: "\<forall>i. mget (lg_Sessions ?B) i = None \<longrightarrow> entry d' (session_key i) = None"
    using A(1) other unfolding tracks_def by auto
  have K0: "\<forall>k. mget (lg_Keys ?B) (idem_key sha k) = None \<longrightarrow> entry d' (idem_key sha k) = None"
    using A(1) other unfolding tracks_def by auto
  have K1: "\<forall>k i. mget (lg_Keys ?B) (idem_key sha k) = Some i \<longrightarrow>
        (\<exists>w. mget (lg_Sessions ?B) i = Some w \<and> idem_key sha (s_IdempotencyKey w) = idem_key sha k)"
  proof (intro allI impI)
    fix k i
    assume i: "mget (lg_Keys ?B) (idem_key sha k) = Some i"
    show "\<exists>w. mget (lg_Sessions ?B) i = Some w \<and> idem_key sha (s_IdempotencyKey w) = idem_key sha k"
    proof (cases "idem_key sha k = ?ik")
      case True
      with i show ?thesis by simp
    next
      case False
      with i have "mget (lg_Keys A) (idem_key sha k) = Some i" by simp
      then obtain w where w: "mget (lg_Sessions A) i = Some w" "idem_key sha (s_IdempotencyKey w) = idem_key sha k"
        using A(1) unfolding tracks_def by blast
      moreover have "i \<noteq> s_ID c" using w(1) new by auto
      ultimately show ?thesis by simp
    qed
  qed
  have "permanent (entry d' k) \<and> lease_set (entry d' k) = lg_Leases ?B k"
    if k: "k = global_leases_key \<or> (\<exists>sub. k = subject_leases_key sha sub)" for k
  proof -
    have "entry d' k = entry d k" using k lease_keys_differ(2,3) by (intro other) (auto dest: sym)
    then show ?thesis using A(1) k unfolding tracks_def by auto
  qed
  with S N K0 K1 show ?thesis unfolding tracks_def by blast
qed

section \<open>The methods answer what the ledger answers\<close>

locale redis_reliable = redis_client +
  assumes delivered: "lk_Fate lk n d = Delivered"
begin

lemma trip_delivered: "trip lk n f d = f (lk_Before lk n d)"
  by (simp add: trip_def delivered)

lemma clock_before: "clock d \<le> clock (lk_Before lk n d)"
  using before_ticks [of d n] by (simp add: server_ticks_def)

lemma tracks_before:
  "tracks entry sha256 T A d \<Longrightarrow> clock (lk_Before lk n d) \<le> T \<Longrightarrow> tracks entry sha256 T A (lk_Before lk n d)"
  by (rule tracks_ticks [OF _ before_ticks])

lemma load_state:
  assumes "load rd lk n sid d = (r, d')"
  shows "d' = lk_Before lk n d"
proof -
  have "snd (rd_HGETALL rd (session_key sid) a) = a" for a
    using reads(5) by (metis prod.collapse)
  then show ?thesis
    using assms by (auto simp: load_def trip_delivered split: prod.splits sum.splits) (metis snd_conv)+
qed

lemma load_clock: "load rd lk n sid d = (r, d') \<Longrightarrow> clock d \<le> clock d'"
  using load_state clock_before by blast

lemma load_tracked:
  assumes "load rd lk n i d = (r, d')" and "tracks entry sha256 T A d" and "clock d' \<le> T"
    and "mget (lg_Sessions A) i = Some v"
  shows "r = Inr (stored_form v)" and "tracks entry sha256 T A d'"
proof -
  show A': "tracks entry sha256 T A d'"
    using tracks_before assms(2,3) load_state [OF assms(1)] by simp
  note v = tracks_session [OF A' assms(4)]
  have "entry (lk_Before lk n d) (session_key i) =
      Some (VHash (session_hash v), Some (unix_milli (s_TombstoneExpiresAt v)))"
    using v(1,4) load_state [OF assms(1)] by (simp add: registered_def holds_def)
  then show "r = Inr (stored_form v)"
    using assms(1) decode_session_hash [OF v(2)]
    by (auto simp: load_def trip_delivered hgetall_law as_hash_def split: prod.splits sum.splits)
qed

text \<open>
  What holds of the server's clock at the first request of a method, and is kept while time passes,
  holds at its end: scripts take no time.
\<close>

lemma get_clock:
  assumes "redis_GetByKey rd sha256 lk key d = (r, d')"
    and step: "\<And>n d. P (clock d) \<Longrightarrow> P (clock (lk_Before lk n d))" and "P (clock (lk_Before lk 0 d))"
  shows "P (clock d')"
proof -
  obtain x where "rd_GET rd (idem_key sha256 key) (lk_Before lk 0 d) = (x, lk_Before lk 0 d)"
    using reads(1) by (metis surj_pair)
  with assms show ?thesis
    by (auto simp: redis_GetByKey_def trip_delivered split: sum.splits option.splits dest!: load_state)
qed

lemma create_clock:
  assumes "redis_CreateOrGet rd sha256 lk key c d = (r, d')"
    and step: "\<And>n d. P (clock d) \<Longrightarrow> P (clock (lk_Before lk n d))" and "P (clock (lk_Before lk 0 d))"
  shows "P (clock d')"
proof -
  let ?script = "create_script rd (idem_key sha256 key) (session_key (s_ID c)) session_prefix (dec_int (unix_milli (s_CreatedAt c)))
    (hex_encode (s_RequestFingerprint c)) (s_ID c) (encode c) (unix_milli (s_TombstoneExpiresAt c))"
  obtain y b where run: "?script (lk_Before lk 0 d) = (y, b)" by fastforce
  then have "d' = b \<or> d' = lk_Before lk 1 b"
    using assms(1) load_state by (auto simp: redis_CreateOrGet_def trip_delivered split: sum.splits prod.splits if_splits)
  moreover have "P (clock b)" using confinedD(1) [OF confined_create_script run] assms(3) by simp
  ultimately show ?thesis using step by blast
qed

lemma close_clock:
  assumes "redis_CloseAndRelease rd sha256 lk sid lease reason now d = (r, d')"
    and step: "\<And>n d. P (clock d) \<Longrightarrow> P (clock (lk_Before lk n d))" and "P (clock (lk_Before lk 0 d))"
  shows "P (clock d')"
proof -
  let ?a = "lk_Before lk 0 d"
  let ?script = "\<lambda>subject. close_script rd (session_key sid) global_leases_key (subject_leases_key sha256 subject) lease
    reason (unix_milli now) sid"
  obtain x where get: "rd_HGET rd (session_key sid) ''subject_id'' ?a = (x, ?a)" using reads(3) by (metis surj_pair)
  have "P (clock c)" if "?script subject (lk_Before lk 1 ?a) = (y, c)" for subject y c
    using confinedD(1) [OF confined_scripts(2) [where L = "{}"] that] step [OF assms(3)] by simp
  then show ?thesis
    using assms get
    by (auto simp: redis_CloseAndRelease_def trip_delivered split: sum.splits option.splits prod.splits if_splits)
qed

lemma claim_clock:
  assumes "redis_ClaimAndReserve rd sha256 lk sid dg now lim d = (r, d')"
    and step: "\<And>n d. P (clock d) \<Longrightarrow> P (clock (lk_Before lk n d))" and "P (clock (lk_Before lk 0 d))"
  shows "P (clock d')"
proof -
  let ?a = "lk_Before lk 0 d" and ?ex = "now + cl_SessionMaxDuration lim"
  let ?script = "\<lambda>subject ikey. claim_script rd (session_key sid) global_leases_key (subject_leases_key sha256 subject)
    (idem_key sha256 ikey) (unix_milli now) (hex_encode dg) (cl_MaxActive lim) (cl_MaxActivePerSubject lim)
    (unix_milli ?ex) (sid @ '':lease'') sid (unix_milli (?ex + cl_IdempotencyTTL lim))"
  obtain x where get: "rd_HMGET rd (session_key sid) [''subject_id'', ''idempotency_key''] ?a = (x, ?a)"
    using reads(4) by (metis surj_pair)
  have after: "P (clock c)" if "?script subject ikey (lk_Before lk 1 ?a) = (y, c)" for subject ikey y c
    using confinedD(1) [OF confined_scripts(1) [where L = "{}"] that] step [OF assms(3)] by simp
  have "d' = ?a \<or> (\<exists>subject ikey y c. ?script subject ikey (lk_Before lk 1 ?a) = (y, c) \<and> (d' = c \<or> d' = lk_Before lk 2 c))"
    using assms(1) get load_state
    by (fastforce simp: redis_ClaimAndReserve_def trip_delivered Let_def
        split: sum.splits option.splits list.splits prod.splits if_splits)
  then show ?thesis using after step assms(3) by blast
qed

lemma not_earlier:
  assumes "clock (lk_Before lk 0 d) \<le> clock a"
  shows "clock (lk_Before lk 0 d) \<le> clock (lk_Before lk n a)"
  using assms clock_before order_trans by blast

lemma redis_get_tracked:
  assumes "redis_GetByKey rd sha256 lk key d = (r, d')" and "tracks entry sha256 T A d" and "clock d' \<le> T"
  shows "r = fst (ledger_GetByKey sha256 key A)" and "tracks entry sha256 T (snd (ledger_GetByKey sha256 key A)) d'"
proof -
  let ?a = "lk_Before lk 0 d" and ?ik = "idem_key sha256 key"
  obtain x where get: "rd_GET rd ?ik ?a = (x, ?a)" using reads(1) by (metis surj_pair)
  have late: "clock ?a \<le> clock d'" using get_clock [OF assms(1), of "\<lambda>c. clock ?a \<le> c"] not_earlier by simp
  then have A: "tracks entry sha256 T A ?a" using tracks_before assms(2,3) by simp
  have "r = fst (ledger_GetByKey sha256 key A) \<and> tracks entry sha256 T (snd (ledger_GetByKey sha256 key A)) d'"
  proof (cases "mget (lg_Keys A) ?ik")
    case None
    then have "entry ?a ?ik = None" using A unfolding tracks_def by blast
    then have "rd_GET rd ?ik ?a = (Inr None, ?a)" by (simp add: get_law as_string_def)
    then show ?thesis using assms(1) A None by (simp add: redis_GetByKey_def trip_delivered ledger_GetByKey_def)
  next
    case (Some i)
    then obtain v where v: "mget (lg_Sessions A) i = Some v" "idem_key sha256 (s_IdempotencyKey v) = ?ik"
      using A unfolding tracks_def by blast
    then have "entry ?a ?ik = Some (VStr i, Some (unix_milli (s_TombstoneExpiresAt v)))"
      using tracks_session(1,4) [OF A v(1)] by (simp add: registered_def indexed_def)
    then have "rd_GET rd ?ik ?a = (Inr (Some i), ?a)" by (simp add: get_law as_string_def)
    then have "load rd lk 1 i ?a = (r, d')" using assms(1) by (simp add: redis_GetByKey_def trip_delivered)
    from load_tracked [OF this A assms(3) v(1)] show ?thesis
      using Some v(1) by (simp add: ledger_GetByKey_def)
  qed
  then show "r = fst (ledger_GetByKey sha256 key A)" "tracks entry sha256 T (snd (ledger_GetByKey sha256 key A)) d'"
    by blast+
qed

lemma redis_close_tracked:
  assumes "redis_CloseAndRelease rd sha256 lk sid lease reason now d = (r, d')" and "tracks entry sha256 T A d"
    and "clock d' \<le> T" and "stamp now"
  shows "r = fst (ledger_CloseAndRelease sha256 sid lease reason now A)"
    and "tracks entry sha256 T (snd (ledger_CloseAndRelease sha256 sid lease reason now A)) d'"
proof -
  let ?a = "lk_Before lk 0 d" and ?L = "ledger_CloseAndRelease sha256 sid lease reason now A"
  let ?b = "lk_Before lk 1 ?a"
  let ?script = "\<lambda>subject. close_script rd (session_key sid) global_leases_key (subject_leases_key sha256 subject) lease
    reason (unix_milli now) sid"
  obtain x where get: "rd_HGET rd (session_key sid) ''subject_id'' ?a = (x, ?a)" using reads(3) by (metis surj_pair)
  have same: "clock c = clock ?b" if "?script subject ?b = (y, c)" for subject y c
    using confinedD(1) [OF confined_scripts(2) [where L = "{}"] that] by simp
  have "clock ?a \<le> clock d'" using close_clock [OF assms(1), of "\<lambda>c. clock ?a \<le> c"] not_earlier by simp
  then have A: "tracks entry sha256 T A ?a" using tracks_before assms(2,3) by simp
  have "r = fst ?L \<and> tracks entry sha256 T (snd ?L) d'"
  proof (cases "mget (lg_Sessions A) sid")
    case None
    then have "entry ?a (session_key sid) = None" using A unfolding tracks_def by blast
    then show ?thesis
      using assms(1) A None
      by (simp add: redis_CloseAndRelease_def trip_delivered hget_law as_hash_def ledger_CloseAndRelease_def)
  next
    case (Some v)
    note v = tracks_session [OF A Some]
    have "x = Inr (Some (s_SubjectID v))"
      using get v(1,4) by (auto simp: registered_def holds_def hget_law as_hash_def stored_fields)
    then obtain y where run: "?script (s_SubjectID v) ?b = (y, d')"
      and r: "(r, d') = (case y of Inl e \<Rightarrow> (Inl (unavailable e), d') | Inr vs \<Rightarrow> (case single_code vs of Inl e \<Rightarrow> (Inl e, d')
        | Inr code \<Rightarrow> if code = 1 then (Inl (Sentinel ErrNotFound), d')
          else if code = 2 then (Inl (Sentinel ErrFailedPrecondition), d') else (Inr (), d')))"
      using assms(1) get
      by (cases "?script (s_SubjectID v) ?b") (auto simp: redis_CloseAndRelease_def trip_delivered split: sum.splits if_splits)
    have B: "tracks entry sha256 T A ?b" using tracks_before [OF A] same [OF run] assms(3) by simp
    have Bv: "mget (lg_Sessions A) (s_ID v) = Some v" using Some v(1) by simp
    note b = tracks_session [OF B Bv]
    note held = close_script_held [OF run [folded v(1)] b(4,2) assms(4), unfolded b(5)]
    let ?u = "close_record v lease reason now"
    have "tracks entry sha256 T (ledger_put sha256 ?u (close_leases v (ledger_leases sha256 v A) lease) A) d'"
    proof (rule tracks_update [OF B Bv])
      show "entry d' k = entry ?b k" if "k \<notin> {session_key (s_ID v), global_leases_key, subject_leases_key sha256 (s_SubjectID v),
          idem_key sha256 (s_IdempotencyKey v)}" for k
        using confinedD(2) [OF confined_scripts(2) [where L = "{}"] run] that v(1) by simp
      show "registered entry sha256 ?u d'" by (rule held(2))
      show "lease_sets entry sha256 v d' = close_leases v (ledger_leases sha256 v A) lease" by (rule held(3))
    qed (use b(2,3) storable_closed [OF b(2) assms(4)] in \<open>simp_all add: close_record_def\<close>)
    moreover have "r = close_answer v lease"
      using r held(1) by (auto simp: single_code_def close_answer_def split: if_splits)
    ultimately show ?thesis using Some by (simp add: ledger_CloseAndRelease_def)
  qed
  then show "r = fst ?L" "tracks entry sha256 T (snd ?L) d'" by blast+
qed

lemma redis_create_tracked:
  assumes "redis_CreateOrGet rd sha256 lk (s_IdempotencyKey c) c d = (r, d')" and "tracks entry sha256 T A d"
    and "clock d' \<le> T" and c: "storable c" "stamp (s_CreatedAt c)" "T < unix_milli (s_TombstoneExpiresAt c)"
    and new: "mget (lg_Keys A) (idem_key sha256 (s_IdempotencyKey c)) = None \<Longrightarrow> mget (lg_Sessions A) (s_ID c) = None"
  shows "r = fst (ledger_CreateOrGet sha256 (s_IdempotencyKey c) c A)"
    and "tracks entry sha256 T (snd (ledger_CreateOrGet sha256 (s_IdempotencyKey c) c A)) d'"
proof -
  let ?a = "lk_Before lk 0 d" and ?ik = "idem_key sha256 (s_IdempotencyKey c)"
  let ?L = "ledger_CreateOrGet sha256 (s_IdempotencyKey c) c A"
  let ?existing = "\<lambda>sid. create_existing rd (session_key sid) (dec_int (unix_milli (s_CreatedAt c)))
    (hex_encode (s_RequestFingerprint c)) sid"
  let ?new = "create_new rd ?ik (session_key (s_ID c)) (s_ID c) (encode c) (unix_milli (s_TombstoneExpiresAt c))"
  let ?script = "create_script rd ?ik (session_key (s_ID c)) session_prefix (dec_int (unix_milli (s_CreatedAt c)))
    (hex_encode (s_RequestFingerprint c)) (s_ID c) (encode c) (unix_milli (s_TombstoneExpiresAt c))"
  obtain g where get: "rd_GET rd ?ik ?a = (g, ?a)" using reads(1) by (metis surj_pair)
  obtain y b where run: "?script ?a = (y, b)" by fastforce
  have split: "(case g of Inl e \<Rightarrow> (Inl e, ?a) | Inr None \<Rightarrow> ?new ?a | Inr (Some sid) \<Rightarrow> ?existing sid ?a) = (y, b)"
    using run get by (simp add: create_script_def rbind_def session_key_def split: sum.splits option.splits)
  have cb: "clock b = clock ?a"
    using split confinedD(1) [OF confined_scripts(3) [where L = "{}"]] confinedD(1) [OF confined_create_existing [where L = "{}"]]
    by (auto split: sum.splits option.splits)
  have reply: "(r, d') = (case y of Inl e \<Rightarrow> (Inl (unavailable e), b) | Inr vs \<Rightarrow> (case result_code_id vs of Inl e \<Rightarrow> (Inl e, b)
      | Inr (code, sid) \<Rightarrow>
          if code = 2 then (Inl (Sentinel ErrConflict), b) else if code = 3 then (Inl (Sentinel ErrFailedPrecondition), b)
          else (case load rd lk 1 sid b of (Inl e, d2) \<Rightarrow> (Inl e, d2) | (Inr st, d2) \<Rightarrow> (Inr (st, code = 1), d2))))"
    using assms(1) run by (simp add: redis_CreateOrGet_def trip_delivered)
  have late: "clock b \<le> clock d'"
    using reply by (auto split: sum.splits prod.splits if_splits dest: load_clock)
  then have A: "tracks entry sha256 T A ?a" using tracks_before assms(2,3) cb by simp
  have "r = fst ?L \<and> tracks entry sha256 T (snd ?L) d'"
  proof (cases "mget (lg_Keys A) ?ik")
    case None
    let ?B = "A\<lparr> lg_Sessions := mput (s_ID c) c (lg_Sessions A), lg_Keys := mput ?ik (s_ID c) (lg_Keys A) \<rparr>"
    note new = new [OF None]
    have "entry ?a ?ik = None" "entry ?a (session_key (s_ID c)) = None" using A None new unfolding tracks_def by blast+
    then have made: "?new ?a = (y, b)" "entry ?a (session_key (s_ID c)) = None"
      using split get by (auto simp: get_law as_string_def)
    note held = create_new_held [OF made]
    have live: "clock ?a < unix_milli (s_TombstoneExpiresAt c)" using cb late assms(3) c(3) by simp
    have B: "tracks entry sha256 T ?B b"
    proof (rule tracks_create [OF A None new c(1,3) held(2,3) [OF live]])
      show "entry b k = entry ?a k" if "k \<notin> {session_key (s_ID c), ?ik}" for k
        using confinedD(2) [OF confined_scripts(3) [where L = "{}"] made(1)] that by simp
    qed
    obtain z where z: "load rd lk 1 (s_ID c) b = (z, d')" "r = (case z of Inl e \<Rightarrow> Inl e | Inr st \<Rightarrow> Inr (st, False))"
      using reply held(1) [OF live]
      by (cases "load rd lk 1 (s_ID c) b") (auto simp: result_code_id_def single_code_def split: sum.splits)
    have "mget (lg_Sessions ?B) (s_ID c) = Some c" by simp
    from load_tracked [OF z(1) B assms(3) this] show ?thesis using z(2) None by (simp add: ledger_CreateOrGet_def)
  next
    case (Some i)
    then obtain v where i: "mget (lg_Sessions A) i = Some v" "idem_key sha256 (s_IdempotencyKey v) = ?ik"
      using A unfolding tracks_def by blast
    note v = tracks_session [OF A i(1)]
    have "entry ?a ?ik = Some (VStr i, Some (unix_milli (s_TombstoneExpiresAt v)))"
      using v(1,4) i(2) by (simp add: registered_def indexed_def)
    then have made: "?existing (s_ID v) ?a = (y, b)" using split get v(1) by (auto simp: get_law as_string_def)
    note held = create_existing_held [OF made v(4,2) c(2)]
    let ?u = "create_record v c" and ?answer = "create_answer v c"
    let ?B = "ledger_put sha256 ?u (ledger_leases sha256 v A) A"
    have Av: "mget (lg_Sessions A) (s_ID v) = Some v" using i(1) v(1) by simp
    have B: "tracks entry sha256 T ?B b"
    proof (rule tracks_update [OF A Av])
      show "entry b k = entry ?a k" if "k \<notin> {session_key (s_ID v), global_leases_key, subject_leases_key sha256 (s_SubjectID v),
          idem_key sha256 (s_IdempotencyKey v)}" for k
        using confinedD(2) [OF confined_create_existing [where L = "{}"] made] that by simp
      show "registered entry sha256 ?u b" by (rule held(2))
      show "lease_sets entry sha256 v b = ledger_leases sha256 v A" using held(3) v(5) by simp
    qed (use v(2,3) storable_closed [OF v(2) c(2)] in \<open>simp_all add: create_record_def\<close>)
    have L: "?L = (?answer, ?B)" using Some i(1) by (simp add: ledger_CreateOrGet_def)
    show ?thesis
    proof (cases ?answer)
      case (Inl e)
      then have "e \<in> {Sentinel ErrConflict, Sentinel ErrFailedPrecondition}" by (auto simp: create_answer_def split: if_splits)
      then have "(r, d') = (Inl e, b)"
        using reply held(1) Inl by (auto simp: create_code_def result_code_id_def single_code_def)
      then show ?thesis using L B Inl by simp
    next
      case (Inr x)
      then have x: "x = (stored_form v, True)" "?u = v" by (auto simp: create_answer_def create_record_def split: if_splits)
      obtain z where z: "load rd lk 1 (s_ID v) b = (z, d')" "r = (case z of Inl e \<Rightarrow> Inl e | Inr st \<Rightarrow> Inr (st, True))"
        using reply held(1) Inr
        by (cases "load rd lk 1 (s_ID v) b") (auto simp: create_code_def result_code_id_def single_code_def split: sum.splits)
      have "mget (lg_Sessions ?B) (s_ID v) = Some v" by (simp add: ledger_put_def x(2))
      from load_tracked [OF z(1) B assms(3) this] show ?thesis using z(2) L Inr x(1) by simp
    qed
  qed
  then show "r = fst ?L" "tracks entry sha256 T (snd ?L) d'" by blast+
qed

lemma redis_claim_tracked:
  assumes "redis_ClaimAndReserve rd sha256 lk sid dg now lim d = (r, d')" and "tracks entry sha256 T A d"
    and "clock d' \<le> T" and now: "claim_stamps now lim" "T < unix_milli (now + cl_SessionMaxDuration lim + cl_IdempotencyTTL lim)"
  shows "r = fst (ledger_ClaimAndReserve sha256 sid dg now lim A)"
    and "tracks entry sha256 T (snd (ledger_ClaimAndReserve sha256 sid dg now lim A)) d'"
proof -
  let ?a = "lk_Before lk 0 d" and ?L = "ledger_ClaimAndReserve sha256 sid dg now lim A"
  let ?b = "lk_Before lk 1 ?a" and ?ex = "now + cl_SessionMaxDuration lim"
  let ?script = "\<lambda>subject ikey. claim_script rd (session_key sid) global_leases_key (subject_leases_key sha256 subject)
    (idem_key sha256 ikey) (unix_milli now) (hex_encode dg) (cl_MaxActive lim) (cl_MaxActivePerSubject lim)
    (unix_milli ?ex) (sid @ '':lease'') sid (unix_milli (?ex + cl_IdempotencyTTL lim))"
  obtain x where get: "rd_HMGET rd (session_key sid) [''subject_id'', ''idempotency_key''] ?a = (x, ?a)"
    using reads(4) by (metis surj_pair)
  have same: "clock c = clock ?b" if "?script subject ikey ?b = (y, c)" for subject ikey y c
    using confinedD(1) [OF confined_scripts(1) [where L = "{}"] that] by simp
  have "clock ?a \<le> clock d'" using claim_clock [OF assms(1), of "\<lambda>c. clock ?a \<le> c"] not_earlier by simp
  then have A: "tracks entry sha256 T A ?a" using tracks_before assms(2,3) by simp
  have "r = fst ?L \<and> tracks entry sha256 T (snd ?L) d'"
  proof (cases "mget (lg_Sessions A) sid")
    case None
    then have "entry ?a (session_key sid) = None" using A unfolding tracks_def by blast
    then show ?thesis
      using assms(1) A None
      by (simp add: redis_ClaimAndReserve_def trip_delivered hmget_law as_hash_def ledger_ClaimAndReserve_def)
  next
    case (Some v)
    note v = tracks_session [OF A Some]
    have "x = Inr [Some (s_SubjectID v), Some (s_IdempotencyKey v)]"
      using get v(1,4) by (auto simp: registered_def holds_def hmget_law as_hash_def stored_fields)
    moreover obtain y b where run: "?script (s_SubjectID v) (s_IdempotencyKey v) ?b = (y, b)" by fastforce
    ultimately have reply: "(r, d') = (case y of Inl e \<Rightarrow> (Inl (unavailable e), b) | Inr vs \<Rightarrow> (case single_code vs of Inl e \<Rightarrow> (Inl e, b)
        | Inr code \<Rightarrow>
            if code = 1 then (Inl (Sentinel ErrNotFound), b) else if code = 2 then (Inl (Sentinel ErrInvalidTicket), b)
            else if code = 3 then (Inl (Sentinel ErrFailedPrecondition), b)
            else if code = 4 then (Inl (Sentinel ErrCapacity), b)
            else (case load rd lk 2 sid b of (Inl e, d3) \<Rightarrow> (Inl e, d3)
              | (Inr st, d3) \<Rightarrow> (Inr \<lparr> le_ID = sid @ '':lease'', le_Session = st, le_ExpiresAt = ?ex \<rparr>, d3))))"
      using assms(1) get by (simp add: redis_ClaimAndReserve_def trip_delivered Let_def)
    have cb: "clock b = clock ?b" by (rule same [OF run])
    have "clock b \<le> clock d'"
      using reply by (auto split: sum.splits prod.splits if_splits dest: load_clock)
    then have B: "tracks entry sha256 T A ?b" using tracks_before [OF A] cb assms(3) by simp
    have Bv: "mget (lg_Sessions A) (s_ID v) = Some v" using Some v(1) by simp
    note b = tracks_session [OF B Bv]
    let ?ls = "ledger_leases sha256 v A"
    let ?u = "claim_record v ?ls dg now lim" and ?answer = "claim_answer v ?ls dg now lim"
    let ?C = "ledger_put sha256 ?u (claim_leases v ?ls dg now lim) A"
    have st: "stamp now" "stamp ?ex" "stamp (?ex + cl_IdempotencyTTL lim)" using now(1) by (simp_all add: claim_stamps_def)
    have u: "storable ?u" "T < unix_milli (s_TombstoneExpiresAt ?u)"
      using b(2,3) now(2) storable_claimed [OF b(2) st] storable_closed [OF b(2) st(1)]
      by (simp_all add: claim_record_def split: sum.split)
    have "clock ?b \<le> T" using \<open>clock b \<le> clock d'\<close> cb assms(3) by simp
    then have live: "clock ?b < unix_milli (s_TombstoneExpiresAt ?u)" using u(2) by simp
    note held = claim_script_held [OF run [folded v(1)] b(4,2) now(1), unfolded b(5), OF live]
    have C: "tracks entry sha256 T ?C b"
    proof (rule tracks_update [OF B Bv])
      show "entry b k = entry ?b k" if "k \<notin> {session_key (s_ID v), global_leases_key, subject_leases_key sha256 (s_SubjectID v),
          idem_key sha256 (s_IdempotencyKey v)}" for k
        using confinedD(2) [OF confined_scripts(1) [where L = "{}"] run] that v(1) by simp
    qed (use u held(2,3) in simp_all)
    have L: "?L = (?answer, ?C)" using Some by (simp add: ledger_ClaimAndReserve_def)
    show ?thesis
    proof (cases ?answer)
      case (Inl e)
      then have "e \<in> {Sentinel ErrFailedPrecondition, Sentinel ErrInvalidTicket, Sentinel ErrCapacity}"
        by (auto simp: claim_answer_def split: if_splits)
      then have "(r, d') = (Inl e, b)"
        using reply held(1) Inl by (auto simp: single_code_def claim_code_def)
      then show ?thesis using L C Inl by simp
    next
      case (Inr l)
      then have w: "?u = claimed_session (sid @ '':lease'') now lim v"
        "l = \<lparr> le_ID = sid @ '':lease'', le_Session = stored_form ?u, le_ExpiresAt = ?ex \<rparr>"
        using v(1) by (auto simp: claim_record_def claim_answer_def split: if_splits)
      obtain z where z: "load rd lk 2 sid b = (z, d')" "r = (case z of Inl e \<Rightarrow> Inl e
          | Inr st \<Rightarrow> Inr \<lparr> le_ID = sid @ '':lease'', le_Session = st, le_ExpiresAt = ?ex \<rparr>)"
        using reply held(1) Inr
        by (cases "load rd lk 2 sid b") (auto simp: single_code_def claim_code_def split: sum.splits)
      have "mget (lg_Sessions ?C) sid = Some ?u" using v(1) by (simp add: ledger_put_def)
      from load_tracked [OF z(1) C assms(3) this] show ?thesis using z(2) L Inr w(2) by simp
    qed
  qed
  then show "r = fst ?L" "tracks entry sha256 T (snd ?L) d'" by blast+
qed

end

section \<open>Histories\<close>

fun admissible :: "int \<Rightarrow> store_event \<Rightarrow> bool" where
  "admissible T (EvCreate key c) \<longleftrightarrow> key = s_IdempotencyKey c \<and> storable c \<and> stamp (s_CreatedAt c) \<and>
     T < unix_milli (s_TombstoneExpiresAt c)"
| "admissible T (EvGet key) \<longleftrightarrow> True"
| "admissible T (EvClaim sid d now lim) \<longleftrightarrow> claim_stamps now lim \<and>
     T < unix_milli (now + cl_SessionMaxDuration lim + cl_IdempotencyTTL lim)"
| "admissible T (EvClose sid lease reason now) \<longleftrightarrow> stamp now"

definition new_ids :: "ledger \<Rightarrow> store_event list \<Rightarrow> bool" where
  "new_ids A es \<longleftrightarrow> distinct (created_ids es) \<and> (\<forall>i \<in> set (created_ids es). mget (lg_Sessions A) i = None)"

lemma ledger_known:
  assumes "\<And>j v. mget (lg_Sessions A) j = Some v \<Longrightarrow> s_ID v = j" and "i \<notin> set (created_id e)"
  shows "mget (lg_Sessions (snd (exec_event (ledger_ops sha) e A))) i = None \<longleftrightarrow> mget (lg_Sessions A) i = None"
proof -
  have put: "mget (lg_Sessions (ledger_put sha u ls A)) i = None \<longleftrightarrow> mget (lg_Sessions A) i = None"
    if "mget (lg_Sessions A) j = Some v" "s_ID u = s_ID v" for u ls v j
    using assms(1) [OF that(1)] that by (auto simp: ledger_put_def)
  show ?thesis
    using assms(2)
    by (cases e) (auto simp: ledger_ops_def ledger_CreateOrGet_def ledger_GetByKey_def ledger_ClaimAndReserve_def
        ledger_CloseAndRelease_def apfst_def map_prod_def put create_record_def close_record_def split: option.splits)
qed

lemma new_ids_step:
  fixes sha :: "bytes \<Rightarrow> bytes"
  assumes "\<And>j v. mget (lg_Sessions A) j = Some v \<Longrightarrow> s_ID v = j" and "new_ids A (e # es)"
  shows "new_ids A [e]" and "new_ids (snd (exec_event (ledger_ops sha) e A)) es"
proof -
  have "mget (lg_Sessions (snd (exec_event (ledger_ops sha) e A))) i = None \<longleftrightarrow> mget (lg_Sessions A) i = None"
    if "i \<notin> set (created_id e)" for i
    by (rule ledger_known [OF assms(1) that])
  then show "new_ids (snd (exec_event (ledger_ops sha) e A)) es" and "new_ids A [e]"
    using assms(2) by (auto simp: new_ids_def)
qed

context redis_reliable
begin

lemma exec_event_tracked:
  assumes "exec_event (redis_ops rd sha256 lk) e d = (r, d')" and "tracks entry sha256 T A d" and "clock d' \<le> T"
    and "admissible T e" and "\<forall>i \<in> set (created_id e). mget (lg_Sessions A) i = None"
  shows "r = fst (exec_event (ledger_ops sha256) e A)"
    and "tracks entry sha256 T (snd (exec_event (ledger_ops sha256) e A)) d'"
proof -
  have "r = fst (exec_event (ledger_ops sha256) e A) \<and> tracks entry sha256 T (snd (exec_event (ledger_ops sha256) e A)) d'"
  proof (cases e)
    case (EvCreate key c)
    then show ?thesis
      using assms redis_create_tracked [of c d _ d' T A]
      by (cases "redis_CreateOrGet rd sha256 lk key c d") (auto simp: redis_ops_def ledger_ops_def)
  next
    case (EvGet key)
    then show ?thesis
      using assms redis_get_tracked [of key d _ d' T A]
      by (cases "redis_GetByKey rd sha256 lk key d") (auto simp: redis_ops_def ledger_ops_def)
  next
    case (EvClaim sid dg now lim)
    then show ?thesis
      using assms redis_claim_tracked [of sid dg now lim d _ d' T A]
      by (cases "redis_ClaimAndReserve rd sha256 lk sid dg now lim d") (auto simp: redis_ops_def ledger_ops_def)
  next
    case (EvClose sid lease reason now)
    then show ?thesis
      using assms redis_close_tracked [of sid lease reason now d _ d' T A]
      by (cases "redis_CloseAndRelease rd sha256 lk sid lease reason now d") (auto simp: redis_ops_def ledger_ops_def)
  qed
  then show "r = fst (exec_event (ledger_ops sha256) e A)"
    "tracks entry sha256 T (snd (exec_event (ledger_ops sha256) e A)) d'" by blast+
qed

lemma exec_event_clock:
  assumes "exec_event (redis_ops rd sha256 lk) e d = (r, d')"
    and "\<And>n d. P (clock d) \<Longrightarrow> P (clock (lk_Before lk n d))" and "P (clock d)"
  shows "P (clock d')"
proof -
  have "P (clock (lk_Before lk 0 d))" using assms(2,3) .
  then show ?thesis
    using assms(1) get_clock [of _ d _ d' P, OF _ assms(2)] create_clock [of _ _ d _ d' P, OF _ assms(2)]
      close_clock [of _ _ _ _ d _ d' P, OF _ assms(2)] claim_clock [of _ _ _ _ d _ d' P, OF _ assms(2)]
    by (cases e) (auto simp: redis_ops_def apfst_def map_prod_def split: prod.splits)
qed

lemma run_events_clock:
  assumes "run_events (redis_ops rd sha256 lk) es d = (rs, d')"
    and step: "\<And>n d. P (clock d) \<Longrightarrow> P (clock (lk_Before lk n d))" and "P (clock d)"
  shows "P (clock d')"
  using assms(1,3)
proof (induction es arbitrary: d rs)
  case (Cons e es)
  obtain r d1 where ex: "exec_event (redis_ops rd sha256 lk) e d = (r, d1)" by fastforce
  obtain rs1 where "run_events (redis_ops rd sha256 lk) es d1 = (rs1, d')"
    using Cons.prems ex by (cases "run_events (redis_ops rd sha256 lk) es d1") auto
  from Cons.IH [OF this] exec_event_clock [OF ex step Cons.prems(2)] show ?case by simp
qed simp

lemma history_tracked:
  assumes "run_events (redis_ops rd sha256 lk) es d = (rs, d')" and "tracks entry sha256 T A d" and "clock d' \<le> T"
    and "list_all (admissible T) es" and "new_ids A es"
  shows "rs = fst (run_events (ledger_ops sha256) es A) \<and> tracks entry sha256 T (snd (run_events (ledger_ops sha256) es A)) d'"
  using assms
proof (induction es arbitrary: d rs A)
  case (Cons e es)
  obtain r d1 where ex: "exec_event (redis_ops rd sha256 lk) e d = (r, d1)" by fastforce
  obtain rs1 where run: "run_events (redis_ops rd sha256 lk) es d1 = (rs1, d')" and rs: "rs = r # rs1"
    using Cons.prems(1) ex by (cases "run_events (redis_ops rd sha256 lk) es d1") auto
  have "clock d1 \<le> clock d'"
    by (rule run_events_clock [OF run]) (use clock_before order_trans in blast)+
  then have "clock d1 \<le> T" using Cons.prems(3) by simp
  moreover have "admissible T e" "\<forall>i \<in> set (created_id e). mget (lg_Sessions A) i = None"
    using Cons.prems(4,5) by (auto simp: new_ids_def)
  ultimately have r: "r = fst (exec_event (ledger_ops sha256) e A)"
    and A1: "tracks entry sha256 T (snd (exec_event (ledger_ops sha256) e A)) d1"
    using exec_event_tracked [OF ex Cons.prems(2)] by blast+
  have "new_ids (snd (exec_event (ledger_ops sha256) e A)) es"
    by (rule new_ids_step(2) [OF tracks_session(1) [OF Cons.prems(2)] Cons.prems(5)])
  then show ?case
    using Cons.IH [OF run A1 Cons.prems(3)] Cons.prems(4) r rs by simp
qed simp

end

section \<open>A reliable client of the table server\<close>

text \<open>Each request finds the clock a millisecond later, until a time.\<close>

definition steady_link :: "int \<Rightarrow> table link" where
  "steady_link T =
     \<lparr> lk_Before = (\<lambda>n d. if tb_Clock d < T then d\<lparr> tb_Clock := tb_Clock d + 1 \<rparr> else d),
       lk_Fate = (\<lambda>n d. Delivered) \<rparr>"

lemma steady_link_facts:
  "server_ticks table_entry tb_Clock d (lk_Before (steady_link T) n d)"
  "lk_Fate (steady_link T) n d = Delivered"
  "tb_Clock d \<le> T \<Longrightarrow> tb_Clock (lk_Before (steady_link T) n d) \<le> T"
  by (simp_all add: steady_link_def server_ticks_def table_entry_def entry_at_later)

interpretation steady: redis_reliable table_redis table_entry tb_Clock sha256 "steady_link T" for sha256 T
  by unfold_locales (simp_all add: steady_link_facts)

definition empty_ledger :: ledger where
  "empty_ledger = \<lparr> lg_Sessions = [], lg_Keys = [], lg_Leases = (\<lambda>_. []) \<rparr>"

lemma tracks_empty: "(\<And>k. entry d k = None) \<Longrightarrow> tracks entry sha T empty_ledger d"
  by (simp add: tracks_def empty_ledger_def permanent_def lease_set_def)

definition test_sha :: "bytes \<Rightarrow> bytes" where
  "test_sha b = take 32 (rev b @ replicate 32 0)"

definition empty_table :: "int \<Rightarrow> table" where
  "empty_table t = \<lparr> tb_Clock = t, tb_Entries = [] \<rparr>"

lemma empty_table_entry: "table_entry (empty_table t) k = None"
  by (simp add: empty_table_def table_entry_def)

lemma steady_clock:
  assumes "run_events (redis_ops table_redis sha (steady_link T)) es d = (rs, d')" and "tb_Clock d \<le> T"
  shows "tb_Clock d' \<le> T"
  by (rule steady.run_events_clock [OF assms(1), where P = "\<lambda>t. t \<le> T"]) (use assms(2) steady_link_facts(3) in auto)

section \<open>Properties\<close>

text \<open>
  C10: the Redis store answers what the ledger answers. On every server that obeys the Redis laws and holds a
  ledger, when every request arrives while the server's clock advances, and as long as no record expires,
  any history of creations, lookups, claims and closes gets from the scripts, encodings and expiries of
  the Redis store exactly the replies of the ledger, and leaves the server with the ledger's records.
\<close>

theorem redis_refines_ledger:
  assumes "redis_server rd entry clock" and "\<And>n d. server_ticks entry clock d (lk_Before lk n d)"
    and "\<And>n d. lk_Fate lk n d = Delivered" and "tracks entry sha T A d"
    and "run_events (redis_ops rd sha lk) es d = (rs, d')" and "clock d' \<le> T"
    and "list_all (admissible T) es" and "new_ids A es"
  shows "rs = fst (run_events (ledger_ops sha) es A) \<and> tracks entry sha T (snd (run_events (ledger_ops sha) es A)) d'"
proof -
  have "redis_reliable rd entry clock lk"
    using assms(1-3) by (simp add: redis_reliable_def redis_reliable_axioms_def redis_client_def redis_client_axioms_def)
  from redis_reliable.history_tracked [OF this assms(5,4,6-8)] show ?thesis .
qed

text \<open>A session is created, claimed and closed.\<close>

definition life_session :: session where
  "life_session = demo_record\<lparr> s_RequestFingerprint := replicate 32 1, s_TicketDigest := replicate 32 2 \<rparr>"

definition life_limits :: claim_limits where
  "life_limits = \<lparr> cl_MaxActive = 1, cl_MaxActivePerSubject = 1, cl_SessionMaxDuration = 60000000000,
     cl_IdempotencyTTL = 900000000000 \<rparr>"

definition life_events :: "store_event list" where
  "life_events = [EvCreate ''k1'' life_session, EvClaim ''s1'' (replicate 32 2) 2000000000 life_limits,
     EvClaim ''s1'' (replicate 32 2) 2000000000 life_limits, EvClose ''s1'' ''s1:lease'' ''normal'' 3000000000]"

theorem redis_refines_ledger_witness:
  "fst (run_events (redis_ops table_redis test_sha (steady_link 100000)) life_events (empty_table 1000)) =
     [RCreate (Inr (stored_form life_session, False)),
      RClaim (Inr \<lparr> le_ID = ''s1:lease'',
                    le_Session = stored_form (claimed_session ''s1:lease'' 2000000000 life_limits life_session),
                    le_ExpiresAt = 62000000000 \<rparr>),
      RClaim (Inl (Sentinel ErrFailedPrecondition)), RClose (Inr ())]"
proof -
  obtain rs d' where run: "run_events (redis_ops table_redis test_sha (steady_link 100000)) life_events (empty_table 1000) = (rs, d')"
    by fastforce
  have start: "tracks table_entry test_sha 100000 empty_ledger (empty_table 1000)"
    by (rule tracks_empty) (rule empty_table_entry)
  have "tb_Clock d' \<le> 100000" by (rule steady_clock [OF run]) (simp add: empty_table_def)
  moreover have "storable life_session"
    using demo_record_storable by (simp add: life_session_def storable_def session_times_def)
  then have "list_all (admissible 100000) life_events"
    by (simp add: life_events_def life_session_def demo_record_def life_limits_def claim_stamps_def stamp_def unix_milli_def)
  moreover have "new_ids empty_ledger life_events" by (simp add: new_ids_def life_events_def empty_ledger_def)
  ultimately have "rs = fst (run_events (ledger_ops test_sha) life_events empty_ledger)"
    using redis_refines_ledger [OF table.redis_server_axioms steady_link_facts(1,2) start run]
    by blast
  also have "\<dots> = [RCreate (Inr (stored_form life_session, False)),
      RClaim (Inr \<lparr> le_ID = ''s1:lease'',
                    le_Session = stored_form (claimed_session ''s1:lease'' 2000000000 life_limits life_session),
                    le_ExpiresAt = 62000000000 \<rparr>),
      RClaim (Inl (Sentinel ErrFailedPrecondition)), RClose (Inr ())]"
    by (simp add: life_events_def ledger_ops_def ledger_CreateOrGet_def ledger_ClaimAndReserve_def ledger_CloseAndRelease_def
        empty_ledger_def ledger_put_def ledger_leases_def claim_answer_def claim_record_def claim_leases_def close_answer_def
        life_session_def demo_record_def life_limits_def unix_milli_def unexpired_def claimed_session_def Let_def)
  finally show ?thesis using run by simp
qed

end
