(* ===== verification/StoreScenarios.thy ===== *)
theory StoreScenarios
  imports MemoryStore
begin

text \<open>
  \<open>internal/store/storetest/contract.go\<close>: the scenarios every implementation of the store must pass, as
  predicates over the operations and the state the factory returns. A \<open>t.Fatal\<close> ends a scenario, so each
  is a conjunction of its checks in order. The clock reading \<open>now\<close> and SHA-256 are arguments. The hundred
  goroutines of the third scenario call an atomic operation with equal arguments, so every interleaving
  is the same sequence of calls.
\<close>

section \<open>The values\<close>

definition candidate :: "(bytes \<Rightarrow> bytes) \<Rightarrow> string \<Rightarrow> string \<Rightarrow> string \<Rightarrow> time \<Rightarrow> session" where
  "candidate sha256 i key subject now =
     zero_session\<lparr> s_ID := i, s_IdempotencyKey := key,
       s_RequestFingerprint := sha256 (str_bytes (''fingerprint-'' @ key)),
       s_TicketDigest := sha256 (str_bytes (''ticket-'' @ i)),
       s_TicketCiphertext := str_bytes (''encrypted-'' @ i), s_TenantID := ''tenant'', s_SubjectID := subject,
       s_InstanceID := ''instance'', s_WorkloadName := ''workload'', s_WorkloadKind := WorkloadContainer,
       s_Mode := ModeExec, s_Command := [''/bin/sh''], s_State := StateIssued, s_CreatedAt := now,
       s_TicketExpiresAt := now + 60 * 1000000000, s_TombstoneExpiresAt := now + 15 * 60 * 1000000000 \<rparr>"

definition scenario_limits :: "int \<Rightarrow> int \<Rightarrow> duration \<Rightarrow> claim_limits" where
  "scenario_limits global subject d =
     \<lparr> cl_MaxActive = global, cl_MaxActivePerSubject = subject, cl_SessionMaxDuration = d,
       cl_IdempotencyTTL = 15 * 60 * 1000000000 \<rparr>"

definition vm_candidate :: "(bytes \<Rightarrow> bytes) \<Rightarrow> time \<Rightarrow> session" where
  "vm_candidate sha256 now =
     (candidate sha256 ''vm-console'' ''vm-console-key'' ''subject'' now)\<lparr> s_VMBinding :=
       \<lparr> vb_Enabled = True, vb_TenantID = ''tenant'', vb_VMID = ''vm-id'', vb_Version = 9, vb_ClusterID = ''cluster'',
         vb_Namespace = ''frozen-namespace'', vb_VMName = ''vm'', vb_VMUID = ''vm-uid'', vb_VMIName = ''vm'',
         vb_VMIUID = ''vmi-uid'', vb_NamespaceUID = ''namespace-uid'' \<rparr> \<rparr>"

text \<open>\<open>errors.Is(err, target)\<close> of a call, and \<open>Truncate(time.Millisecond)\<close>.\<close>

definition fails_with :: "'a result \<Rightarrow> sentinel \<Rightarrow> bool" where
  "fails_with r t = (case r of Inl e \<Rightarrow> errors_is e t | Inr _ \<Rightarrow> False)"

definition truncate_ms :: "time \<Rightarrow> time" where
  "truncate_ms t = t - (t - zero_time) mod 1000000"

section \<open>The scenarios\<close>

definition looked_up :: "session \<Rightarrow> session result \<Rightarrow> bool" where
  "looked_up v r =
     (case r of
        Inl _ \<Rightarrow> False
      | Inr got \<Rightarrow> s_ID got = s_ID v \<and> s_VMBinding got = s_VMBinding v \<and>
          bytes_str (s_TicketCiphertext got) = bytes_str (s_TicketCiphertext v) \<and> s_State got = StateIssued)"

definition scenario_replay :: "'s store_ops \<Rightarrow> (bytes \<Rightarrow> bytes) \<Rightarrow> time \<Rightarrow> 's \<Rightarrow> bool" where
  "scenario_replay ops sha256 now s0 =
     (let (missing, s1) = st_GetByKey ops ''missing'' s0;
          v = vm_candidate sha256 now;
          (created, s2) = st_CreateOrGet ops (s_IdempotencyKey v) v s1;
          (got1, s3) = st_GetByKey ops (s_IdempotencyKey v) s2;
          (got2, s4) = st_GetByKey ops (s_IdempotencyKey v) s3;
          (lease, s5) = st_ClaimAndReserve ops (s_ID v) (s_TicketDigest v) (s_CreatedAt v)
                          (scenario_limits 1 1 (60 * 1000000000)) s4;
          (after, s6) = st_GetByKey ops (s_IdempotencyKey v) s5
      in fails_with missing ErrNotFound \<and> \<not> isl created \<and> looked_up v got1 \<and> looked_up v got2 \<and>
         (case lease of Inl _ \<Rightarrow> False | Inr l \<Rightarrow> s_VMBinding (le_Session l) = s_VMBinding v) \<and>
         (case after of Inl _ \<Rightarrow> False | Inr got \<Rightarrow> s_State got = StateClaimed \<and> s_TicketCiphertext got = []))"

definition scenario_idempotency :: "'s store_ops \<Rightarrow> (bytes \<Rightarrow> bytes) \<Rightarrow> time \<Rightarrow> 's \<Rightarrow> bool" where
  "scenario_idempotency ops sha256 now s0 =
     (let first = candidate sha256 ''one'' ''key'' ''subject'' now;
          again = (candidate sha256 ''two'' ''key'' ''subject'' (now + 1000000000))
                    \<lparr> s_RequestFingerprint := s_RequestFingerprint first \<rparr>;
          conflict = (candidate sha256 ''three'' ''key'' ''subject'' (now + 1000000000))
                    \<lparr> s_RequestFingerprint := sha256 (str_bytes ''different'') \<rparr>;
          lim = scenario_limits 10 5 (60 * 1000000000);
          (created, s1) = st_CreateOrGet ops ''key'' first s0;
          (replayed, s2) = st_CreateOrGet ops ''key'' again s1;
          (conflicted, s3) = st_CreateOrGet ops ''key'' conflict s2;
          (wrong, s4) = st_ClaimAndReserve ops (s_ID first) (sha256 (str_bytes ''wrong'')) now lim s3;
          (claimed, s5) = st_ClaimAndReserve ops (s_ID first) (s_TicketDigest first) now lim s4
      in (case created of Inl _ \<Rightarrow> False | Inr (c, r) \<Rightarrow> \<not> r \<and> s_ID c = s_ID first) \<and>
         (case replayed of Inl _ \<Rightarrow> False | Inr (c, r) \<Rightarrow> r \<and> s_ID c = s_ID first) \<and>
         fails_with conflicted ErrConflict \<and> fails_with wrong ErrInvalidTicket \<and>
         (case claimed of
            Inl _ \<Rightarrow> False
          | Inr lease \<Rightarrow>
              (let (late, s6) = st_CreateOrGet ops ''key'' again s5;
                   (close1, s7) = st_CloseAndRelease ops (s_ID first) (le_ID lease) ''normal'' now s6;
                   (close2, s8) = st_CloseAndRelease ops (s_ID first) (le_ID lease) ''duplicate'' now s7
               in s_State (le_Session lease) = StateClaimed \<and> s_TicketCiphertext (le_Session lease) = [] \<and>
                  truncate_ms (s_TombstoneExpiresAt (le_Session lease)) =
                    truncate_ms (le_ExpiresAt lease + 15 * 60 * 1000000000) \<and>
                  fails_with late ErrFailedPrecondition \<and> \<not> isl close1 \<and> \<not> isl close2)))"

fun claim_repeatedly :: "'s store_ops \<Rightarrow> nat \<Rightarrow> session \<Rightarrow> time \<Rightarrow> claim_limits \<Rightarrow> 's \<Rightarrow> nat \<times> 's" where
  "claim_repeatedly ops 0 v now lim s = (0, s)"
| "claim_repeatedly ops (Suc n) v now lim s =
     (let (r, s1) = st_ClaimAndReserve ops (s_ID v) (s_TicketDigest v) now lim s;
          (k, s2) = claim_repeatedly ops n v now lim s1
      in ((if isl r then 0 else 1) + k, s2))"

definition scenario_concurrent :: "'s store_ops \<Rightarrow> (bytes \<Rightarrow> bytes) \<Rightarrow> time \<Rightarrow> 's \<Rightarrow> bool" where
  "scenario_concurrent ops sha256 now s0 =
     (let v = candidate sha256 ''concurrent'' ''concurrent-key'' ''subject'' now;
          (created, s1) = st_CreateOrGet ops (s_IdempotencyKey v) v s0;
          (successes, s2) = claim_repeatedly ops 100 v now (scenario_limits 100 100 (60 * 1000000000)) s1
      in \<not> isl created \<and> successes = 1)"

definition scenario_capacity :: "'s store_ops \<Rightarrow> (bytes \<Rightarrow> bytes) \<Rightarrow> time \<Rightarrow> 's \<Rightarrow> bool" where
  "scenario_capacity ops sha256 now s0 =
     (let first = candidate sha256 ''cap-one'' ''cap-key-one'' ''subject-a'' now;
          second = candidate sha256 ''cap-two'' ''cap-key-two'' ''subject-a'' now;
          third = candidate sha256 ''cap-three'' ''cap-key-three'' ''subject-b'' now;
          (c1, s1) = st_CreateOrGet ops (s_IdempotencyKey first) first s0;
          (c2, s2) = st_CreateOrGet ops (s_IdempotencyKey second) second s1;
          (c3, s3) = st_CreateOrGet ops (s_IdempotencyKey third) third s2;
          (l1, s4) = st_ClaimAndReserve ops (s_ID first) (s_TicketDigest first) now (scenario_limits 1 1 1000000000) s3;
          (l2, s5) = st_ClaimAndReserve ops (s_ID second) (s_TicketDigest second) now
                       (scenario_limits 2 1 (60 * 1000000000)) s4;
          (l3, s6) = st_ClaimAndReserve ops (s_ID third) (s_TicketDigest third) now
                       (scenario_limits 1 5 (60 * 1000000000)) s5;
          (l4, s7) = st_ClaimAndReserve ops (s_ID third) (s_TicketDigest third) (now + 2 * 1000000000)
                       (scenario_limits 1 5 (60 * 1000000000)) s6
      in \<not> isl c1 \<and> \<not> isl c2 \<and> \<not> isl c3 \<and> fails_with l2 ErrCapacity \<and> fails_with l3 ErrCapacity \<and> \<not> isl l4 \<and>
         (case l1 of
            Inl _ \<Rightarrow> False
          | Inr lease \<Rightarrow>
              \<not> isl (fst (st_CloseAndRelease ops (s_ID first) (le_ID lease) ''late close'' (now + 2 * 1000000000) s7))))"

definition scenario_expired :: "'s store_ops \<Rightarrow> (bytes \<Rightarrow> bytes) \<Rightarrow> time \<Rightarrow> 's \<Rightarrow> bool" where
  "scenario_expired ops sha256 now s0 =
     (let v = (candidate sha256 ''expired'' ''expired-key'' ''subject'' now)
                \<lparr> s_TicketExpiresAt := now + 1000000000 \<rparr>;
          (created, s1) = st_CreateOrGet ops (s_IdempotencyKey v) v s0;
          r = (candidate sha256 ''replacement'' (s_IdempotencyKey v) (s_SubjectID v) (now + 2 * 1000000000))
                \<lparr> s_RequestFingerprint := s_RequestFingerprint v \<rparr>;
          (replayed, s2) = st_CreateOrGet ops (s_IdempotencyKey v) r s1
      in \<not> isl created \<and> fails_with replayed ErrFailedPrecondition)"

text \<open>\<open>Run\<close>: every scenario on a fresh store.\<close>

definition passes_contract :: "'s store_ops \<Rightarrow> (bytes \<Rightarrow> bytes) \<Rightarrow> time \<Rightarrow> 's \<Rightarrow> bool" where
  "passes_contract ops sha256 now s0 \<longleftrightarrow>
     scenario_replay ops sha256 now s0 \<and> scenario_idempotency ops sha256 now s0 \<and>
     scenario_concurrent ops sha256 now s0 \<and> scenario_capacity ops sha256 now s0 \<and>
     scenario_expired ops sha256 now s0"

section \<open>One of a hundred claims\<close>

context session_store
begin

lemma claims_of_unissued:
  "inv s \<Longrightarrow> (\<And>d. phase_of s (s_ID v) \<noteq> PIssued d) \<Longrightarrow> fst (claim_repeatedly ops n v now lim s) = 0"
proof (induction n arbitrary: s)
  case (Suc n)
  obtain r s1 where r: "st_ClaimAndReserve ops (s_ID v) (s_TicketDigest v) now lim s = (r, s1)" by fastforce
  have s1: "inv s1" "lives (phase_of s (s_ID v)) (phase_of s1 (s_ID v))"
    using claim_step [OF Suc.prems(1) r] by auto
  then have "phase_of s1 (s_ID v) \<noteq> PIssued d" for d using Suc.prems(2) by auto
  moreover have "isl r"
    using claim_ok [OF Suc.prems(1), of "s_ID v" "s_TicketDigest v" now lim _ s1] r Suc.prems(2) by (cases r) auto
  ultimately show ?case using Suc.IH [OF s1(1)] r by (simp add: split_beta)
qed simp

text \<open>Where the first of the equal claims wins, it is the only one.\<close>

lemma first_claim_only:
  assumes "inv s" and r: "st_ClaimAndReserve ops (s_ID v) (s_TicketDigest v) now lim s = (Inr l, s1)"
  shows "fst (claim_repeatedly ops (Suc n) v now lim s) = 1"
proof -
  have "inv s1" using claim_step [OF assms] by simp
  moreover have "phase_of s1 (s_ID v) = PClaimed (le_ID l)" using claim_ok [OF assms] by simp
  ultimately show ?thesis using claims_of_unissued [of s1 v n now lim] r by (simp add: split_beta)
qed

end

section \<open>The memory store\<close>

lemmas scenario_values =
  candidate_def vm_candidate_def scenario_limits_def fails_with_def looked_up_def
lemmas memory_steps =
  mem_CreateOrGet_def mem_GetByKey_def mem_ClaimAndReserve_def mem_CloseAndRelease_def cleanup_def cleanup_in_order_def
  expire_lease_def purge_key_def new_mem_store_def claimed_session_def closed_session_def active_subject_def
  mput_def mdel_def

lemma mem_scenario_replay: "scenario_replay memory_ops sha256 now new_mem_store"
  by (simp add: scenario_replay_def scenario_values memory_steps Let_def)

lemma mem_scenario_idempotency:
  "sha256 (str_bytes ''different'') \<noteq> sha256 (str_bytes ''fingerprint-key'') \<Longrightarrow>
   sha256 (str_bytes ''wrong'') \<noteq> sha256 (str_bytes ''ticket-one'') \<Longrightarrow>
     scenario_idempotency memory_ops sha256 now new_mem_store"
  by (simp add: scenario_idempotency_def scenario_values memory_steps Let_def)

lemma mem_scenario_concurrent: "scenario_concurrent memory_ops sha256 now new_mem_store"
proof -
  let ?v = "candidate sha256 ''concurrent'' ''concurrent-key'' ''subject'' now"
  let ?lim = "scenario_limits 100 100 (60 * 1000000000)"
  let ?s = "new_mem_store\<lparr> ms_byKey := [(''concurrent-key'', ''concurrent'')], ms_sessions := [(''concurrent'', ?v)] \<rparr>"
  have c: "mem_CreateOrGet (s_IdempotencyKey ?v) ?v new_mem_store = (Inr (?v, False), ?s)"
    by (simp add: scenario_values memory_steps Let_def)
  have "mem_inv ?s"
    using mem_CreateOrGet_inv [OF mem_inv_new, of ?v "s_IdempotencyKey ?v"] c by (simp add: new_mem_store_def candidate_def)
  moreover have "\<exists>l s1. mem_ClaimAndReserve (s_ID ?v) (s_TicketDigest ?v) now ?lim ?s = (Inr l, s1)"
    by (simp add: scenario_values memory_steps Let_def)
  ultimately have "fst (claim_repeatedly memory_ops (Suc 99) ?v now ?lim ?s) = 1"
    using mem.first_claim_only [of ?s ?v now ?lim _ _ 99] by auto
  with c show ?thesis by (simp add: scenario_concurrent_def Let_def split_beta)
qed

lemma mem_scenario_capacity: "scenario_capacity memory_ops sha256 now new_mem_store"
  by (simp add: scenario_capacity_def scenario_values memory_steps Let_def)

lemma mem_scenario_expired: "scenario_expired memory_ops sha256 now new_mem_store"
  by (simp add: scenario_expired_def scenario_values memory_steps Let_def)

section \<open>Properties\<close>



end
