(* ===== verification/RedisScenarios.thy ===== *)
theory RedisScenarios
  imports RedisLedger StoreScenarios
begin

text \<open>
  The contract tests of \<open>internal/store/storetest\<close> on the Redis store. Each scenario is evaluated on the
  ledger and carried to the store event by event, as long as the server's clock stays before the first
  expiry; the locale \<open>redis_tested\<close> adds to a reliable client that the clock does.
\<close>

lemma stamp_between: "stamp a \<Longrightarrow> stamp b \<Longrightarrow> a \<le> t \<Longrightarrow> t \<le> b \<Longrightarrow> stamp t"
  by (simp add: stamp_def)

text \<open>A server that holds a ledger with identifiers in \<open>U\<close>, and whose clock stays before \<open>T\<close>.\<close>

definition keeps_ledger ::
  "('d \<Rightarrow> string \<Rightarrow> redis_entry) \<Rightarrow> ('d \<Rightarrow> int) \<Rightarrow> (bytes \<Rightarrow> bytes) \<Rightarrow> int \<Rightarrow> string set \<Rightarrow> ledger \<Rightarrow> 'd \<Rightarrow> bool" where
  "keeps_ledger entry clock sha T U A d \<longleftrightarrow> tracks entry sha T A d \<and> clock d \<le> T \<and>
     (\<forall>i. i \<notin> U \<longrightarrow> mget (lg_Sessions A) i = None)"

locale redis_tested = redis_reliable +
  fixes T :: int
  assumes bounded: "clock d \<le> T \<Longrightarrow> clock (lk_Before lk n d) \<le> T"
begin

lemma exec_event_kept:
  assumes "keeps_ledger entry clock sha256 T U A d" and "admissible T e" and "set (created_id e) \<inter> U = {}"
  obtains d' where "exec_event (redis_ops rd sha256 lk) e d = (fst (exec_event (ledger_ops sha256) e A), d')"
    and "keeps_ledger entry clock sha256 T (set (created_id e) \<union> U) (snd (exec_event (ledger_ops sha256) e A)) d'"
proof -
  obtain r d' where run: "exec_event (redis_ops rd sha256 lk) e d = (r, d')" by fastforce
  have late: "clock d' \<le> T"
    by (rule exec_event_clock [OF run]) (use assms(1) bounded in \<open>auto simp: keeps_ledger_def\<close>)
  have A: "tracks entry sha256 T A d" "\<And>i. i \<notin> U \<Longrightarrow> mget (lg_Sessions A) i = None"
    using assms(1) by (auto simp: keeps_ledger_def)
  have "s_ID v = j" if "mget (lg_Sessions A) j = Some v" for j v
    using tracks_session(1) [OF A(1) that] .
  then have "mget (lg_Sessions (snd (exec_event (ledger_ops sha256) e A))) i = None" if "i \<notin> set (created_id e) \<union> U" for i
    using ledger_known [of A i e sha256] A(2) that by auto
  moreover have "\<forall>i \<in> set (created_id e). mget (lg_Sessions A) i = None" using assms(3) A(2) by auto
  ultimately show ?thesis
    using exec_event_tracked [OF run A(1) late assms(2)] run late
    by (intro that [of d']) (auto simp: keeps_ledger_def)
qed

text \<open>A client that goes on in the same way after a reply sees no difference between the two stores.\<close>

lemma create_same:
  assumes "keeps_ledger entry clock sha256 T U A d" and "admissible T (EvCreate key c)" and "s_ID c \<notin> U"
    and "\<And>d'. keeps_ledger entry clock sha256 T (insert (s_ID c) U) (snd (ledger_CreateOrGet sha256 key c A)) d' \<Longrightarrow>
      F (fst (ledger_CreateOrGet sha256 key c A)) d' \<longleftrightarrow>
      G (fst (ledger_CreateOrGet sha256 key c A)) (snd (ledger_CreateOrGet sha256 key c A))"
  shows "(case st_CreateOrGet (redis_ops rd sha256 lk) key c d of (x, s) \<Rightarrow> F x s) \<longleftrightarrow>
    (case st_CreateOrGet (ledger_ops sha256) key c A of (x, s) \<Rightarrow> G x s)"
proof -
  obtain d' where "exec_event (redis_ops rd sha256 lk) (EvCreate key c) d = (fst (exec_event (ledger_ops sha256) (EvCreate key c) A), d')"
    "keeps_ledger entry clock sha256 T (set (created_id (EvCreate key c)) \<union> U) (snd (exec_event (ledger_ops sha256) (EvCreate key c) A)) d'"
    using exec_event_kept [OF assms(1), of "EvCreate key c"] assms by auto
  with assms show ?thesis
    by (simp add: apfst_def map_prod_def redis_ops_def ledger_ops_def split: prod.splits)
qed

lemma get_same:
  assumes "keeps_ledger entry clock sha256 T U A d"
    and "\<And>d'. keeps_ledger entry clock sha256 T U (snd (ledger_GetByKey sha256 key A)) d' \<Longrightarrow>
      F (fst (ledger_GetByKey sha256 key A)) d' \<longleftrightarrow>
      G (fst (ledger_GetByKey sha256 key A)) (snd (ledger_GetByKey sha256 key A))"
  shows "(case st_GetByKey (redis_ops rd sha256 lk) key d of (x, s) \<Rightarrow> F x s) \<longleftrightarrow>
    (case st_GetByKey (ledger_ops sha256) key A of (x, s) \<Rightarrow> G x s)"
proof -
  obtain d' where "exec_event (redis_ops rd sha256 lk) (EvGet key) d = (fst (exec_event (ledger_ops sha256) (EvGet key) A), d')"
    "keeps_ledger entry clock sha256 T (set (created_id (EvGet key)) \<union> U) (snd (exec_event (ledger_ops sha256) (EvGet key) A)) d'"
    using exec_event_kept [OF assms(1), of "EvGet key"] assms by auto
  with assms show ?thesis
    by (simp add: apfst_def map_prod_def redis_ops_def ledger_ops_def split: prod.splits)
qed

lemma claim_same:
  assumes "keeps_ledger entry clock sha256 T U A d" and "admissible T (EvClaim sid dg now lim)"
    and "\<And>d'. keeps_ledger entry clock sha256 T U (snd (ledger_ClaimAndReserve sha256 sid dg now lim A)) d' \<Longrightarrow>
      F (fst (ledger_ClaimAndReserve sha256 sid dg now lim A)) d' \<longleftrightarrow>
      G (fst (ledger_ClaimAndReserve sha256 sid dg now lim A)) (snd (ledger_ClaimAndReserve sha256 sid dg now lim A))"
  shows "(case st_ClaimAndReserve (redis_ops rd sha256 lk) sid dg now lim d of (x, s) \<Rightarrow> F x s) \<longleftrightarrow>
    (case st_ClaimAndReserve (ledger_ops sha256) sid dg now lim A of (x, s) \<Rightarrow> G x s)"
proof -
  obtain d' where "exec_event (redis_ops rd sha256 lk) (EvClaim sid dg now lim) d = (fst (exec_event (ledger_ops sha256) (EvClaim sid dg now lim) A), d')"
    "keeps_ledger entry clock sha256 T (set (created_id (EvClaim sid dg now lim)) \<union> U) (snd (exec_event (ledger_ops sha256) (EvClaim sid dg now lim) A)) d'"
    using exec_event_kept [OF assms(1), of "EvClaim sid dg now lim"] assms by auto
  with assms show ?thesis
    by (simp add: apfst_def map_prod_def redis_ops_def ledger_ops_def split: prod.splits)
qed

lemma close_same:
  assumes "keeps_ledger entry clock sha256 T U A d" and "stamp now"
    and "\<And>d'. keeps_ledger entry clock sha256 T U (snd (ledger_CloseAndRelease sha256 sid lease reason now A)) d' \<Longrightarrow>
      F (fst (ledger_CloseAndRelease sha256 sid lease reason now A)) d' \<longleftrightarrow>
      G (fst (ledger_CloseAndRelease sha256 sid lease reason now A)) (snd (ledger_CloseAndRelease sha256 sid lease reason now A))"
  shows "(case st_CloseAndRelease (redis_ops rd sha256 lk) sid lease reason now d of (x, s) \<Rightarrow> F x s) \<longleftrightarrow>
    (case st_CloseAndRelease (ledger_ops sha256) sid lease reason now A of (x, s) \<Rightarrow> G x s)"
proof -
  obtain d' where "exec_event (redis_ops rd sha256 lk) (EvClose sid lease reason now) d = (fst (exec_event (ledger_ops sha256) (EvClose sid lease reason now) A), d')"
    "keeps_ledger entry clock sha256 T (set (created_id (EvClose sid lease reason now)) \<union> U) (snd (exec_event (ledger_ops sha256) (EvClose sid lease reason now) A)) d'"
    using exec_event_kept [OF assms(1), of "EvClose sid lease reason now"] assms by auto
  with assms show ?thesis
    by (simp add: apfst_def map_prod_def redis_ops_def ledger_ops_def split: prod.splits)
qed

lemma claims_same:
  assumes "admissible T (EvClaim (s_ID v) (s_TicketDigest v) now lim)"
  shows "keeps_ledger entry clock sha256 T U A d \<Longrightarrow>
    fst (claim_repeatedly (redis_ops rd sha256 lk) n v now lim d) = fst (claim_repeatedly (ledger_ops sha256) n v now lim A)"
proof (induction n arbitrary: A d)
  case (Suc n)
  let ?e = "EvClaim (s_ID v) (s_TicketDigest v) now lim"
  obtain d' where "exec_event (redis_ops rd sha256 lk) ?e d = (fst (exec_event (ledger_ops sha256) ?e A), d')"
    "keeps_ledger entry clock sha256 T (set (created_id ?e) \<union> U) (snd (exec_event (ledger_ops sha256) ?e A)) d'"
    using exec_event_kept [OF Suc.prems assms] by auto
  with Suc.IH [of "snd (ledger_ClaimAndReserve sha256 (s_ID v) (s_TicketDigest v) now lim A)" d'] show ?case
    by (cases "redis_ClaimAndReserve rd sha256 lk (s_ID v) (s_TicketDigest v) now lim d";
        cases "ledger_ClaimAndReserve sha256 (s_ID v) (s_TicketDigest v) now lim A")
      (auto simp: redis_ops_def ledger_ops_def split_beta)
qed simp

end

lemma reply_same:
  "(\<And>l. x = Inr l \<Longrightarrow> F l \<longleftrightarrow> G l) \<Longrightarrow>
     (case x of Inl _ \<Rightarrow> False | Inr l \<Rightarrow> F l) \<longleftrightarrow> (case x of Inl _ \<Rightarrow> False | Inr l \<Rightarrow> G l)"
  by (cases x) auto

section \<open>The values of the tests\<close>

text \<open>The tests run for less than a quarter of an hour of the server's clock, at times the store can write.\<close>

definition test_times :: "int \<Rightarrow> time \<Rightarrow> bool" where
  "test_times T now \<longleftrightarrow> stamp now \<and> stamp (now + 3600 * 1000000000) \<and> T < unix_milli (now + 900 * 1000000000)"

lemma test_stamp: "test_times T now \<Longrightarrow> 0 \<le> x \<Longrightarrow> x \<le> 3600 * 1000000000 \<Longrightarrow> stamp (now + x)"
  by (rule stamp_between [of now "now + 3600 * 1000000000"]) (auto simp: test_times_def)

lemma test_tombstone: "test_times T now \<Longrightarrow> now + 900 * 1000000000 \<le> t \<Longrightarrow> T < unix_milli t"
  using zdiv_mono1 [of "now + 900 * 1000000000" t 1000000] by (simp add: test_times_def unix_milli_def)

definition digests32 :: "(bytes \<Rightarrow> bytes) \<Rightarrow> bool" where
  "digests32 sha \<longleftrightarrow> (\<forall>b. length (sha b) = 32)"

lemma storable_candidate:
  assumes "digests32 sha" and "stamp now" and "stamp (now + 60 * 1000000000)" and "stamp (now + 900 * 1000000000)"
  shows "storable (candidate sha i key subject now)"
  using assms stamp_facts(1) [OF assms(2)] stamp_facts(1) [OF assms(3)] stamp_facts(1) [OF assms(4)]
  by (simp add: storable_def candidate_def zero_session_def session_times_def digests32_def int64_def zero_instance_binding_def
      zero_vm_binding_def storable_time_def)

lemma admissible_candidate:
  assumes "digests32 sha" "test_times T now" "0 \<le> x" "x \<le> 60 * 1000000000"
  shows "admissible T (EvCreate key (candidate sha i key subject (now + x)))"
proof -
  have "stamp (now + x)" "stamp (now + x + 60 * 1000000000)" "stamp (now + x + 900 * 1000000000)"
    using test_stamp [OF assms(2)] assms(3,4) by (simp_all add: add.assoc)
  moreover have "T < unix_milli (now + x + 900 * 1000000000)" using test_tombstone [OF assms(2)] assms(3) by simp
  ultimately show ?thesis
    using storable_candidate [OF assms(1)] by (simp add: candidate_def)
qed

lemma admissible_claim:
  assumes "test_times T now" "0 \<le> x" "x \<le> 60 * 1000000000" "0 \<le> dur" "dur \<le> 60 * 1000000000"
  shows "admissible T (EvClaim sid dg (now + x) (scenario_limits n m dur))"
proof -
  have "stamp (now + x)" "stamp (now + x + dur)" "stamp (now + x + dur + 900 * 1000000000)"
    using test_stamp [OF assms(1)] assms(2-5) by (simp_all add: add.assoc)
  moreover have "T < unix_milli (now + x + dur + 900 * 1000000000)" using test_tombstone [OF assms(1)] assms(2,4) by simp
  ultimately show ?thesis by (simp add: claim_stamps_def scenario_limits_def)
qed

section \<open>The scenarios on the ledger\<close>

lemmas ledger_steps =
  ledger_ops_def ledger_CreateOrGet_def ledger_GetByKey_def ledger_ClaimAndReserve_def ledger_CloseAndRelease_def
  ledger_put_def ledger_leases_def empty_ledger_def create_answer_def create_record_def claim_answer_def claim_record_def
  claim_leases_def close_answer_def close_record_def close_leases_def releases_def unexpired_def closed_session_def
  claimed_session_def mput_def mdel_def

lemma milli_shift:
  "unix_milli (t + 1000000000) = unix_milli t + 1000" "unix_milli (t + 2000000000) = unix_milli t + 2000"
  "unix_milli (t + 60000000000) = unix_milli t + 60000" "unix_milli (t + 1000000000) = unix_milli t + 1000"
  by (simp_all add: unix_milli_def)

lemma truncate_milli: "truncate_ms (milli_time t) = truncate_ms t"
proof -
  have "truncate_ms u = u div 1000000 * 1000000" for u
  proof -
    have "(u - zero_time) mod 1000000 = u mod 1000000"
      using mod_mult_self2 [of u 1000000 62135596800000] by (simp add: zero_time_def)
    then show ?thesis by (simp add: truncate_ms_def minus_mod_eq_div_mult)
  qed
  then show ?thesis by (simp add: milli_time_def unix_milli_def)
qed

lemma test_binding_clean:
  "clean_vm_binding (s_VMBinding (vm_candidate sha now)) = s_VMBinding (vm_candidate sha now)"
  by (simp add: vm_candidate_def clean_vm_binding_def utf8_sanitize_ascii)

lemma ledger_expired: "scenario_expired (ledger_ops sha) sha now empty_ledger"
  by (simp add: scenario_expired_def scenario_values ledger_steps Let_def milli_shift)

lemma ledger_replay: "scenario_replay (ledger_ops sha) sha now empty_ledger"
  using test_binding_clean [of sha now]
  by (simp add: scenario_replay_def scenario_values ledger_steps Let_def stored_form_def milli_shift)

lemma ledger_idempotency:
  "sha (str_bytes ''different'') \<noteq> sha (str_bytes ''fingerprint-key'') \<Longrightarrow>
   sha (str_bytes ''wrong'') \<noteq> sha (str_bytes ''ticket-one'') \<Longrightarrow> scenario_idempotency (ledger_ops sha) sha now empty_ledger"
  by (simp add: scenario_idempotency_def scenario_values ledger_steps Let_def stored_form_def milli_shift truncate_milli
      add.commute add.left_commute)

lemma ledger_capacity:
  assumes "distinct (map (\<lambda>s. sha (str_bytes s)) [''cap-key-one'', ''cap-key-two'', ''cap-key-three''])"
  shows "scenario_capacity (ledger_ops sha) sha now empty_ledger"
proof -
  have keys: "idem_key sha a = idem_key sha b \<longleftrightarrow> sha (str_bytes a) = sha (str_bytes b)" for a b
    by (simp add: idem_key_def)
  have "subject_leases_key sha s \<noteq> global_leases_key" for s using lease_keys_differ(1) by metis
  then show ?thesis
    using assms
    by (simp add: scenario_capacity_def scenario_values ledger_steps Let_def milli_shift keys eq_commute)
qed

text \<open>After the first claim the session is claimed, and every further claim leaves it so.\<close>

lemma ledger_claimed:
  assumes "mget (lg_Sessions A) (s_ID v) = Some w" and "s_ID w = s_ID v" and "s_State w = StateClaimed"
  shows "fst (claim_repeatedly (ledger_ops sha) n v now lim A) = 0"
  using assms(1)
proof (induction n arbitrary: A)
  case (Suc n)
  let ?claim = "ledger_ClaimAndReserve sha (s_ID v) (s_TicketDigest v) now lim A"
  have "fst ?claim = Inl (Sentinel ErrFailedPrecondition)" "mget (lg_Sessions (snd ?claim)) (s_ID v) = Some w"
    using Suc.prems assms(2,3) by (simp_all add: ledger_ClaimAndReserve_def claim_answer_def claim_record_def ledger_put_def)
  then show ?case
    using Suc.IH [of "snd ?claim"] by (simp add: ledger_ops_def split_beta)
qed simp

lemma ledger_concurrent: "scenario_concurrent (ledger_ops sha) sha now empty_ledger"
proof -
  let ?v = "candidate sha ''concurrent'' ''concurrent-key'' ''subject'' now"
  let ?lim = "scenario_limits 100 100 (60 * 1000000000)"
  let ?A = "snd (ledger_CreateOrGet sha (s_IdempotencyKey ?v) ?v empty_ledger)"
  let ?claim = "ledger_ClaimAndReserve sha (s_ID ?v) (s_TicketDigest ?v) now ?lim ?A"
  let ?w = "claimed_session (s_ID ?v @ '':lease'') now ?lim ?v"
  have made: "mget (lg_Sessions ?A) (s_ID ?v) = Some ?v" "\<not> isl (fst (ledger_CreateOrGet sha (s_IdempotencyKey ?v) ?v empty_ledger))"
    by (simp_all add: ledger_CreateOrGet_def empty_ledger_def)
  have "\<not> isl (fst ?claim)" "mget (lg_Sessions (snd ?claim)) (s_ID ?v) = Some ?w"
    by (simp_all add: ledger_CreateOrGet_def ledger_ClaimAndReserve_def empty_ledger_def claim_answer_def claim_record_def
        ledger_put_def ledger_leases_def scenario_values milli_shift unexpired_def)
  then have "fst (claim_repeatedly (ledger_ops sha) (Suc n) ?v now ?lim ?A) = 1" for n
    using ledger_claimed [of "snd ?claim" ?v ?w sha n now ?lim] by (simp add: ledger_ops_def split_beta)
  from this [of 99] made(2) show ?thesis by (simp add: scenario_concurrent_def Let_def split_beta ledger_ops_def)
qed

section \<open>The scenarios on the Redis store\<close>

text \<open>The sessions of the tests, up to the fields that a test sets anew.\<close>

definition test_session :: "int \<Rightarrow> session \<Rightarrow> bool" where
  "test_session T c \<longleftrightarrow> storable c \<and> stamp (s_CreatedAt c) \<and> T < unix_milli (s_TombstoneExpiresAt c)"

lemma admissible_create: "test_session T c \<Longrightarrow> key = s_IdempotencyKey c \<Longrightarrow> admissible T (EvCreate key c)"
  by (simp add: test_session_def)

lemma test_candidate:
  "digests32 sha \<Longrightarrow> test_times T now \<Longrightarrow> 0 \<le> x \<Longrightarrow> x \<le> 60 * 1000000000 \<Longrightarrow>
     test_session T (candidate sha i key subject (now + x))"
  using admissible_candidate [of sha T now x key i subject] by (simp add: test_session_def)

lemma test_variants:
  assumes "test_session T c"
  shows "length fp = 32 \<Longrightarrow> test_session T (c\<lparr> s_RequestFingerprint := fp \<rparr>)"
    and "stamp t \<Longrightarrow> test_session T (c\<lparr> s_TicketExpiresAt := t \<rparr>)"
    and "int64 (vb_Version b) \<Longrightarrow> test_session T (c\<lparr> s_VMBinding := b \<rparr>)"
  using assms stamp_facts(1) [of t] by (simp_all add: test_session_def storable_def session_times_def)

lemma tests_ready:
  assumes "digests32 sha" and "test_times T now"
  shows "test_session T (candidate sha i key subject now)"
    and "test_session T (candidate sha i key subject (now + 1000000000))"
    and "test_session T (candidate sha i key subject (now + 2000000000))"
    and "test_session T (vm_candidate sha now)" and "length (sha b) = 32"
    and "stamp now" and "stamp (now + 1000000000)" and "stamp (now + 2000000000)"
    and "0 \<le> dur \<Longrightarrow> dur \<le> 60000000000 \<Longrightarrow> admissible T (EvClaim sid dg now (scenario_limits n m dur))"
    and "0 \<le> dur \<Longrightarrow> dur \<le> 60000000000 \<Longrightarrow>
      admissible T (EvClaim sid dg (now + 2000000000) (scenario_limits n m dur))"
proof -
  note c = test_candidate [OF assms] and m = admissible_claim [OF assms(2)]
  show "test_session T (candidate sha i key subject now)" for i key subject using c [of 0] by simp
  then show "test_session T (vm_candidate sha now)"
    by (simp add: vm_candidate_def test_variants(3) int64_def)
  show "test_session T (candidate sha i key subject (now + 1000000000))"
    "test_session T (candidate sha i key subject (now + 2000000000))"
    by (rule c; simp)+
  show "length (sha b) = 32" using assms(1) by (simp add: digests32_def)
  show "stamp now" "stamp (now + 1000000000)" "stamp (now + 2000000000)"
    using test_stamp [OF assms(2), of 0] test_stamp [OF assms(2), of 1000000000] test_stamp [OF assms(2), of 2000000000]
    by simp_all
  show "admissible T (EvClaim sid dg now (scenario_limits n m dur))" if "0 \<le> dur" "dur \<le> 60000000000"
    using m [of 0 dur] that by simp
  show "admissible T (EvClaim sid dg (now + 2000000000) (scenario_limits n m dur))"
    if "0 \<le> dur" "dur \<le> 60000000000"
    by (rule m) (use that in simp_all)
qed

lemma candidate_fields [simp]:
  "s_ID (candidate sha i key subject now) = i" "s_IdempotencyKey (candidate sha i key subject now) = key"
  "s_CreatedAt (candidate sha i key subject now) = now" "s_ID (vm_candidate sha now) = ''vm-console''"
  "s_IdempotencyKey (vm_candidate sha now) = ''vm-console-key''" "s_CreatedAt (vm_candidate sha now) = now"
  "length (s_RequestFingerprint (candidate sha i key subject now)) = length (sha (str_bytes (''fingerprint-'' @ key)))"
  by (simp_all add: candidate_def vm_candidate_def)

lemma known_keys:
  "lg_Keys (snd (ledger_ClaimAndReserve sha sid dg now lim A)) = lg_Keys A"
  "lg_Keys (snd (ledger_CloseAndRelease sha sid lease reason now A)) = lg_Keys A"
  "\<exists>i. mget (lg_Keys (snd (ledger_CreateOrGet sha key c A))) (idem_key sha key) = Some i"
  by (simp_all add: ledger_ClaimAndReserve_def ledger_CloseAndRelease_def ledger_CreateOrGet_def ledger_put_def
      split: option.split)

context redis_tested
begin

lemma create_tested:
  assumes "keeps_ledger entry clock sha256 T U A d" and "test_session T c" and "key = s_IdempotencyKey c" and "s_ID c \<notin> U"
    and "\<And>d'. keeps_ledger entry clock sha256 T (insert (s_ID c) U) (snd (ledger_CreateOrGet sha256 key c A)) d' \<Longrightarrow>
      F (fst (ledger_CreateOrGet sha256 key c A)) d' \<longleftrightarrow>
      G (fst (ledger_CreateOrGet sha256 key c A)) (snd (ledger_CreateOrGet sha256 key c A))"
  shows "(case st_CreateOrGet (redis_ops rd sha256 lk) key c d of (x, s) \<Rightarrow> F x s) \<longleftrightarrow>
    (case st_CreateOrGet (ledger_ops sha256) key c A of (x, s) \<Rightarrow> G x s)"
  by (rule create_same [OF assms(1) admissible_create [OF assms(2,3)] assms(4)]) (rule assms(5))

text \<open>A creation under a known key stores nothing new.\<close>

lemma create_again:
  assumes "keeps_ledger entry clock sha256 T U A d" and "test_session T c" and "key = s_IdempotencyKey c"
    and "mget (lg_Keys A) (idem_key sha256 key) \<noteq> None"
    and "\<And>d'. keeps_ledger entry clock sha256 T U (snd (ledger_CreateOrGet sha256 key c A)) d' \<Longrightarrow>
      F (fst (ledger_CreateOrGet sha256 key c A)) d' \<longleftrightarrow>
      G (fst (ledger_CreateOrGet sha256 key c A)) (snd (ledger_CreateOrGet sha256 key c A))"
  shows "(case st_CreateOrGet (redis_ops rd sha256 lk) key c d of (x, s) \<Rightarrow> F x s) \<longleftrightarrow>
    (case st_CreateOrGet (ledger_ops sha256) key c A of (x, s) \<Rightarrow> G x s)"
proof -
  obtain r d' where run: "redis_CreateOrGet rd sha256 lk key c d = (r, d')" by fastforce
  have A: "tracks entry sha256 T A d" "clock d \<le> T" "\<forall>i. i \<notin> U \<longrightarrow> mget (lg_Sessions A) i = None"
    using assms(1) by (auto simp: keeps_ledger_def)
  have late: "clock d' \<le> T"
    by (rule create_clock [OF run, where P = "\<lambda>t. t \<le> T"]) (use A(2) bounded in auto)
  note same = redis_create_tracked [OF run [unfolded assms(3)] A(1) late]
  have c: "storable c" "stamp (s_CreatedAt c)" "T < unix_milli (s_TombstoneExpiresAt c)"
    using assms(2) by (simp_all add: test_session_def)
  have "mget (lg_Sessions (snd (ledger_CreateOrGet sha256 key c A))) i = None" if "i \<notin> U" for i
  proof -
    obtain j where j: "mget (lg_Keys A) (idem_key sha256 key) = Some j" using assms(4) by blast
    then obtain v where "mget (lg_Sessions A) j = Some v" using A(1) unfolding tracks_def by blast
    moreover then have "s_ID v = j" using tracks_session(1) [OF A(1)] by blast
    moreover have "j \<noteq> i" using A(3) that calculation(1) by auto
    ultimately show ?thesis using j A(3) that
      by (simp add: ledger_CreateOrGet_def ledger_put_def create_record_def)
  qed
  then have "keeps_ledger entry clock sha256 T U (snd (ledger_CreateOrGet sha256 key c A)) d'"
    using same(2) [OF c] assms(3,4) late by (auto simp: keeps_ledger_def)
  note after = assms(5) [OF this]
  have "r = fst (ledger_CreateOrGet sha256 key c A)" using same(1) [OF c] assms(3,4) by auto
  with after run show ?thesis by (simp add: redis_ops_def ledger_ops_def split_beta)
qed

lemma close_reply:
  assumes "keeps_ledger entry clock sha256 T U A d" and "stamp now"
  shows "\<not> isl (fst (st_CloseAndRelease (redis_ops rd sha256 lk) sid lease reason now d)) \<longleftrightarrow>
    \<not> isl (fst (st_CloseAndRelease (ledger_ops sha256) sid lease reason now A))"
  using close_same [OF assms, of sid lease reason "\<lambda>x s. \<not> isl x" "\<lambda>x s. \<not> isl x"] by (simp add: split_beta)

lemmas same_intros = create_tested get_same claim_same close_same close_reply

lemma scenarios_same:
  assumes k: "keeps_ledger entry clock sha256 T {} empty_ledger d" and t: "digests32 sha256" "test_times T now"
  shows "scenario_expired (redis_ops rd sha256 lk) sha256 now d \<longleftrightarrow> scenario_expired (ledger_ops sha256) sha256 now empty_ledger"
    and "scenario_capacity (redis_ops rd sha256 lk) sha256 now d \<longleftrightarrow> scenario_capacity (ledger_ops sha256) sha256 now empty_ledger"
    and "scenario_idempotency (redis_ops rd sha256 lk) sha256 now d \<longleftrightarrow> scenario_idempotency (ledger_ops sha256) sha256 now empty_ledger"
    and "scenario_replay (redis_ops rd sha256 lk) sha256 now d \<longleftrightarrow> scenario_replay (ledger_ops sha256) sha256 now empty_ledger"
proof -
  note ready = tests_ready [OF t] test_variants
  show "scenario_expired (redis_ops rd sha256 lk) sha256 now d \<longleftrightarrow> scenario_expired (ledger_ops sha256) sha256 now empty_ledger"
    unfolding scenario_expired_def Let_def
    by (insert k, ((rule same_intros, assumption) | rule conj_cong reply_same refl | simp add: ready del: admissible.simps)+)
  show "scenario_capacity (redis_ops rd sha256 lk) sha256 now d \<longleftrightarrow> scenario_capacity (ledger_ops sha256) sha256 now empty_ledger"
    unfolding scenario_capacity_def Let_def
    by (insert k, ((rule same_intros, assumption) | rule conj_cong reply_same refl | simp add: ready del: admissible.simps)+)
  show "scenario_idempotency (redis_ops rd sha256 lk) sha256 now d \<longleftrightarrow> scenario_idempotency (ledger_ops sha256) sha256 now empty_ledger"
    unfolding scenario_idempotency_def Let_def
    by (insert k, rule create_tested, assumption, simp add: ready, simp, simp,
        ((rule create_again claim_same close_same, assumption) | rule conj_cong reply_same refl | simp add: ready known_keys del: admissible.simps)+)
  show "scenario_replay (redis_ops rd sha256 lk) sha256 now d \<longleftrightarrow> scenario_replay (ledger_ops sha256) sha256 now empty_ledger"
    unfolding scenario_replay_def Let_def
    by (insert k, ((rule same_intros, assumption) | rule conj_cong reply_same refl | simp add: ready del: admissible.simps)+)
qed

lemma concurrent_same:
  assumes k: "keeps_ledger entry clock sha256 T {} empty_ledger d" and t: "digests32 sha256" "test_times T now"
  shows "scenario_concurrent (redis_ops rd sha256 lk) sha256 now d \<longleftrightarrow> scenario_concurrent (ledger_ops sha256) sha256 now empty_ledger"
  unfolding scenario_concurrent_def Let_def
proof (rule create_tested [OF k tests_ready(1) [OF t]])
  let ?v = "candidate sha256 ''concurrent'' ''concurrent-key'' ''subject'' now"
  let ?lim = "scenario_limits 100 100 (60 * 1000000000)"
  have adm: "admissible T (EvClaim (s_ID ?v) (s_TicketDigest ?v) now ?lim)" by (rule tests_ready(9) [OF t]) simp_all
  fix d'
  assume "keeps_ledger entry clock sha256 T (insert (s_ID ?v) {}) (snd (ledger_CreateOrGet sha256 (s_IdempotencyKey ?v) ?v empty_ledger)) d'"
  from claims_same [OF adm this, of 100]
  show "(case claim_repeatedly (redis_ops rd sha256 lk) 100 ?v now ?lim d' of (successes, s2) \<Rightarrow>
        \<not> isl (fst (ledger_CreateOrGet sha256 (s_IdempotencyKey ?v) ?v empty_ledger)) \<and> successes = 1) \<longleftrightarrow>
      (case claim_repeatedly (ledger_ops sha256) 100 ?v now ?lim (snd (ledger_CreateOrGet sha256 (s_IdempotencyKey ?v) ?v empty_ledger))
        of (successes, s2) \<Rightarrow> \<not> isl (fst (ledger_CreateOrGet sha256 (s_IdempotencyKey ?v) ?v empty_ledger)) \<and> successes = 1)"
    by (simp add: split_beta)
qed simp_all

end

interpretation steady_tested: redis_tested table_redis table_entry tb_Clock sha256 "steady_link T" T for sha256 T
  by unfold_locales (rule steady_link_facts(3))

section \<open>Properties\<close>

text \<open>The digests the tests compare differ, and every digest has 32 bytes.\<close>

definition tells_apart :: "(bytes \<Rightarrow> bytes) \<Rightarrow> bool" where
  "tells_apart sha \<longleftrightarrow> sha (str_bytes ''different'') \<noteq> sha (str_bytes ''fingerprint-key'') \<and>
     sha (str_bytes ''wrong'') \<noteq> sha (str_bytes ''ticket-one'') \<and>
     distinct (map (\<lambda>s. sha (str_bytes s)) [''cap-key-one'', ''cap-key-two'', ''cap-key-three''])"

text \<open>
  C11: the Redis store passes every scenario of the store's contract tests, as the memory store does. On every
  server that obeys the Redis laws and is empty at first, when every request arrives and the tests take
  less than a quarter of an hour, at every clock reading the store can write, and for every digest
  function with digests of 32 bytes that tells apart what the tests compare.
\<close>

theorem redis_passes_contract:
  assumes "redis_server rd entry clock" and "\<And>n d. server_ticks entry clock d (lk_Before lk n d)"
    and "\<And>n d. lk_Fate lk n d = Delivered" and "\<And>n d. clock d \<le> T \<Longrightarrow> clock (lk_Before lk n d) \<le> T"
    and "\<And>k. entry d k = None" and "clock d \<le> T" and "test_times T now" and "digests32 sha" and "tells_apart sha"
  shows "passes_contract (redis_ops rd sha lk) sha now d"
proof -
  have l: "redis_tested rd entry clock lk T"
    using assms(1-4) by (simp add: redis_tested_def redis_tested_axioms_def redis_reliable_def redis_reliable_axioms_def
        redis_client_def redis_client_axioms_def)
  have k: "keeps_ledger entry clock sha T {} empty_ledger d"
    using tracks_empty [of entry d sha T] assms(5,6) by (simp add: keeps_ledger_def empty_ledger_def)
  note same = redis_tested.scenarios_same [OF l k assms(8,7)] redis_tested.concurrent_same [OF l k assms(8,7)]
  show ?thesis
    using assms(9) unfolding passes_contract_def same tells_apart_def
    by (simp add: ledger_expired ledger_replay ledger_idempotency ledger_capacity ledger_concurrent)
qed

theorem redis_passes_contract_witness:
  "passes_contract (redis_ops table_redis test_sha (steady_link 1700000060000)) test_sha 1700000000123456789
     (empty_table 1700000000120)"
proof (rule redis_passes_contract [OF table.redis_server_axioms steady_link_facts, where T = 1700000060000])
  show "tells_apart test_sha" unfolding tells_apart_def by code_simp
  show "digests32 test_sha" by (auto simp: digests32_def test_sha_def min_def)
  show "table_entry (empty_table 1700000000120) k = None" for k by (rule empty_table_entry)
  show "test_times 1700000060000 1700000000123456789" by (simp add: test_times_def stamp_def unix_milli_def)
qed (simp_all add: empty_table_def)

end
