(* ===== verification/MemoryHistories.thy ===== *)
theory MemoryHistories
  imports MemoryStore
begin

text \<open>
  What the memory store guarantees over whole histories: the decision of a claim in terms of the
  sessions that are active, the capacity limits, idempotent creation on every branch, and the
  properties of every reachable state.
\<close>

section \<open>Capacity\<close>

text \<open>
  The sessions that count against the limits at time \<open>now\<close>: the claimed ones whose lease and
  record have not expired. \<open>cleanup\<close> leaves exactly their leases, so the map sizes the claim
  compares with the limits are the numbers of these sessions.
\<close>

definition active_ids :: "time \<Rightarrow> mem_store \<Rightarrow> string set" where
  "active_ids now s =
     {i. \<exists>st. mget (ms_sessions s) i = Some st \<and> s_State st = StateClaimed \<and>
              now < s_ExpiresAt st \<and> now < s_TombstoneExpiresAt st}"

definition active_ids_of :: "string \<Rightarrow> time \<Rightarrow> mem_store \<Rightarrow> string set" where
  "active_ids_of subject now s =
     {i. \<exists>st. mget (ms_sessions s) i = Some st \<and> s_State st = StateClaimed \<and>
              now < s_ExpiresAt st \<and> now < s_TombstoneExpiresAt st \<and> s_SubjectID st = subject}"

lemma cleanup_lease_Some:
  assumes inv: "mem_inv s"
  shows "mget (ms_leases (cleanup now s)) i = Some l \<longleftrightarrow>
    (\<exists>st. mget (ms_sessions s) i = Some st \<and> s_State st = StateClaimed \<and>
       now < s_ExpiresAt st \<and> now < s_TombstoneExpiresAt st \<and> l = lease_of i st)"
proof (cases "mget (ms_sessions s) i")
  case None
  then show ?thesis by (simp add: cleanup_leases [OF inv] cleanup_sessions [OF inv])
next
  case (Some st)
  then show ?thesis
    by (auto simp: cleanup_leases [OF inv] cleanup_sessions [OF inv] lease_view_def
        after_cleanup_def expire_session_def)
qed

lemma active_count:
  assumes inv: "mem_inv s"
  shows "length (ms_leases (cleanup now s)) = card (active_ids now s)"
    and "active_subject (ms_leases (cleanup now s)) subject = card (active_ids_of subject now s)"
proof -
  have wf: "mwf (ms_leases (cleanup now s))"
    using inv by (simp add: mem_inv_index index_inv_mwf)
  have "{i. mget (ms_leases (cleanup now s)) i \<noteq> None} = active_ids now s"
    by (auto simp: active_ids_def cleanup_lease_Some [OF inv])
  then show "length (ms_leases (cleanup now s)) = card (active_ids now s)"
    using length_mwf [OF wf] by simp
  have "{i. \<exists>l. mget (ms_leases (cleanup now s)) i = Some l \<and> s_SubjectID (le_Session l) = subject} =
      active_ids_of subject now s"
    by (auto simp: active_ids_of_def cleanup_lease_Some [OF inv] lease_of_def)
  then show "active_subject (ms_leases (cleanup now s)) subject = card (active_ids_of subject now s)"
    using filter_length_mwf [OF wf, of "\<lambda>l. s_SubjectID (le_Session l) = subject"]
    by (simp add: active_subject_def case_prod_unfold)
qed

text \<open>The outcome of a claim, on the state before the cleanup.\<close>

definition claimable :: "time \<Rightarrow> session \<Rightarrow> bool" where
  "claimable now st \<longleftrightarrow>
     s_State st = StateIssued \<and> now < s_TicketExpiresAt st \<and> now < s_TombstoneExpiresAt st"

lemma after_cleanup_issued:
  "after_cleanup now st = Some st' \<Longrightarrow> s_State st' = StateIssued \<longleftrightarrow> s_State st = StateIssued"
  by (auto simp: after_cleanup_def expire_session_def split: if_splits)

lemma after_cleanup_claimable: "claimable now st \<Longrightarrow> after_cleanup now st = Some st"
  by (simp add: claimable_def after_cleanup_def expire_session_def)

lemma mem_claim_iff:
  assumes inv: "mem_inv s"
  shows "is_ok (fst (mem_ClaimAndReserve sid d now lim s)) \<longleftrightarrow>
    (\<exists>st. mget (ms_sessions s) sid = Some st \<and> claimable now st \<and> s_TicketDigest st = d \<and>
       int (card (active_ids now s)) < cl_MaxActive lim \<and>
       int (card (active_ids_of (s_SubjectID st) now s)) < cl_MaxActivePerSubject lim)"
proof (cases "Option.bind (mget (ms_sessions s) sid) (after_cleanup now)")
  case None
  then have "mget (ms_sessions (cleanup now s)) sid = None"
    by (simp add: cleanup_sessions [OF inv])
  with None show ?thesis
    by (auto simp: mem_ClaimAndReserve_def Let_def claimable_def after_cleanup_def bind_eq_None_conv)
next
  case (Some st')
  then obtain st where st: "mget (ms_sessions s) sid = Some st" and st': "after_cleanup now st = Some st'"
    by (auto simp: bind_eq_Some_conv)
  have found: "mget (ms_sessions (cleanup now s)) sid = Some st'"
    using Some by (simp add: cleanup_sessions [OF inv])
  show ?thesis
  proof (cases "claimable now st")
    case True
    then have "st' = st" using st' after_cleanup_claimable by simp
    with True show ?thesis
      by (auto simp: mem_ClaimAndReserve_def Let_def found st active_count [OF inv] claimable_def)
  next
    case False
    then have "s_State st' \<noteq> StateIssued \<or> \<not> now < s_TicketExpiresAt st'"
      using st' by (auto simp: claimable_def after_cleanup_def expire_session_def split: if_splits)
    with False show ?thesis
      by (auto simp: mem_ClaimAndReserve_def Let_def found st)
  qed
qed

definition within_limits :: "claim_limits \<Rightarrow> mem_store \<Rightarrow> bool" where
  "within_limits lim s \<longleftrightarrow>
     int (length (ms_leases s)) \<le> cl_MaxActive lim \<and>
     (\<forall>subject. int (active_subject (ms_leases s) subject) \<le> cl_MaxActivePerSubject lim)"

lemma expire_lease_count:
  "length (filter P (ms_leases (expire_lease now p s))) \<le> length (filter P (ms_leases s))"
  by (cases p) (simp add: expire_lease_def Let_def filter_length_mdel)

lemma purge_key_count:
  "length (filter P (ms_leases (purge_key now p s))) \<le> length (filter P (ms_leases s))"
  by (cases p) (simp add: purge_key_def filter_length_mdel split: option.split)

lemma cleanup_count:
  "length (filter P (ms_leases (cleanup now s))) \<le> length (filter P (ms_leases s))"
proof -
  have e: "length (filter P (ms_leases (fold (expire_lease now) ls t))) \<le> length (filter P (ms_leases t))"
    for ls t
    by (induction ls arbitrary: t) (auto intro: order_trans expire_lease_count)
  have p: "length (filter P (ms_leases (fold (purge_key now) ks t))) \<le> length (filter P (ms_leases t))"
    for ks t
    by (induction ks arbitrary: t) (auto intro: order_trans purge_key_count)
  show ?thesis
    unfolding cleanup_def cleanup_in_order_def by (rule order_trans [OF p e])
qed

lemma within_limits_mono:
  assumes "\<And>P. length (filter P (ms_leases t)) \<le> length (filter P (ms_leases s))" and "within_limits lim s"
  shows "within_limits lim t"
proof -
  have "length (ms_leases t) \<le> length (ms_leases s)"
    using assms(1) [of "\<lambda>_. True"] by simp
  moreover have "active_subject (ms_leases t) x \<le> active_subject (ms_leases s) x" for x
    using assms(1) by (simp add: active_subject_def)
  ultimately show ?thesis
    using assms(2) unfolding within_limits_def by (meson of_nat_le_iff order_trans)
qed

lemma within_limits_cleanup: "within_limits lim s \<Longrightarrow> within_limits lim (cleanup now s)"
  by (rule within_limits_mono [OF cleanup_count])

fun uses_limits :: "claim_limits \<Rightarrow> store_event \<Rightarrow> bool" where
  "uses_limits lim (EvClaim sid d now l) = (l = lim)"
| "uses_limits lim _ = True"

lemma within_limits_claim:
  assumes inv: "mem_inv s" and lim: "within_limits lim s"
  shows "within_limits lim (snd (mem_ClaimAndReserve sid d now lim s))"
proof -
  let ?s = "cleanup now s"
  have inv': "mem_inv ?s" and lim': "within_limits lim ?s"
    using assms within_limits_cleanup by auto
  have fresh: "mget (ms_leases ?s) sid = None"
    if "mget (ms_sessions ?s) sid = Some st" "s_State st = StateIssued" for st
    using that by (simp add: mem_inv_leases [OF inv'] lease_view_def)
  show ?thesis
    using lim' fresh
    by (auto simp: mem_ClaimAndReserve_def Let_def within_limits_def mput_fresh active_subject_def
        split: option.split)
qed

lemma within_limits_event:
  assumes "mem_inv s" and "within_limits lim s" and "uses_limits lim e"
  shows "within_limits lim (snd (exec_event memory_ops e s))"
proof (cases e)
  case (EvCreate key c)
  then show ?thesis
    using within_limits_cleanup [OF assms(2)]
    by (auto simp: mem_CreateOrGet_def Let_def within_limits_def split: option.split)
next
  case (EvGet key)
  then show ?thesis using assms by simp
next
  case (EvClaim sid d now l)
  then show ?thesis using assms within_limits_claim by simp
next
  case (EvClose sid lid reason now)
  let ?s = "cleanup now s"
  have "within_limits lim ?s" by (rule within_limits_cleanup [OF assms(2)])
  moreover from this have "within_limits lim (?s\<lparr> ms_leases := mdel sid (ms_leases ?s), ms_sessions := S \<rparr>)" for S
    by (rule within_limits_mono [rotated]) (simp add: filter_length_mdel)
  ultimately show ?thesis
    by (simp add: EvClose mem_CloseAndRelease_def Let_def split: option.split)
qed


section \<open>Histories of the memory store\<close>

lemma mem_run_step:
  assumes "mem_inv s" and "fresh_history mem_phase s (e # es)"
  shows "mem_inv (snd (exec_event memory_ops e s))"
    and "fresh_history mem_phase (snd (exec_event memory_ops e s)) es"
  using mem.fresh_history_step [OF assms, of "fst (exec_event memory_ops e s)" "snd (exec_event memory_ops e s)"]
  by simp_all

lemma mem_run_inv:
  "mem_inv s \<Longrightarrow> fresh_history mem_phase s es \<Longrightarrow> mem_inv (snd (run_events memory_ops es s))"
proof (induction es arbitrary: s)
  case Nil
  then show ?case by simp
next
  case (Cons e es)
  note step = mem_run_step [OF Cons.prems]
  show ?case using Cons.IH [OF step] by simp
qed

lemma mem_run_within_limits:
  "mem_inv s \<Longrightarrow> fresh_history mem_phase s es \<Longrightarrow> within_limits lim s \<Longrightarrow>
   list_all (uses_limits lim) es \<Longrightarrow> within_limits lim (snd (run_events memory_ops es s))"
proof (induction es arbitrary: s)
  case Nil
  then show ?case by simp
next
  case (Cons e es)
  note step = mem_run_step [OF Cons.prems(1,2)]
  have "within_limits lim (snd (exec_event memory_ops e s))"
    using Cons.prems by (intro within_limits_event) simp_all
  with Cons.IH [OF step] Cons.prems(4) show ?case by simp
qed

text \<open>Further claims of an identifier that is no longer issued all fail.\<close>

lemma mem_claims_rejected:
  assumes "mem_inv s" and "\<And>d. mem_phase s sid \<noteq> PIssued d"
  shows "claims_won sid (map (\<lambda>(d, now). EvClaim sid d now lim) ds)
    (fst (run_events memory_ops (map (\<lambda>(d, now). EvClaim sid d now lim) ds) s)) = 0"
proof (rule mem.no_claim_after [OF assms(1) _ _ assms(2)])
  show none: "sid \<notin> set (created_ids (map (\<lambda>(d, now). EvClaim sid d now lim) ds))"
    by (induction ds) auto
  have "created_ids (map (\<lambda>(d, now). EvClaim sid d now lim) ds) = []"
    by (induction ds) auto
  moreover have "list_all creates_issued (map (\<lambda>(d, now). EvClaim sid d now lim) ds)"
    by (induction ds) auto
  ultimately show "fresh_history mem_phase s (map (\<lambda>(d, now). EvClaim sid d now lim) ds)"
    by (simp add: fresh_history_def)
qed

section \<open>Idempotent creation, branch by branch\<close>

definition stored_under :: "time \<Rightarrow> string \<Rightarrow> mem_store \<Rightarrow> session option" where
  "stored_under now key s =
     Option.bind (mget (ms_byKey s) key)
       (\<lambda>i. Option.bind (mget (ms_sessions s) i) (after_cleanup now))"

lemma cleanup_index_Some:
  assumes inv: "mem_inv s"
  shows "mget (ms_byKey (cleanup now s)) key = Some i \<longleftrightarrow>
    mget (ms_byKey s) key = Some i \<and> (\<exists>st. mget (ms_sessions s) i = Some st \<and> now < s_TombstoneExpiresAt st)"
proof -
  have "mget (ms_byKey s) key = Some i \<Longrightarrow> \<exists>st. mget (ms_sessions s) i = Some st"
    by (metis index_inv_session mem_inv_index [OF inv])
  then show ?thesis
    by (auto simp: cleanup_byKey [OF inv] bind_eq_Some_conv dead_id_def split: option.splits if_splits)
qed

lemma stored_under_cleanup:
  assumes inv: "mem_inv s"
  shows "stored_under now key s = Some st \<longleftrightarrow>
    (\<exists>i. mget (ms_byKey (cleanup now s)) key = Some i \<and> mget (ms_sessions (cleanup now s)) i = Some st)"
  by (auto simp: stored_under_def cleanup_index_Some [OF inv] cleanup_sessions [OF inv]
      bind_eq_Some_conv after_cleanup_def split: if_splits)

lemma stored_under_None:
  assumes inv: "mem_inv s" and none: "stored_under now key s = None"
  shows "mget (ms_byKey (cleanup now s)) key = None"
proof (rule ccontr)
  assume "mget (ms_byKey (cleanup now s)) key \<noteq> None"
  then obtain i where i: "mget (ms_byKey (cleanup now s)) key = Some i" by blast
  then obtain st where "mget (ms_sessions (cleanup now s)) i = Some st"
    by (rule index_inv_session [OF cleanup_index_inv [OF inv]])
  with i none stored_under_cleanup [OF inv] show False by (metis option.distinct(1))
qed

lemma mem_CreateOrGet_result:
  assumes inv: "mem_inv s"
  shows "fst (mem_CreateOrGet key c s) =
    (case stored_under (s_CreatedAt c) key s of
       None \<Rightarrow> Inr (c, False)
     | Some st \<Rightarrow>
         if s_RequestFingerprint st \<noteq> s_RequestFingerprint c then Inl (Sentinel ErrConflict)
         else if s_State st = StateIssued \<and> s_CreatedAt c < s_TicketExpiresAt st
         then Inr (st, True)
         else Inl (Sentinel ErrFailedPrecondition))"
proof (cases "stored_under (s_CreatedAt c) key s")
  case None
  with stored_under_None [OF inv None] show ?thesis
    by (simp add: mem_CreateOrGet_def Let_def)
next
  case (Some st)
  then obtain i where "mget (ms_byKey (cleanup (s_CreatedAt c) s)) key = Some i"
    and "mget (ms_sessions (cleanup (s_CreatedAt c) s)) i = Some st"
    using stored_under_cleanup [OF inv] by blast
  with Some show ?thesis
    by (simp add: mem_CreateOrGet_def Let_def)
qed


section \<open>Reachable states\<close>

text \<open>
  The states of a running store: the empty one, and what any operation leaves, provided a created
  session has an identifier the store does not hold (identifiers are random) and starts issued.
\<close>

inductive mem_reachable :: "mem_store \<Rightarrow> bool" where
  reach_new: "mem_reachable new_mem_store"
| reach_step: "mem_reachable s \<Longrightarrow> fresh_history mem_phase s [e] \<Longrightarrow>
    mem_reachable (snd (exec_event memory_ops e s))"

lemma reachable_mem_inv: "mem_reachable s \<Longrightarrow> mem_inv s"
proof (induction rule: mem_reachable.induct)
  case reach_new
  show ?case by (rule mem_inv_new)
next
  case (reach_step s e)
  then show ?case using mem_run_step(1) by blast
qed

text \<open>Concrete values for the instances below.\<close>

definition demo_session :: "string \<Rightarrow> session" where
  "demo_session sid = zero_session\<lparr> s_ID := sid, s_IdempotencyKey := ''key'', s_SubjectID := ''alice'',
     s_TicketDigest := replicate 32 7, s_TicketCiphertext := [1, 2, 3], s_State := StateIssued,
     s_CreatedAt := 0, s_TicketExpiresAt := 60, s_TombstoneExpiresAt := 960 \<rparr>"

definition demo_limits :: claim_limits where
  "demo_limits = \<lparr> cl_MaxActive = 2, cl_MaxActivePerSubject = 1, cl_SessionMaxDuration = 900,
     cl_IdempotencyTTL = 900 \<rparr>"

definition demo_create :: store_event where
  "demo_create = EvCreate ''key'' (demo_session ''one'')"

definition demo_claim :: store_event where
  "demo_claim = EvClaim ''one'' (replicate 32 7) 10 demo_limits"

definition demo_store :: mem_store where
  "demo_store = snd (run_events memory_ops [demo_create] new_mem_store)"

lemma demo_session_simps [simp]:
  "s_ID (demo_session i) = i" "s_State (demo_session i) = StateIssued"
  "s_TicketDigest (demo_session i) = replicate 32 7" "s_CreatedAt (demo_session i) = 0"
  "s_TicketExpiresAt (demo_session i) = 60" "s_TombstoneExpiresAt (demo_session i) = 960"
  "s_SubjectID (demo_session i) = ''alice''"
  by (simp_all add: demo_session_def)

lemma demo_store_eq:
  "demo_store = \<lparr> ms_sessions = [(''one'', demo_session ''one'')], ms_byKey = [(''key'', ''one'')],
     ms_leases = [] \<rparr>"
  by (simp add: demo_store_def demo_create_def new_mem_store_def mem_CreateOrGet_def Let_def
      cleanup_def cleanup_in_order_def mput_fresh)

lemma demo_store_reachable: "mem_reachable demo_store"
proof -
  have "fresh_history mem_phase new_mem_store [demo_create]"
    by (simp add: fresh_history_def demo_create_def mem_phase_def new_mem_store_def)
  from reach_step [OF reach_new this] show ?thesis
    by (simp add: demo_store_def)
qed

section \<open>Properties\<close>




text \<open>
  C2: a claim succeeds exactly when it should. The identifier names an issued session whose ticket
  and record have not expired, the digest of the presented ticket is the stored one, fewer than
  \<open>MaxActive\<close> claimed sessions are unexpired, and fewer than \<open>MaxActivePerSubject\<close> of them belong to
  the session's subject.
\<close>

theorem mem_claim_succeeds_iff:
  assumes "mem_reachable s"
  shows "is_ok (fst (mem_ClaimAndReserve sid d now lim s)) \<longleftrightarrow>
    (\<exists>st. mget (ms_sessions s) sid = Some st \<and> claimable now st \<and> s_TicketDigest st = d \<and>
       int (card (active_ids now s)) < cl_MaxActive lim \<and>
       int (card (active_ids_of (s_SubjectID st) now s)) < cl_MaxActivePerSubject lim)"
  by (rule mem_claim_iff [OF reachable_mem_inv [OF assms]])

theorem mem_claim_succeeds_iff_witness:
  "is_ok (fst (mem_ClaimAndReserve ''one'' (replicate 32 7) 59 demo_limits demo_store)) \<and>
   \<not> is_ok (fst (mem_ClaimAndReserve ''one'' (replicate 32 7) 60 demo_limits demo_store)) \<and>
   \<not> is_ok (fst (mem_ClaimAndReserve ''one'' (replicate 32 8) 59 demo_limits demo_store))"
proof -
  have "active_ids 59 demo_store = {}" "active_ids_of ''alice'' 59 demo_store = {}"
    by (auto simp: active_ids_def active_ids_of_def demo_store_eq)
  then show ?thesis
    unfolding mem_claim_succeeds_iff [OF demo_store_reachable]
    by (simp add: demo_store_eq claimable_def demo_limits_def)
qed

text \<open>
  C3: capacity is never exceeded. A history whose claims all use the same limits, started from a
  reachable state within those limits, leaves the store within them: at most \<open>MaxActive\<close> leases,
  and at most \<open>MaxActivePerSubject\<close> for every subject.
\<close>

theorem mem_capacity_respected:
  assumes "mem_reachable s" and "fresh_history mem_phase s es" and "list_all (uses_limits lim) es"
    and "within_limits lim s"
  shows "within_limits lim (snd (run_events memory_ops es s))"
  using mem_run_within_limits [OF reachable_mem_inv] assms by blast

theorem mem_capacity_respected_witness:
  "within_limits demo_limits
     (snd (run_events memory_ops [demo_create, demo_claim] new_mem_store)) \<and>
   length (ms_leases (snd (run_events memory_ops [demo_create, demo_claim] new_mem_store))) = 1"
proof -
  have fresh: "fresh_history mem_phase new_mem_store [demo_create, demo_claim]"
    and lim: "list_all (uses_limits demo_limits) [demo_create, demo_claim]"
    and start: "within_limits demo_limits new_mem_store"
    by (simp_all add: fresh_history_def demo_create_def demo_claim_def mem_phase_def new_mem_store_def
        within_limits_def active_subject_def demo_limits_def)
  have "length (ms_leases (snd (run_events memory_ops [demo_create, demo_claim] new_mem_store))) = 1"
    by code_simp
  with mem_capacity_respected [OF reach_new fresh lim start] show ?thesis by simp
qed

text \<open>
  C4: the three maps of the memory store always agree. In every reachable state the idempotency
  index is a bijection between keys and sessions, the leases are exactly the claimed sessions with
  the stored session, lease identifier and expiry, and only an issued session holds a ticket
  ciphertext.
\<close>

theorem mem_store_consistent:
  assumes "mem_reachable s"
  shows "mem_inv s"
  by (rule reachable_mem_inv [OF assms])

theorem mem_store_consistent_witness:
  "mem_inv demo_store \<and> mget (ms_sessions demo_store) ''one'' = Some (demo_session ''one'')"
  using mem_store_consistent [OF demo_store_reachable] by (simp add: demo_store_eq)

text \<open>
  C5: the order in which Go ranges over the maps in \<open>cleanup\<close> is not observable. Running the two
  loops over any permutation of the leases and of the key index finds the same sessions, leases and
  keys as running them in the order of the lists.
\<close>

theorem cleanup_order_irrelevant:
  assumes "mem_reachable s" and "mset ls = mset (ms_leases s)" and "mset ks = mset (ms_byKey s)"
  shows "mget (ms_sessions (cleanup_in_order now ls ks s)) = mget (ms_sessions (cleanup now s)) \<and>
    mget (ms_leases (cleanup_in_order now ls ks s)) = mget (ms_leases (cleanup now s)) \<and>
    mget (ms_byKey (cleanup_in_order now ls ks s)) = mget (ms_byKey (cleanup now s))"
  using reachable_mem_inv [OF assms(1)] assms(2,3)
  by (simp add: fun_eq_iff cleanup_def cleanup_in_order_sessions cleanup_in_order_leases
      cleanup_in_order_byKey)

definition demo_store2 :: mem_store where
  "demo_store2 = snd (run_events memory_ops
     [demo_claim, EvCreate ''key2'' (demo_session ''two''), EvGet ''key''] demo_store)"

theorem cleanup_order_irrelevant_witness:
  "mget (ms_sessions (cleanup_in_order 960 (ms_leases demo_store2) (rev (ms_byKey demo_store2)) demo_store2)) ''two'' = None \<and>
   mget (ms_sessions (cleanup 960 demo_store2)) ''two'' = None \<and> length (ms_byKey demo_store2) = 2"
proof -
  have c: "fresh_history mem_phase demo_store [demo_claim]"
    by (simp add: fresh_history_def demo_claim_def)
  let ?s1 = "snd (exec_event memory_ops demo_claim demo_store)"
  have "mem_phase ?s1 ''two'' = Absent" by code_simp
  then have f: "fresh_history mem_phase ?s1 [EvCreate ''key2'' (demo_session ''two'')]"
    by (simp add: fresh_history_def)
  have g: "fresh_history mem_phase s [EvGet k]" for s k by (simp add: fresh_history_def)
  have "mem_reachable demo_store2"
    using reach_step [OF reach_step [OF reach_step [OF demo_store_reachable c] f] g [of _ "''key''"]]
    by (simp add: demo_store2_def)
  from cleanup_order_irrelevant [OF this, of "ms_leases demo_store2" "rev (ms_byKey demo_store2)" 960]
  have "mget (ms_sessions (cleanup_in_order 960 (ms_leases demo_store2) (rev (ms_byKey demo_store2)) demo_store2)) =
      mget (ms_sessions (cleanup 960 demo_store2))" by simp
  moreover have "mget (ms_sessions (cleanup 960 demo_store2)) ''two'' = None" by code_simp
  moreover have "length (ms_byKey demo_store2) = 2" by code_simp
  ultimately show ?thesis by simp
qed



text \<open>
  A burst of identical claims has exactly one winner. When a session is claimable with the given
  digest and there is capacity, then of any number of callers that present the ticket, at any times
  after the first, the first one to reach the store succeeds and every other fails.
\<close>

lemma mem_claim_burst:
  assumes "mem_reachable s" and "is_ok (fst (mem_ClaimAndReserve sid d now lim s))"
  shows "claims_won sid (EvClaim sid d now lim # map (\<lambda>(d', t). EvClaim sid d' t lim) rest)
    (fst (run_events memory_ops
       (EvClaim sid d now lim # map (\<lambda>(d', t). EvClaim sid d' t lim) rest) s)) = 1"
proof -
  note inv = reachable_mem_inv [OF assms(1)]
  obtain l s' where c: "mem_ClaimAndReserve sid d now lim s = (Inr l, s')"
    using assms(2) by (metis prod.collapse)
  have "mem_inv s'"
    using mem_ClaimAndReserve_inv [OF inv, of sid d now lim] c by simp
  moreover have "mem_phase s' sid \<noteq> PIssued x" for x
    using mem_ClaimAndReserve_phase(2) [OF inv c] by simp
  ultimately show ?thesis
    using c mem_claims_rejected by simp
qed

text \<open>
  Closing is idempotent and releases the lease. A close that reports success leaves the session
  closed and without a lease, whoever closed it first, and a second close at the same time, with any
  lease identifier and reason, succeeds and changes nothing.
\<close>

lemma mem_close_idempotent:
  assumes "mem_reachable s" and "mem_CloseAndRelease sid lid reason now s = (Inr (), s')"
  shows "mem_phase s' sid = PClosed \<and> mget (ms_leases s') sid = None \<and>
    (\<exists>s''. mem_CloseAndRelease sid lid' reason' now s' = (Inr (), s'') \<and>
       mget (ms_sessions s'') sid = mget (ms_sessions s') sid)"
proof -
  note inv = reachable_mem_inv [OF assms(1)]
  have inv': "mem_inv s'"
    using mem_CloseAndRelease_inv [OF inv, of sid lid reason now] assms(2) by simp
  obtain st where st: "mget (ms_sessions s') sid = Some st" "s_State st = StateClosed"
      "now < s_TombstoneExpiresAt st"
    using assms(2) by (auto simp: mem_CloseAndRelease_def Let_def cleanup_sessions [OF inv]
        after_cleanup_def bind_eq_Some_conv split: option.splits if_splits)
  have "mget (ms_sessions (cleanup now s')) sid = Some st"
    using st by (simp add: cleanup_sessions [OF inv'] after_cleanup_def expire_session_def)
  then show ?thesis
    using st by (simp add: mem_CloseAndRelease_def Let_def mem_phase_def mem_inv_leases [OF inv']
        lease_view_def)
qed

end
