(* ===== verification/StoreEquivalence.thy ===== *)
theory StoreEquivalence
  imports RedisLedger MemoryHistories
begin

text \<open>
  The two implementations of the \<open>Store\<close> interface side by side. Over a period in which no session, lease or
  tombstone expires they are interchangeable: every history gets the same replies from both, the
  Redis store's sessions being those of the memory store as a Redis hash holds them. After the end of
  a session's maximum duration they are not.
\<close>

section \<open>A period in which nothing expires\<close>

text \<open>\<open>T\<close> is the last millisecond of the period, \<open>X\<close> holds the keys and subjects that occur.\<close>

definition settled_session :: "int \<Rightarrow> string set \<Rightarrow> session \<Rightarrow> bool" where
  "settled_session T X v \<longleftrightarrow> T < unix_milli (s_TombstoneExpiresAt v) \<and> s_TicketExpiresAt v mod 1000000 = 0 \<and>
     (s_State v = StateClaimed \<longrightarrow> T < unix_milli (s_ExpiresAt v)) \<and> s_SubjectID v \<in> X"

fun settled :: "int \<Rightarrow> string set \<Rightarrow> store_event \<Rightarrow> bool" where
  "settled T X (EvCreate key c) \<longleftrightarrow> key = s_IdempotencyKey c \<and> s_State c = StateIssued \<and> key \<in> X \<and>
     unix_milli (s_CreatedAt c) \<le> T \<and> settled_session T X c"
| "settled T X (EvGet key) \<longleftrightarrow> key \<in> X"
| "settled T X (EvClaim sid d now lim) \<longleftrightarrow> unix_milli now \<le> T \<and> T < unix_milli (now + cl_SessionMaxDuration lim) \<and>
     T < unix_milli (now + cl_SessionMaxDuration lim + cl_IdempotencyTTL lim)"
| "settled T X (EvClose sid lease reason now) \<longleftrightarrow> unix_milli now \<le> T"

text \<open>SHA-256 tells the strings of \<open>X\<close> apart.\<close>

definition tells_apart :: "(bytes \<Rightarrow> bytes) \<Rightarrow> string set \<Rightarrow> bool" where
  "tells_apart sha X \<longleftrightarrow> inj_on (\<lambda>x. sha (str_bytes x)) X"

lemma milli_before: "unix_milli a \<le> T \<Longrightarrow> T < unix_milli b \<Longrightarrow> a < b"
proof (rule ccontr)
  assume "unix_milli a \<le> T" "T < unix_milli b" "\<not> a < b"
  then have "unix_milli b \<le> unix_milli a" by (simp add: unix_milli_def zdiv_mono1)
  with \<open>unix_milli a \<le> T\<close> \<open>T < unix_milli b\<close> show False by simp
qed

lemma milli_aligned: "te mod 1000000 = 0 \<Longrightarrow> unix_milli te \<le> unix_milli now \<longleftrightarrow> \<not> now < te"
proof -
  assume "te mod 1000000 = 0"
  then obtain k where te: "te = k * 1000000" by (metis dvd_div_mult_self mod_0_imp_dvd)
  have "k \<le> now div 1000000 \<longleftrightarrow> k * 1000000 \<le> now" by linarith
  then show ?thesis by (simp add: te unix_milli_def not_less)
qed

lemma cleanup_settled:
  assumes inv: "mem_inv s" and now: "unix_milli now \<le> T"
    and live: "\<And>i v. mget (ms_sessions s) i = Some v \<Longrightarrow> settled_session T X v"
  shows "cleanup now s = s"
proof -
  have wf: "mwf (ms_leases s)" using mem_inv_index [OF inv] by (simp add: index_inv_def)
  have lease: "expire_lease now p s = s" if "p \<in> set (ms_leases s)" for p
  proof -
    obtain i l where p: "p = (i, l)" by fastforce
    then have "Option.bind (mget (ms_sessions s) i) (lease_view i) = Some l"
      using that mget_iff [OF wf, of i l] mem_inv_leases [OF inv, of i] by simp
    then obtain v where v: "mget (ms_sessions s) i = Some v" "s_State v = StateClaimed" "le_ExpiresAt l = s_ExpiresAt v"
      by (auto simp: bind_eq_Some_conv lease_view_def lease_of_def split: if_splits)
    then have "now < le_ExpiresAt l" using live [OF v(1)] milli_before [OF now] by (simp add: settled_session_def)
    then show ?thesis by (simp add: expire_lease_def p)
  qed
  have key: "purge_key now p s = s" for p
    using live milli_before [OF now]
    by (auto simp: purge_key_def settled_session_def split: prod.splits option.splits)
  have "fold (expire_lease now) ls s = s" if "set ls \<subseteq> set (ms_leases s)" for ls
    using that by (induction ls) (simp_all add: lease)
  moreover have "fold (purge_key now) ks s = s" for ks
    by (induction ks) (simp_all add: key)
  ultimately show ?thesis by (simp add: cleanup_def cleanup_in_order_def)
qed

section \<open>The relation of the two stores\<close>

text \<open>The score a session has in the lease sets.\<close>

definition lease_score :: "session \<Rightarrow> int option" where
  "lease_score v = (if s_State v = StateClaimed then Some (unix_milli (s_ExpiresAt v)) else None)"

definition subject_score :: "string \<Rightarrow> session \<Rightarrow> int option" where
  "subject_score u v = (if s_SubjectID v = u then lease_score v else None)"

definition same_leases :: "(string, int) gomap \<Rightarrow> (session \<Rightarrow> int option) \<Rightarrow> mem_store \<Rightarrow> bool" where
  "same_leases z score s \<longleftrightarrow> mwf z \<and> (\<forall>i. mget z i = Option.bind (mget (ms_sessions s) i) score)"

definition agrees :: "(bytes \<Rightarrow> bytes) \<Rightarrow> int \<Rightarrow> string set \<Rightarrow> mem_store \<Rightarrow> ledger \<Rightarrow> bool" where
  "agrees sha T X s A \<longleftrightarrow> mem_inv s \<and> mget (lg_Sessions A) = mget (ms_sessions s) \<and>
     (\<forall>k \<in> X. mget (lg_Keys A) (idem_key sha k) = mget (ms_byKey s) k) \<and>
     same_leases (lg_Leases A global_leases_key) lease_score s \<and>
     (\<forall>u \<in> X. same_leases (lg_Leases A (subject_leases_key sha u)) (subject_score u) s) \<and>
     (\<forall>i v. mget (ms_sessions s) i = Some v \<longrightarrow> settled_session T X v)"

lemma keys_apart:
  assumes "tells_apart sha X" and "a \<in> X" and "b \<in> X"
  shows "idem_key sha a = idem_key sha b \<longleftrightarrow> a = b" and "subject_leases_key sha a = subject_leases_key sha b \<longleftrightarrow> a = b"
  using inj_on_eq_iff [OF assms(1) [unfolded tells_apart_def] assms(2,3)]
  by (simp_all add: idem_key_def subject_leases_key_def)

lemma agrees_session:
  assumes "agrees sha T X s A" and "mget (ms_sessions s) i = Some v"
  shows "s_ID v = i" and "settled_session T X v" and "s_SubjectID v \<in> X"
    and "same_leases (fst (ledger_leases sha v A)) lease_score s"
    and "same_leases (snd (ledger_leases sha v A)) (subject_score (s_SubjectID v)) s"
proof -
  show "s_ID v = i" using assms by (auto simp: agrees_def mem_inv_def lease_inv_def session_ok_def)
  show "settled_session T X v" using assms by (auto simp: agrees_def)
  then show "s_SubjectID v \<in> X" by (simp add: settled_session_def)
  then show "same_leases (fst (ledger_leases sha v A)) lease_score s"
    "same_leases (snd (ledger_leases sha v A)) (subject_score (s_SubjectID v)) s"
    using assms(1) by (simp_all add: agrees_def ledger_leases_def)
qed

text \<open>Scores past the period are not pruned, and the sets have as many members as the memory store has leases.\<close>

lemma unexpired_settled:
  assumes "agrees sha T X s A" and "unix_milli now \<le> T" and "same_leases z f s" and "f \<in> {lease_score, subject_score u}"
  shows "unexpired (unix_milli now) z = z"
proof -
  have "unix_milli now < sc" if p: "(i, sc) \<in> set z" for i sc
  proof -
    have "Option.bind (mget (ms_sessions s) i) f = Some sc"
      using p assms(3) by (metis same_leases_def mget_iff)
    then obtain v where "mget (ms_sessions s) i = Some v" "s_State v = StateClaimed" "sc = unix_milli (s_ExpiresAt v)"
      using assms(4) by (auto simp: bind_eq_Some_conv lease_score_def subject_score_def split: if_splits)
    then show ?thesis
      using agrees_session(2) [OF assms(1)] assms(2) by (fastforce simp: settled_session_def)
  qed
  then show ?thesis unfolding unexpired_def by (auto intro: filter_True)
qed

lemma lease_counts:
  assumes inv: "mem_inv s"
  shows "same_leases z lease_score s \<Longrightarrow> length z = length (ms_leases s)"
    and "same_leases z (subject_score u) s \<Longrightarrow> length z = active_subject (ms_leases s) u"
proof -
  have wf: "mwf (ms_leases s)" using mem_inv_index [OF inv] by (simp add: index_inv_def)
  note leases = mem_inv_leases [OF inv]
  assume z: "same_leases z lease_score s"
  have "(mget z i \<noteq> None) = (mget (ms_leases s) i \<noteq> None)" for i
    using z by (cases "mget (ms_sessions s) i") (auto simp: same_leases_def leases lease_score_def lease_view_def)
  then show "length z = length (ms_leases s)" using z by (simp add: same_leases_def length_mwf wf)
next
  have wf: "mwf (ms_leases s)" using mem_inv_index [OF inv] by (simp add: index_inv_def)
  note leases = mem_inv_leases [OF inv]
  assume z: "same_leases z (subject_score u) s"
  have "(mget z i \<noteq> None) = (\<exists>l. mget (ms_leases s) i = Some l \<and> s_SubjectID (le_Session l) = u)" for i
    using z by (cases "mget (ms_sessions s) i")
      (auto simp: same_leases_def leases lease_score_def subject_score_def lease_view_def lease_of_def)
  then show "length z = active_subject (ms_leases s) u"
    using z by (simp add: same_leases_def length_mwf active_subject_def filter_length_mwf [OF wf])
qed

text \<open>Both stores replace one session; the lease sets follow its new state.\<close>

lemma agrees_put:
  assumes A: "agrees sha T X s A" "tells_apart sha X" and found: "mget (ms_sessions s) i = Some v"
    and new: "s_ID u = i" "s_SubjectID u = s_SubjectID v" "settled_session T X u"
    and s': "mem_inv s'" "mget (ms_sessions s') = (mget (ms_sessions s))(i \<mapsto> u)" "ms_byKey s' = ms_byKey s"
    and sets: "mwf (fst ls)" "\<And>j. mget (fst ls) j = (if j = i then lease_score u else mget (fst (ledger_leases sha v A)) j)"
      "mwf (snd ls)" "\<And>j. mget (snd ls) j = (if j = i then lease_score u else mget (snd (ledger_leases sha v A)) j)"
  shows "agrees sha T X s' (ledger_put sha u ls A)"
proof -
  note v = agrees_session [OF A(1) found]
  let ?sb = "s_SubjectID v"
  have "same_leases (fst ls) lease_score s'"
    using v(4) sets(1,2) by (simp add: same_leases_def s'(2))
  moreover have own: "same_leases (snd ls) (subject_score ?sb) s'"
    using v(5) sets(3,4) new(2) by (simp add: same_leases_def s'(2) subject_score_def)
  moreover have "same_leases (lg_Leases A (subject_leases_key sha w)) (subject_score w) s'" if w: "w \<in> X" "w \<noteq> ?sb" for w
  proof -
    have "same_leases (lg_Leases A (subject_leases_key sha w)) (subject_score w) s" using A(1) w(1) by (simp add: agrees_def)
    then show ?thesis using found w(2) new(2) by (auto simp: same_leases_def s'(2) subject_score_def)
  qed
  moreover have "subject_leases_key sha w = subject_leases_key sha ?sb \<longleftrightarrow> w = ?sb" if "w \<in> X" for w
    by (rule keys_apart(2) [OF A(2) that v(3)])
  ultimately show ?thesis
    using A(1) s'(1,3) new lease_keys_differ(1) [of sha] lease_keys_differ(1) [of sha, symmetric]
    by (auto simp: agrees_def ledger_put_def s'(2) fun_eq_iff)
qed

text \<open>A ledger operation that changes nothing.\<close>

lemma agrees_same:
  assumes "agrees sha T X s A" and "tells_apart sha X" and "mget (ms_sessions s) i = Some v"
  shows "agrees sha T X s (ledger_put sha v (ledger_leases sha v A) A)"
  using agrees_session [OF assms(1,3)] assms
  by (intro agrees_put [OF assms]) (auto simp: agrees_def same_leases_def subject_score_def fun_eq_iff)

section \<open>The operations\<close>

text \<open>The reply of the memory store as the Redis store gives it.\<close>

fun stored_reply :: "store_reply \<Rightarrow> store_reply" where
  "stored_reply (RCreate r) = RCreate (map_sum id (apfst stored_form) r)"
| "stored_reply (RGet r) = RGet (map_sum id stored_form r)"
| "stored_reply (RClaim r) = RClaim (map_sum id (\<lambda>l. l\<lparr> le_Session := stored_form (le_Session l) \<rparr>) r)"
| "stored_reply (RClose r) = RClose r"

lemma settled_closed [simp]:
  "settled_session T X v \<Longrightarrow> settled_session T X (closed_session at reason v)"
  by (simp add: settled_session_def closed_session_def)

lemma agrees_closed:
  assumes A: "agrees sha T X s A" "tells_apart sha X" and found: "mget (ms_sessions s) i = Some v"
    and s': "mem_inv s'" "mget (ms_sessions s') = (mget (ms_sessions s))(i \<mapsto> closed_session at reason v)" "ms_byKey s' = ms_byKey s"
    and ls: "ls = (if s_State v = StateClaimed then map_prod (mdel i) (mdel i) (ledger_leases sha v A) else ledger_leases sha v A)"
  shows "agrees sha T X s' (ledger_put sha (closed_session at reason v) ls A)"
proof -
  note v = agrees_session [OF A(1) found]
  have "mget (fst (ledger_leases sha v A)) i = lease_score v" "mget (snd (ledger_leases sha v A)) i = lease_score v"
    using v(4,5) found by (simp_all add: same_leases_def subject_score_def)
  then show ?thesis
    using v s' ls by (intro agrees_put [OF A found]) (auto simp: same_leases_def lease_score_def)
qed

lemma agrees_key:
  assumes "agrees sha T X s A" and "key \<in> X"
  shows "mget (lg_Keys A) (idem_key sha key) = mget (ms_byKey s) key"
  using assms by (simp add: agrees_def)

lemma agrees_found:
  assumes "agrees sha T X s A"
  shows "mget (lg_Sessions A) = mget (ms_sessions s)" and "mem_inv s"
    and "unix_milli now \<le> T \<Longrightarrow> cleanup now s = s"
  using assms cleanup_settled by (auto simp: agrees_def)

lemma agrees_new:
  assumes A: "agrees sha T X s A" "tells_apart sha X" and e: "settled T X (EvCreate key c)"
    and free: "mget (ms_sessions s) (s_ID c) = None" and inv: "mem_inv s'"
    and s': "s' = s\<lparr> ms_byKey := mput key (s_ID c) (ms_byKey s), ms_sessions := mput (s_ID c) c (ms_sessions s) \<rparr>"
  shows "agrees sha T X s' (A\<lparr> lg_Sessions := mput (s_ID c) c (lg_Sessions A),
    lg_Keys := mput (idem_key sha key) (s_ID c) (lg_Keys A) \<rparr>)"
proof -
  have "same_leases z score s'" if "same_leases z score s" "score c = None" for z score
    using that free by (simp add: same_leases_def s')
  moreover have "lease_score c = None" "subject_score u c = None" for u
    using e by (simp_all add: lease_score_def subject_score_def)
  moreover have "idem_key sha k = idem_key sha key \<longleftrightarrow> k = key" if "k \<in> X" for k
    using keys_apart(1) [OF A(2) that, of key] e by auto
  ultimately show ?thesis
    using A(1) e inv by (auto simp: agrees_def s' fun_eq_iff)
qed

lemma create_agrees:
  assumes A: "agrees sha T X s A" "tells_apart sha X" and e: "settled T X (EvCreate key c)"
    and free: "mget (ms_sessions s) (s_ID c) = None"
    and run: "mem_CreateOrGet key c s = (r, s')" "ledger_CreateOrGet sha key c A = (q, B)"
  shows "q = map_sum id (apfst stored_form) r \<and> agrees sha T X s' B"
proof -
  note found = agrees_found [OF A(1)]
  have issued: "s_State c = StateIssued" and clean: "cleanup (s_CreatedAt c) s = s"
    using e found(3) by simp_all
  have inv: "mem_inv s'" using mem_CreateOrGet_inv [OF found(2) free issued, of key] run(1) by simp
  have key: "mget (lg_Keys A) (idem_key sha key) = mget (ms_byKey s) key" using agrees_key [OF A(1), of key] e by auto
  show ?thesis
  proof (cases "mget (ms_byKey s) key")
    case None
    then have "r = Inr (c, False)" "q = Inr (stored_form c, False)"
      "s' = s\<lparr> ms_byKey := mput key (s_ID c) (ms_byKey s), ms_sessions := mput (s_ID c) c (ms_sessions s) \<rparr>"
      "B = A\<lparr> lg_Sessions := mput (s_ID c) c (lg_Sessions A), lg_Keys := mput (idem_key sha key) (s_ID c) (lg_Keys A) \<rparr>"
      using run key by (simp_all add: mem_CreateOrGet_def clean ledger_CreateOrGet_def)
    then show ?thesis using agrees_new [OF A e free inv] by simp
  next
    case (Some sid)
    then obtain v where v: "mget (ms_sessions s) sid = Some v"
      using index_inv_session [OF mem_inv_index [OF found(2)]] by metis
    have late: "unix_milli (s_TicketExpiresAt v) \<le> unix_milli (s_CreatedAt c) \<longleftrightarrow> \<not> s_CreatedAt c < s_TicketExpiresAt v"
      using agrees_session(2) [OF A(1) v] by (intro milli_aligned) (simp add: settled_session_def)
    have L: "q = create_answer v c" "B = ledger_put sha (create_record v c) (ledger_leases sha v A) A"
      using run(2) key Some v by (simp_all add: ledger_CreateOrGet_def found(1))
    note M = run(1) [unfolded mem_CreateOrGet_def Let_def clean Some option.case v clone_id]
    show ?thesis
    proof (cases "create_answer v c = Inl (Sentinel ErrFailedPrecondition) \<and> s_State v = StateIssued")
      case True
      then have "s' = s\<lparr> ms_sessions := mput sid (closed_session (s_CreatedAt c) ''ticket_expired'' v) (ms_sessions s) \<rparr>"
        "r = Inl (Sentinel ErrFailedPrecondition)"
        using M late by (auto simp: create_answer_def split: if_splits)
      then show ?thesis
        using True agrees_closed [OF A v inv] L by (simp add: create_record_def fun_eq_iff)
    next
      case False
      then have "s' = s" "q = map_sum id (apfst stored_form) r"
        using M late L(1) by (auto simp: create_answer_def split: if_splits)
      then show ?thesis using False agrees_same [OF A v] L(2) by (auto simp: create_record_def)
    qed
  qed
qed

lemma get_agrees:
  assumes A: "agrees sha T X s A" and key: "key \<in> X"
  shows "ledger_GetByKey sha key A = (map_sum id stored_form (fst (mem_GetByKey key s)), A)"
  using agrees_found(1) [OF A] agrees_key [OF A key]
  by (simp add: ledger_GetByKey_def mem_GetByKey_def split: option.splits)

lemma claim_agrees:
  assumes A: "agrees sha T X s A" "tells_apart sha X" and e: "settled T X (EvClaim sid d now lim)"
    and run: "mem_ClaimAndReserve sid d now lim s = (r, s')" "ledger_ClaimAndReserve sha sid d now lim A = (q, B)"
  shows "q = map_sum id (\<lambda>l. l\<lparr> le_Session := stored_form (le_Session l) \<rparr>) r \<and> agrees sha T X s' B"
proof -
  note found = agrees_found [OF A(1)]
  have clean: "cleanup now s = s" using e found(3) by simp
  have inv: "mem_inv s'" using mem_ClaimAndReserve_inv [OF found(2), of sid d now lim] run(1) by simp
  show ?thesis
  proof (cases "mget (ms_sessions s) sid")
    case None
    then show ?thesis using run A(1) by (auto simp: mem_ClaimAndReserve_def clean ledger_ClaimAndReserve_def found(1))
  next
    case (Some v)
    note v = agrees_session [OF A(1) Some]
    let ?ls = "ledger_leases sha v A"
    have late: "unix_milli (s_TicketExpiresAt v) \<le> unix_milli now \<longleftrightarrow> \<not> now < s_TicketExpiresAt v"
      using v(2) by (intro milli_aligned) (simp add: settled_session_def)
    have keep: "unexpired (unix_milli now) (fst ?ls) = fst ?ls" "unexpired (unix_milli now) (snd ?ls) = snd ?ls"
      using unexpired_settled [OF A(1) _ v(4)] unexpired_settled [OF A(1) _ v(5), where u = "s_SubjectID v"] e by simp_all
    have count: "length (fst ?ls) = length (ms_leases s)" "length (snd ?ls) = active_subject (ms_leases s) (s_SubjectID v)"
      using lease_counts [OF found(2)] v(4,5) by simp_all
    have L: "q = claim_answer v ?ls d now lim" "B = ledger_put sha (claim_record v ?ls d now lim) (claim_leases v ?ls d now lim) A"
      using run(2) Some by (simp_all add: ledger_ClaimAndReserve_def found(1))
    have pruned: "map_prod (unexpired (unix_milli now)) (unexpired (unix_milli now)) ?ls = ?ls"
      using keep by (cases ?ls) simp
    note M = run(1) [unfolded mem_ClaimAndReserve_def Let_def clean Some option.case]
    show ?thesis
    proof (cases "claim_answer v ?ls d now lim")
      case (Inl e')
      note failed = Inl
      show ?thesis
      proof (cases "e' = Sentinel ErrFailedPrecondition \<and> s_State v = StateIssued")
        case True
        then have "r = Inl (Sentinel ErrFailedPrecondition)"
          "s' = s\<lparr> ms_sessions := mput sid (closed_session now ''ticket_expired'' v) (ms_sessions s) \<rparr>"
          using M failed late by (auto simp: claim_answer_def split: if_splits)
        then show ?thesis
          using True failed agrees_closed [OF A Some inv] L by (simp add: claim_record_def claim_leases_def pruned fun_eq_iff)
      next
        case False
        then have "r = Inl e'" "s' = s"
          using M failed late by (auto simp: claim_answer_def keep count split: if_splits)
        then show ?thesis
          using False failed agrees_same [OF A Some] L by (auto simp: claim_record_def claim_leases_def pruned)
      qed
    next
      case (Inr l)
      let ?u = "claimed_session (sid @ '':lease'') now lim v"
      have r: "r = Inr (lease_of sid ?u)" and s': "mget (ms_sessions s') = (mget (ms_sessions s))(sid \<mapsto> ?u)" "ms_byKey s' = ms_byKey s"
        using M Inr late by (auto simp: claim_answer_def keep count lease_of_def split: if_splits)
      have "settled_session T X ?u" "s_SubjectID ?u = s_SubjectID v" "s_ID ?u = sid"
        using e v(1,2) by (simp_all add: settled_session_def claimed_session_def Let_def)
      then have "agrees sha T X s' (ledger_put sha ?u (claim_leases v ?ls d now lim) A)"
        using v(1,4,5) Inr inv s'
        by (intro agrees_put [OF A Some])
          (simp_all add: claim_leases_def pruned same_leases_def lease_score_def mwf_mput Let_def)
      moreover have "l = (lease_of sid ?u)\<lparr> le_Session := stored_form ?u \<rparr>"
        using Inr v(1) by (auto simp: claim_answer_def lease_of_def split: if_splits)
      ultimately show ?thesis using L Inr r v(1) by (simp add: claim_record_def lease_of_def)
    qed
  qed
qed

lemma close_agrees:
  assumes A: "agrees sha T X s A" "tells_apart sha X" and e: "unix_milli now \<le> T"
    and run: "mem_CloseAndRelease sid lease reason now s = (r, s')" "ledger_CloseAndRelease sha sid lease reason now A = (q, B)"
  shows "q = r \<and> agrees sha T X s' B"
proof -
  note found = agrees_found [OF A(1)]
  have clean: "cleanup now s = s" by (rule found(3) [OF e])
  have inv: "mem_inv s'" using mem_CloseAndRelease_inv [OF found(2), of sid lease reason now] run(1) by simp
  show ?thesis
  proof (cases "mget (ms_sessions s) sid")
    case None
    then show ?thesis using run A(1) by (auto simp: mem_CloseAndRelease_def clean ledger_CloseAndRelease_def found(1))
  next
    case (Some v)
    have id: "s_ID v = sid" by (rule agrees_session(1) [OF A(1) Some])
    have L: "q = close_answer v lease"
      "B = ledger_put sha (close_record v lease reason now) (close_leases v (ledger_leases sha v A) lease) A"
      using run(2) Some by (simp_all add: ledger_CloseAndRelease_def found(1))
    note M = run(1) [unfolded mem_CloseAndRelease_def Let_def clean Some option.case]
    show ?thesis
    proof (cases "releases v lease")
      case True
      then have "r = Inr ()" "mget (ms_sessions s') = (mget (ms_sessions s))(sid \<mapsto> closed_session now reason v)" "ms_byKey s' = ms_byKey s"
        using M by (auto simp: releases_def)
      then show ?thesis
        using True agrees_closed [OF A Some inv] L id by (simp add: close_record_def close_leases_def close_answer_def releases_def)
    next
      case False
      then have "q = r" "s' = s" using M L(1) by (auto simp: close_answer_def releases_def split: if_splits)
      then show ?thesis using False agrees_same [OF A Some] L(2) by (simp add: close_record_def close_leases_def)
    qed
  qed
qed

section \<open>Histories\<close>

lemma event_agrees:
  assumes A: "agrees sha T X s A" "tells_apart sha X" and e: "settled T X e" "new_ids A [e]"
    and run: "exec_event memory_ops e s = (r, s')" "exec_event (ledger_ops sha) e A = (q, B)"
  shows "q = stored_reply r" and "agrees sha T X s' B"
proof -
  have "q = stored_reply r \<and> agrees sha T X s' B"
  proof (cases e)
    case (EvCreate key c)
    have "mget (ms_sessions s) (s_ID c) = None" using e(2) agrees_found(1) [OF A(1)] by (simp add: EvCreate new_ids_def)
    from create_agrees [OF A e(1) [unfolded EvCreate] this] show ?thesis
      using run by (auto simp: EvCreate memory_ops_def ledger_ops_def apfst_def map_prod_def split: prod.splits)
  next
    case (EvGet key)
    then show ?thesis
      using run e(1) get_agrees [OF A(1), of key] A(1) mem_GetByKey_state [of key s]
      by (cases "mem_GetByKey key s") (auto simp: memory_ops_def ledger_ops_def apfst_def map_prod_def split: prod.splits)
  next
    case (EvClaim sid d now lim)
    from claim_agrees [OF A e(1) [unfolded EvClaim]] show ?thesis
      using run by (auto simp: EvClaim memory_ops_def ledger_ops_def apfst_def map_prod_def split: prod.splits)
  next
    case (EvClose sid lease reason now)
    then have "unix_milli now \<le> T" using e(1) by simp
    from close_agrees [OF A this] show ?thesis
      using run by (auto simp: EvClose memory_ops_def ledger_ops_def apfst_def map_prod_def split: prod.splits)
  qed
  then show "q = stored_reply r" "agrees sha T X s' B" by simp_all
qed

lemma agrees_ids: "agrees sha T X s A \<Longrightarrow> mget (lg_Sessions A) i = Some v \<Longrightarrow> s_ID v = i"
  using agrees_session(1) [of sha T X s A i v] by (simp add: agrees_found(1))

lemma history_agrees:
  assumes "agrees sha T X s A" and "tells_apart sha X" and "list_all (settled T X) es" and "new_ids A es"
  shows "fst (run_events (ledger_ops sha) es A) = map stored_reply (fst (run_events memory_ops es s))"
  using assms(1,3,4)
proof (induction es arbitrary: s A)
  case Nil
  then show ?case by simp
next
  case (Cons e es)
  note ids = new_ids_step(1) [OF agrees_ids [OF Cons.prems(1)] Cons.prems(3)]
    new_ids_step(2) [OF agrees_ids [OF Cons.prems(1)] Cons.prems(3), of sha]
  have e: "settled T X e" "list_all (settled T X) es" using Cons.prems(2) by simp_all
  obtain r s' where m: "exec_event memory_ops e s = (r, s')" by fastforce
  obtain q B where l: "exec_event (ledger_ops sha) e A = (q, B)" by fastforce
  note step = event_agrees [OF Cons.prems(1) assms(2) e(1) ids(1) m l]
  show ?case using step(1) Cons.IH [OF step(2) e(2)] ids(2) by (simp add: m l)
qed

lemma agrees_new_store: "agrees sha T X new_mem_store empty_ledger"
  using mem_inv_new by (simp add: agrees_def new_mem_store_def empty_ledger_def same_leases_def fun_eq_iff)

section \<open>Properties\<close>

text \<open>
  C12: the two implementations of the store are interchangeable while nothing expires. Let a history start
  on an empty memory store and on an empty Redis server that obeys the Redis laws, over a link that
  carries every request, and let no ticket's tombstone, session or lease created or claimed in it expire
  within it. If tickets expire on a millisecond, identifiers are new and SHA-256 tells the keys and the
  subjects of the history apart, every call of the history gets the same reply from both stores, errors
  included; the sessions Redis returns are those of the memory store as a hash holds them.
\<close>

theorem stores_agree:
  assumes "redis_server rd entry clock" and "\<And>n d. server_ticks entry clock d (lk_Before lk n d)"
    and "\<And>n d. lk_Fate lk n d = Delivered" and "\<And>k. entry d k = None"
    and "run_events (redis_ops rd sha lk) es d = (rs, d')" and "clock d' \<le> T"
    and "list_all (admissible T) es" and "list_all (settled T X) es" and "distinct (created_ids es)"
    and "tells_apart sha X"
  shows "rs = map stored_reply (fst (run_events memory_ops es new_mem_store))"
proof -
  have client: "redis_reliable rd entry clock lk"
    using assms(1-3) by (simp add: redis_reliable_def redis_reliable_axioms_def redis_client_def redis_client_axioms_def)
  have start: "tracks entry sha T empty_ledger d" by (rule tracks_empty) (rule assms(4))
  have ids: "new_ids empty_ledger es" using assms(9) by (simp add: new_ids_def empty_ledger_def)
  have "rs = fst (run_events (ledger_ops sha) es empty_ledger)"
    using redis_reliable.history_tracked [OF client assms(5) start assms(6,7) ids] by blast
  then show ?thesis using history_agrees [OF agrees_new_store assms(10,8) ids] by simp
qed

text \<open>A session is created, claimed, claimed again and closed, all in the first minute.\<close>

fun reply_ok :: "store_reply \<Rightarrow> bool" where
  "reply_ok (RCreate r) = (\<not> isl r)"
| "reply_ok (RGet r) = (\<not> isl r)"
| "reply_ok (RClaim r) = (\<not> isl r)"
| "reply_ok (RClose r) = (\<not> isl r)"

theorem stores_agree_witness:
  "fst (run_events (redis_ops table_redis test_sha (steady_link 50000)) life_events (empty_table 1000)) =
     map stored_reply (fst (run_events memory_ops life_events new_mem_store)) \<and>
   map reply_ok (fst (run_events memory_ops life_events new_mem_store)) = [True, True, False, True]"
proof -
  obtain rs d' where run: "run_events (redis_ops table_redis test_sha (steady_link 50000)) life_events (empty_table 1000) = (rs, d')"
    by fastforce
  have clock: "tb_Clock d' \<le> 50000" by (rule steady_clock [OF run]) (simp add: empty_table_def)
  have "storable life_session"
    using demo_record_storable by (simp add: life_session_def storable_def session_times_def)
  then have admissible: "list_all (admissible 50000) life_events"
    by (simp add: life_events_def life_session_def demo_record_def life_limits_def claim_stamps_def stamp_def unix_milli_def)
  let ?X = "{s_IdempotencyKey life_session, s_SubjectID life_session}"
  have settled: "list_all (settled 50000 ?X) life_events"
    by (simp add: life_events_def life_session_def demo_record_def life_limits_def settled_session_def unix_milli_def)
  have apart: "tells_apart test_sha ?X"
  proof -
    have "test_sha (str_bytes ''k1'') \<noteq> test_sha (str_bytes ''u'')" by code_simp
    then show ?thesis by (auto simp: tells_apart_def inj_on_def life_session_def demo_record_def)
  qed
  have ids: "distinct (created_ids life_events)" by (simp add: life_events_def)
  have "rs = map stored_reply (fst (run_events memory_ops life_events new_mem_store))"
    by (rule stores_agree [OF table.redis_server_axioms steady_link_facts(1,2) empty_table_entry run clock admissible settled ids apart])
  moreover have "map reply_ok (fst (run_events memory_ops life_events new_mem_store)) = [True, True, False, True]"
    by code_simp
  ultimately show ?thesis using run by simp
qed

section \<open>After the maximum duration\<close>

text \<open>
  Once a lease has expired the stores differ. The memory store closes the session by itself with the reason
  \<open>max_duration\<close>, and closing it again succeeds under any lease identifier; the Redis store only stops
  counting the lease, the record stays claimed, and a foreign lease identifier is refused.
\<close>

definition late_events :: "store_event list" where
  "late_events = [EvCreate ''k1'' life_session, EvClaim ''s1'' (replicate 32 2) 2000000000 life_limits,
     EvClose ''s1'' ''other'' ''normal'' 70000000000]"

lemma stores_differ_after_max_duration:
  "map reply_ok (fst (run_events memory_ops late_events new_mem_store)) = [True, True, True]"
  "map reply_ok (fst (run_events (redis_ops table_redis test_sha (steady_link 100000)) late_events (empty_table 1000))) =
     [True, True, False]"
proof -
  show "map reply_ok (fst (run_events memory_ops late_events new_mem_store)) = [True, True, True]" by code_simp
  obtain rs d' where run: "run_events (redis_ops table_redis test_sha (steady_link 100000)) late_events (empty_table 1000) = (rs, d')"
    by fastforce
  have start: "tracks table_entry test_sha 100000 empty_ledger (empty_table 1000)"
    by (rule tracks_empty) (rule empty_table_entry)
  have clock: "tb_Clock d' \<le> 100000" by (rule steady_clock [OF run]) (simp add: empty_table_def)
  have "storable life_session"
    using demo_record_storable by (simp add: life_session_def storable_def session_times_def)
  then have ok: "list_all (admissible 100000) late_events"
    by (simp add: late_events_def life_session_def demo_record_def life_limits_def claim_stamps_def stamp_def unix_milli_def)
  have ids: "new_ids empty_ledger late_events" by (simp add: new_ids_def late_events_def empty_ledger_def)
  have "rs = fst (run_events (ledger_ops test_sha) late_events empty_ledger)"
    using steady.history_tracked [OF run start clock ok ids] by blast
  then show "map reply_ok (fst (run_events (redis_ops table_redis test_sha (steady_link 100000)) late_events (empty_table 1000))) =
     [True, True, False]"
    using run
    by (simp add: late_events_def ledger_ops_def ledger_CreateOrGet_def ledger_ClaimAndReserve_def ledger_CloseAndRelease_def
        empty_ledger_def ledger_put_def ledger_leases_def claim_answer_def claim_record_def claim_leases_def close_answer_def
        life_session_def demo_record_def life_limits_def unix_milli_def unexpired_def claimed_session_def Let_def)
qed

end
