(* ===== verification/RuntimePipes.thy ===== *)
theory RuntimePipes
  imports Prelude
begin

text \<open>
  The pipes inside the runtime streams. \<open>pipe\<close> is \<open>io.Pipe\<close>: a write blocks until readers have taken all
  of it or an end is closed, and the first error each end is closed with stays. \<open>managed_step\<close> are the
  goroutines and methods of \<open>managedStream\<close> in \<open>internal/runtime/kubevirt/adapter.go\<close> around the provider's
  \<open>Stream\<close>, \<open>exec_pipe_step\<close> those of \<open>execStream\<close> in \<open>internal/runtime/kubernetes/exec.go\<close> around the
  executor's \<open>StreamWithContext\<close>.
\<close>

section \<open>io.Pipe\<close>

text \<open>\<open>pp_Offered\<close> and \<open>pp_Taken\<close> are the histories of the bytes given to \<open>Write\<close> and returned by \<open>Read\<close>.\<close>

record pipe =
  pp_Offered :: bytes
  pp_Pending :: "bytes option"
  pp_Taken :: bytes
  pp_WriteEnd :: "error option"
  pp_ReadEnd :: "error option"

definition new_pipe :: pipe where
  "new_pipe = \<lparr> pp_Offered = [], pp_Pending = None, pp_Taken = [], pp_WriteEnd = None, pp_ReadEnd = None \<rparr>"

definition pipe_done :: "pipe \<Rightarrow> bool" where
  "pipe_done p \<longleftrightarrow> pp_WriteEnd p \<noteq> None \<or> pp_ReadEnd p \<noteq> None"

definition pipe_read_error :: "pipe \<Rightarrow> error" where
  "pipe_read_error p =
     (case (pp_ReadEnd p, pp_WriteEnd p) of (None, Some e) \<Rightarrow> e | _ \<Rightarrow> Sentinel IoErrClosedPipe)"

definition pipe_write_error :: "pipe \<Rightarrow> error" where
  "pipe_write_error p =
     (case (pp_WriteEnd p, pp_ReadEnd p) of (None, Some e) \<Rightarrow> e | _ \<Rightarrow> Sentinel IoErrClosedPipe)"

text \<open>\<open>CloseWithError\<close> of either end; closing without an error is an end of file for the reader.\<close>

definition first_error :: "error \<Rightarrow> error option \<Rightarrow> error option" where
  "first_error e old = (if old = None then Some e else old)"

definition close_writer :: "error option \<Rightarrow> pipe \<Rightarrow> pipe" where
  "close_writer e p =
     p\<lparr> pp_WriteEnd := first_error (case e of None \<Rightarrow> Sentinel IoEOF | Some x \<Rightarrow> x) (pp_WriteEnd p) \<rparr>"

definition close_reader :: "error option \<Rightarrow> pipe \<Rightarrow> pipe" where
  "close_reader e p =
     p\<lparr> pp_ReadEnd := first_error (case e of None \<Rightarrow> Sentinel IoErrClosedPipe | Some x \<Rightarrow> x) (pp_ReadEnd p) \<rparr>"

text \<open>
  One step of a pipe: a write begins while none is in progress; a read takes up to \<open>n\<close> bytes of it, and
  the write returns when nothing is left of it; after a close a write in progress gives up.
\<close>

inductive pipe_step :: "pipe \<Rightarrow> pipe \<Rightarrow> bool" where
  offer: "\<not> pipe_done p \<Longrightarrow> pp_Pending p = None \<Longrightarrow>
    pipe_step p (p\<lparr> pp_Offered := pp_Offered p @ b, pp_Pending := Some b \<rparr>)"
| take_some: "pp_Pending p = Some b \<Longrightarrow>
    pipe_step p (p\<lparr> pp_Taken := pp_Taken p @ take n b,
      pp_Pending := (if drop n b = [] then None else Some (drop n b)) \<rparr>)"
| give_up: "pipe_done p \<Longrightarrow> pp_Pending p = Some b \<Longrightarrow> pipe_step p (p\<lparr> pp_Pending := None \<rparr>)"

inductive_cases pipe_stepE: "pipe_step p p'"

text \<open>What was taken is a prefix of what was offered; while the pipe is open the rest is the pending write.\<close>

definition pipe_inv :: "pipe \<Rightarrow> bool" where
  "pipe_inv p \<longleftrightarrow>
     (\<exists>lost. pp_Offered p = pp_Taken p @ lost \<and>
        (case pp_Pending p of Some b \<Rightarrow> lost = b | None \<Rightarrow> lost \<noteq> [] \<longrightarrow> pipe_done p))"

lemma pipe_inv_new [simp]: "pipe_inv new_pipe"
  by (simp add: pipe_inv_def new_pipe_def)

lemma pipe_step_ends [simp]:
  "pipe_step p p' \<Longrightarrow> pp_WriteEnd p' = pp_WriteEnd p" "pipe_step p p' \<Longrightarrow> pp_ReadEnd p' = pp_ReadEnd p"
  "pipe_step p p' \<Longrightarrow> pipe_done p' = pipe_done p"
  by (auto elim!: pipe_stepE simp: pipe_done_def)

lemma pipe_inv_step: "pipe_step p p' \<Longrightarrow> pipe_inv p \<Longrightarrow> pipe_inv p'"
  by (auto elim!: pipe_stepE simp: pipe_inv_def pipe_done_def)

lemma pipe_done_close [simp]: "pipe_done (close_writer e p)" "pipe_done (close_reader e p)"
  by (auto simp: pipe_done_def close_writer_def close_reader_def first_error_def)

lemma pipe_inv_close:
  "pipe_inv p \<Longrightarrow> pipe_inv (close_writer e p)" "pipe_inv p \<Longrightarrow> pipe_inv (close_reader e p)"
  using pipe_done_close [of e p]
  by (auto simp: pipe_inv_def close_writer_def close_reader_def split: option.splits)

lemma close_simps [simp]:
  "pp_Offered (close_writer e p) = pp_Offered p" "pp_Offered (close_reader e p) = pp_Offered p"
  "pp_Taken (close_writer e p) = pp_Taken p" "pp_Taken (close_reader e p) = pp_Taken p"
  "pp_Pending (close_writer e p) = pp_Pending p" "pp_Pending (close_reader e p) = pp_Pending p"
  "pp_ReadEnd (close_writer e p) = pp_ReadEnd p" "pp_WriteEnd (close_reader e p) = pp_WriteEnd p"
  by (simp_all add: close_writer_def close_reader_def)

lemma pipe_prefix: "pipe_inv p \<Longrightarrow> take (length (pp_Taken p)) (pp_Offered p) = pp_Taken p"
  by (auto simp: pipe_inv_def)

text \<open>Nothing is missing: everything offered was taken.\<close>

definition drained :: "pipe \<Rightarrow> bool" where
  "drained p \<longleftrightarrow> pp_Offered p = pp_Taken p"

lemma drained_open: "pipe_inv p \<Longrightarrow> \<not> pipe_done p \<Longrightarrow> pp_Pending p = None \<Longrightarrow> drained p"
  by (auto simp: pipe_inv_def drained_def)

lemma drained_step: "pipe_step p p' \<Longrightarrow> drained p \<Longrightarrow> pp_Pending p = None \<Longrightarrow> pipe_done p \<Longrightarrow> p' = p"
  by (auto elim: pipe_stepE)

section \<open>The stream of a virtual machine console\<close>

text \<open>The goroutine around \<open>provider.Stream\<close>, from the call to \<open>close(stream.done)\<close>.\<close>

datatype copier =
  CopierRunning | CopierReturned "error option" | CopierClosedOut "error option" | CopierClosedIn | CopierDone

text \<open>The body of \<open>Close\<close>, which \<open>once\<close> runs for the first caller only.\<close>

datatype closer = CloserIdle | CloserEntered | CloserClosedIn | CloserClosedOut | CloserDone

record managed =
  mg_In :: pipe
  mg_Out :: pipe
  mg_Copier :: copier
  mg_Closer :: closer
  mg_Watcher :: bool
  mg_Ctx :: bool
  mg_ConnCloses :: nat

definition new_managed :: managed where
  "new_managed =
     \<lparr> mg_In = new_pipe, mg_Out = new_pipe, mg_Copier = CopierRunning, mg_Closer = CloserIdle, mg_Watcher = True,
       mg_Ctx = False, mg_ConnCloses = 0 \<rparr>"

text \<open>
  The steps that clean up: the copier after \<open>Stream\<close> has returned, the watcher of the context, and
  \<open>Close\<close>.
\<close>

inductive managed_cleanup :: "managed \<Rightarrow> managed \<Rightarrow> bool" where
  copier_out: "mg_Copier m = CopierReturned e \<Longrightarrow>
    managed_cleanup m (m\<lparr> mg_Out := close_writer e (mg_Out m), mg_Copier := CopierClosedOut e \<rparr>)"
| copier_in: "mg_Copier m = CopierClosedOut e \<Longrightarrow>
    managed_cleanup m (m\<lparr> mg_In := close_reader e (mg_In m), mg_Copier := CopierClosedIn \<rparr>)"
| copier_done: "mg_Copier m = CopierClosedIn \<Longrightarrow> managed_cleanup m (m\<lparr> mg_Copier := CopierDone \<rparr>)"
| watcher_done: "mg_Watcher m \<Longrightarrow> mg_Copier m = CopierDone \<Longrightarrow> managed_cleanup m (m\<lparr> mg_Watcher := False \<rparr>)"
| watcher_close: "mg_Watcher m \<Longrightarrow> mg_Ctx m \<Longrightarrow>
    managed_cleanup m (m\<lparr> mg_Watcher := False,
      mg_Closer := (if mg_Closer m = CloserIdle then CloserEntered else mg_Closer m) \<rparr>)"
| close_stdin: "mg_Closer m = CloserEntered \<Longrightarrow>
    managed_cleanup m (m\<lparr> mg_In := close_writer None (mg_In m), mg_Closer := CloserClosedIn \<rparr>)"
| close_stdout: "mg_Closer m = CloserClosedIn \<Longrightarrow>
    managed_cleanup m (m\<lparr> mg_Out := close_reader None (mg_Out m), mg_Closer := CloserClosedOut \<rparr>)"
| close_conn: "mg_Closer m = CloserClosedOut \<Longrightarrow>
    managed_cleanup m (m\<lparr> mg_ConnCloses := Suc (mg_ConnCloses m), mg_Closer := CloserDone \<rparr>)"

text \<open>
  All steps: the pipes work, the context ends, the session calls \<open>Close\<close>, and the provider returns. A
  read of a closed pipe ends with \<open>pipe_read_error\<close> and changes nothing. What is assumed of \<open>Stream\<close>:
  it returns without an error when its output has ended, all of it written, or when its input has, which
  only \<open>Close\<close> brings about; and it passes on no end of file as an error, as \<open>io.Copy\<close> does not.
\<close>

definition stdin_ended :: "managed \<Rightarrow> bool" where
  "stdin_ended m \<longleftrightarrow> mg_Closer m \<notin> {CloserIdle, CloserEntered}"

inductive managed_step :: "managed \<Rightarrow> managed \<Rightarrow> bool" where
  cleanup: "managed_cleanup m m' \<Longrightarrow> managed_step m m'"
| stdin: "pipe_step (mg_In m) p \<Longrightarrow> managed_step m (m\<lparr> mg_In := p \<rparr>)"
| stdout: "pipe_step (mg_Out m) p \<Longrightarrow>
    pp_Offered p = pp_Offered (mg_Out m) \<or> mg_Copier m \<noteq> CopierReturned None \<or> stdin_ended m \<Longrightarrow>
    managed_step m (m\<lparr> mg_Out := p \<rparr>)"
| cancelled: "managed_step m (m\<lparr> mg_Ctx := True \<rparr>)"
| close_called: "mg_Closer m = CloserIdle \<Longrightarrow> managed_step m (m\<lparr> mg_Closer := CloserEntered \<rparr>)"
| provider_returns: "mg_Copier m = CopierRunning \<Longrightarrow> pp_Pending (mg_Out m) = None \<or> stdin_ended m \<Longrightarrow>
    managed_step m (m\<lparr> mg_Copier := CopierReturned None \<rparr>)"
| provider_fails: "mg_Copier m = CopierRunning \<Longrightarrow> e \<noteq> Sentinel IoEOF \<Longrightarrow>
    managed_step m (m\<lparr> mg_Copier := CopierReturned (Some e) \<rparr>)"

inductive_cases managed_cleanupE: "managed_cleanup m m'"
inductive_cases managed_stepE: "managed_step m m'"

abbreviation managed_reach :: "managed \<Rightarrow> bool" where
  "managed_reach \<equiv> managed_step\<^sup>*\<^sup>* new_managed"

text \<open>
  The stages are visible in the pipes: each end is closed exactly when the copier or \<open>Close\<close> has come
  past it, and the connection is closed once, at the end of \<open>Close\<close>.
\<close>

definition managed_inv :: "managed \<Rightarrow> bool" where
  "managed_inv m \<longleftrightarrow>
     pipe_inv (mg_In m) \<and> pipe_inv (mg_Out m) \<and>
     (pp_WriteEnd (mg_Out m) \<noteq> None \<longleftrightarrow> (\<forall>e. mg_Copier m \<notin> {CopierRunning, CopierReturned e})) \<and>
     (pp_ReadEnd (mg_In m) \<noteq> None \<longleftrightarrow> mg_Copier m \<in> {CopierClosedIn, CopierDone}) \<and>
     (pp_ReadEnd (mg_Out m) \<noteq> None \<longleftrightarrow> mg_Closer m \<in> {CloserClosedOut, CloserDone}) \<and>
     (pp_WriteEnd (mg_In m) \<noteq> None \<longleftrightarrow> stdin_ended m) \<and>
     mg_ConnCloses m = (if mg_Closer m = CloserDone then 1 else 0) \<and>
     (\<not> mg_Watcher m \<longrightarrow> mg_Copier m = CopierDone \<or> mg_Closer m \<noteq> CloserIdle)"

text \<open>While stdin has not ended, a normal return of the provider means that all output was read.\<close>

definition managed_complete :: "managed \<Rightarrow> bool" where
  "managed_complete m \<longleftrightarrow>
     mg_Copier m \<noteq> CopierReturned (Some (Sentinel IoEOF)) \<and>
     (\<not> stdin_ended m \<and> (mg_Copier m = CopierReturned None \<or> pp_WriteEnd (mg_Out m) = Some (Sentinel IoEOF)) \<longrightarrow>
        pp_Pending (mg_Out m) \<in> {None, Some []} \<and> drained (mg_Out m))"

lemma managed_new [simp]: "managed_inv new_managed" "managed_complete new_managed"
  by (simp_all add: managed_inv_def managed_complete_def new_managed_def stdin_ended_def new_pipe_def pipe_inv_def)

lemma close_writer_end [simp]:
  "pp_WriteEnd (close_writer e p) \<noteq> None" "pp_ReadEnd (close_reader e p) \<noteq> None"
  by (simp_all add: close_writer_def close_reader_def first_error_def)

lemma managed_inv_cleanup: "managed_cleanup m m' \<Longrightarrow> managed_inv m \<Longrightarrow> managed_inv m'"
  by (erule managed_cleanupE) (auto simp: managed_inv_def stdin_ended_def pipe_inv_close split: if_splits)

lemma managed_inv_step: "managed_step m m' \<Longrightarrow> managed_inv m \<Longrightarrow> managed_inv m'"
proof (erule managed_stepE, goal_cases)
  case 1
  then show ?case by (simp add: managed_inv_cleanup)
qed (auto simp: managed_inv_def stdin_ended_def pipe_inv_step)

lemma close_writer_eof:
  "pp_WriteEnd p = None \<Longrightarrow>
     pp_WriteEnd (close_writer e p) = Some (Sentinel IoEOF) \<longleftrightarrow> e = None \<or> e = Some (Sentinel IoEOF)"
  by (auto simp: close_writer_def first_error_def split: option.split)

lemma drained_close [simp]: "drained (close_writer e p) = drained p" "drained (close_reader e p) = drained p"
  by (simp_all add: drained_def)

lemma managed_complete_cleanup:
  "managed_cleanup m m' \<Longrightarrow> managed_inv m \<Longrightarrow> managed_complete m \<Longrightarrow> managed_complete m'"
  by (erule managed_cleanupE)
    (auto simp: managed_inv_def managed_complete_def stdin_ended_def close_writer_eof split: if_splits)

lemma managed_complete_stdout:
  assumes "pipe_step (mg_Out m) p" and "managed_inv m" and "managed_complete m"
    and "pp_Offered p = pp_Offered (mg_Out m) \<or> mg_Copier m \<noteq> CopierReturned None \<or> stdin_ended m"
  shows "managed_complete (m\<lparr> mg_Out := p \<rparr>)"
  using assms by (auto elim!: pipe_stepE simp: managed_complete_def stdin_ended_def drained_def pipe_done_def)

lemma managed_complete_step:
  "managed_step m m' \<Longrightarrow> managed_inv m \<Longrightarrow> managed_complete m \<Longrightarrow> managed_complete m'"
proof (erule managed_stepE, goal_cases)
  case 1
  then show ?case by (simp add: managed_complete_cleanup)
next
  case (3 p)
  then show ?case by (simp add: managed_complete_stdout)
next
  case 6
  then show ?case
    by (auto simp: managed_complete_def managed_inv_def stdin_ended_def pipe_inv_def drained_def pipe_done_def
        split: option.splits)
qed (auto simp: managed_complete_def managed_inv_def stdin_ended_def)

lemma managed_reach_inv: "managed_reach m \<Longrightarrow> managed_inv m \<and> managed_complete m"
  by (induction rule: rtranclp_induct) (auto dest: managed_inv_step managed_complete_step)

lemma managed_eof_complete:
  assumes "managed_reach m" and "\<not> stdin_ended m" and "pipe_done (mg_Out m)"
    and "pipe_read_error (mg_Out m) = Sentinel IoEOF"
  shows "pp_Taken (mg_Out m) = pp_Offered (mg_Out m)"
proof -
  note inv = managed_reach_inv [OF assms(1)]
  have "pp_ReadEnd (mg_Out m) = None"
    using inv assms(2) by (auto simp: managed_inv_def stdin_ended_def)
  with assms(3,4) have "pp_WriteEnd (mg_Out m) = Some (Sentinel IoEOF)"
    by (auto simp: pipe_done_def pipe_read_error_def)
  with inv assms(2) show ?thesis by (simp add: managed_complete_def drained_def)
qed

text \<open>
  \<open>disposeProviderStream\<close>: the connection is closed when there is one, and the stream is run once with an
  empty input and its output thrown away, so that the provider's own goroutines can end.
\<close>

record provider_stream =
  ps_HasConn :: bool
  ps_ConnCloses :: nat
  ps_Drains :: nat

definition dispose_provider_stream :: "provider_stream \<Rightarrow> provider_stream" where
  "dispose_provider_stream p =
     (let p' = (if ps_HasConn p then p\<lparr> ps_ConnCloses := Suc (ps_ConnCloses p) \<rparr> else p)
      in p'\<lparr> ps_Drains := Suc (ps_Drains p') \<rparr>)"

section \<open>The stream of an exec session\<close>

text \<open>The goroutine around the executor, and the body of \<open>terminate\<close>, which \<open>terminateOnce\<close> runs once.\<close>

datatype runner =
  RunnerExecuting | RunnerReturned | RunnerTerminating | RunnerTerminated | RunnerClosedOut | RunnerClosedErr
  | RunnerDone

datatype terminator = TermIdle | TermEntered | TermCancelled | TermClosedWriter | TermDone

record exec_pipes =
  ep_Stdin :: pipe
  ep_Stdout :: pipe
  ep_Stderr :: pipe
  ep_Runner :: runner
  ep_Term :: terminator
  ep_Cancelled :: bool
  ep_Orderly :: bool
  ep_Result :: "(int \<times> error option) option"

definition new_exec_pipes :: exec_pipes where
  "new_exec_pipes =
     \<lparr> ep_Stdin = new_pipe, ep_Stdout = new_pipe, ep_Stderr = new_pipe, ep_Runner = RunnerExecuting,
       ep_Term = TermIdle, ep_Cancelled = False, ep_Orderly = False, ep_Result = None \<rparr>"

inductive exec_cleanup :: "exec_pipes \<Rightarrow> exec_pipes \<Rightarrow> bool" where
  run_terminate: "ep_Runner s = RunnerReturned \<Longrightarrow>
    exec_cleanup s (s\<lparr> ep_Runner := RunnerTerminating,
      ep_Term := (if ep_Term s = TermIdle then TermEntered else ep_Term s) \<rparr>)"
| term_cancel: "ep_Term s = TermEntered \<Longrightarrow> exec_cleanup s (s\<lparr> ep_Cancelled := True, ep_Term := TermCancelled \<rparr>)"
| term_writer: "ep_Term s = TermCancelled \<Longrightarrow>
    exec_cleanup s (s\<lparr> ep_Stdin := close_writer None (ep_Stdin s), ep_Term := TermClosedWriter \<rparr>)"
| term_reader: "ep_Term s = TermClosedWriter \<Longrightarrow>
    exec_cleanup s (s\<lparr> ep_Stdin := close_reader None (ep_Stdin s), ep_Term := TermDone \<rparr>)"
| run_terminated: "ep_Runner s = RunnerTerminating \<Longrightarrow> ep_Term s = TermDone \<Longrightarrow>
    exec_cleanup s (s\<lparr> ep_Runner := RunnerTerminated \<rparr>)"
| run_stdout: "ep_Runner s = RunnerTerminated \<Longrightarrow>
    exec_cleanup s (s\<lparr> ep_Stdout := close_writer None (ep_Stdout s), ep_Runner := RunnerClosedOut \<rparr>)"
| run_stderr: "ep_Runner s = RunnerClosedOut \<Longrightarrow>
    exec_cleanup s (s\<lparr> ep_Stderr := close_writer None (ep_Stderr s), ep_Runner := RunnerClosedErr \<rparr>)"
| run_done: "ep_Runner s = RunnerClosedErr \<Longrightarrow> exec_cleanup s (s\<lparr> ep_Runner := RunnerDone \<rparr>)"

text \<open>
  All steps. What is assumed of \<open>StreamWithContext\<close>: before its context ends it returns only when what it
  wrote was read, and it does not write after that; \<open>ep_Orderly\<close> remembers such a return. The result is
  set when it returns, the exit status of a command being no error.
\<close>

inductive exec_pipe_step :: "exec_pipes \<Rightarrow> exec_pipes \<Rightarrow> bool" where
  cleanup: "exec_cleanup s s' \<Longrightarrow> exec_pipe_step s s'"
| stdin: "pipe_step (ep_Stdin s) p \<Longrightarrow> exec_pipe_step s (s\<lparr> ep_Stdin := p \<rparr>)"
| stdout: "pipe_step (ep_Stdout s) p \<Longrightarrow> pp_Offered p = pp_Offered (ep_Stdout s) \<or> \<not> ep_Orderly s \<Longrightarrow>
    exec_pipe_step s (s\<lparr> ep_Stdout := p \<rparr>)"
| stderr: "pipe_step (ep_Stderr s) p \<Longrightarrow> pp_Offered p = pp_Offered (ep_Stderr s) \<or> \<not> ep_Orderly s \<Longrightarrow>
    exec_pipe_step s (s\<lparr> ep_Stderr := p \<rparr>)"
| cancelled: "exec_pipe_step s (s\<lparr> ep_Cancelled := True \<rparr>)"
| close_called: "ep_Term s = TermIdle \<Longrightarrow> exec_pipe_step s (s\<lparr> ep_Term := TermEntered \<rparr>)"
| executor_returns: "ep_Runner s = RunnerExecuting \<Longrightarrow>
    ep_Cancelled s \<or> pp_Pending (ep_Stdout s) = None \<and> pp_Pending (ep_Stderr s) = None \<Longrightarrow>
    exec_pipe_step s (s\<lparr> ep_Runner := RunnerReturned, ep_Orderly := \<not> ep_Cancelled s, ep_Result := Some r \<rparr>)"

inductive_cases exec_cleanupE: "exec_cleanup s s'"
inductive_cases exec_pipe_stepE: "exec_pipe_step s s'"

abbreviation exec_pipes_reach :: "exec_pipes \<Rightarrow> bool" where
  "exec_pipes_reach \<equiv> exec_pipe_step\<^sup>*\<^sup>* new_exec_pipes"

definition written_out :: "pipe \<Rightarrow> bool" where
  "written_out p \<longleftrightarrow> pp_Pending p \<in> {None, Some []} \<and> drained p"

definition exec_pipes_inv :: "exec_pipes \<Rightarrow> bool" where
  "exec_pipes_inv s \<longleftrightarrow>
     pipe_inv (ep_Stdin s) \<and> pipe_inv (ep_Stdout s) \<and> pipe_inv (ep_Stderr s) \<and>
     pp_ReadEnd (ep_Stdout s) = None \<and> pp_ReadEnd (ep_Stderr s) = None \<and>
     pp_WriteEnd (ep_Stdout s) =
       (if ep_Runner s \<in> {RunnerClosedOut, RunnerClosedErr, RunnerDone} then Some (Sentinel IoEOF) else None) \<and>
     pp_WriteEnd (ep_Stderr s) =
       (if ep_Runner s \<in> {RunnerClosedErr, RunnerDone} then Some (Sentinel IoEOF) else None) \<and>
     (pp_WriteEnd (ep_Stdin s) \<noteq> None \<longleftrightarrow> ep_Term s \<in> {TermClosedWriter, TermDone}) \<and>
     (pp_ReadEnd (ep_Stdin s) \<noteq> None \<longleftrightarrow> ep_Term s = TermDone) \<and>
     (ep_Term s \<in> {TermCancelled, TermClosedWriter, TermDone} \<longrightarrow> ep_Cancelled s) \<and>
     (ep_Runner s = RunnerTerminating \<longrightarrow> ep_Term s \<noteq> TermIdle) \<and>
     (ep_Runner s \<in> {RunnerTerminated, RunnerClosedOut, RunnerClosedErr, RunnerDone} \<longrightarrow> ep_Term s = TermDone) \<and>
     (ep_Result s = None \<longleftrightarrow> ep_Runner s = RunnerExecuting) \<and>
     (ep_Runner s = RunnerExecuting \<longrightarrow> \<not> ep_Orderly s) \<and>
     (ep_Orderly s \<longrightarrow> written_out (ep_Stdout s) \<and> written_out (ep_Stderr s))"

lemma exec_pipes_inv_new [simp]: "exec_pipes_inv new_exec_pipes"
  by (simp add: exec_pipes_inv_def new_exec_pipes_def) (simp add: new_pipe_def)

lemma written_out_close [simp]: "written_out (close_writer e p) = written_out p"
  by (simp add: written_out_def)

lemma written_out_step:
  "pipe_step p p' \<Longrightarrow> written_out p \<Longrightarrow> pp_Offered p' = pp_Offered p \<Longrightarrow> written_out p'"
  by (auto elim!: pipe_stepE simp: written_out_def drained_def)

lemma written_out_open: "pipe_inv p \<Longrightarrow> \<not> pipe_done p \<Longrightarrow> pp_Pending p = None \<Longrightarrow> written_out p"
  by (simp add: written_out_def drained_open)

lemma close_writer_eof_first: "pp_WriteEnd p = None \<Longrightarrow> pp_WriteEnd (close_writer None p) = Some (Sentinel IoEOF)"
  by (simp add: close_writer_eof)

lemma exec_pipes_inv_cleanup: "exec_cleanup s s' \<Longrightarrow> exec_pipes_inv s \<Longrightarrow> exec_pipes_inv s'"
  by (erule exec_cleanupE) (auto simp: exec_pipes_inv_def pipe_inv_close close_writer_eof_first split: if_splits)

lemma exec_pipes_inv_step: "exec_pipe_step s s' \<Longrightarrow> exec_pipes_inv s \<Longrightarrow> exec_pipes_inv s'"
proof (erule exec_pipe_stepE, goal_cases)
  case 1
  then show ?case by (simp add: exec_pipes_inv_cleanup)
next
  case (3 p)
  then show ?case using written_out_step [of "ep_Stdout s" p] by (auto simp: exec_pipes_inv_def pipe_inv_step)
next
  case (4 p)
  then show ?case using written_out_step [of "ep_Stderr s" p] by (auto simp: exec_pipes_inv_def pipe_inv_step)
next
  case (7 r)
  then show ?case
    using written_out_open [of "ep_Stdout s"] written_out_open [of "ep_Stderr s"]
    by (auto simp: exec_pipes_inv_def pipe_done_def)
qed (auto simp: exec_pipes_inv_def pipe_inv_step)

lemma exec_pipes_reach_inv: "exec_pipes_reach s \<Longrightarrow> exec_pipes_inv s"
  by (induction rule: rtranclp_induct) (auto dest: exec_pipes_inv_step)

section \<open>Clean-up ends\<close>

fun copier_rank :: "copier \<Rightarrow> nat" where
  "copier_rank CopierRunning = 4"
| "copier_rank (CopierReturned _) = 3"
| "copier_rank (CopierClosedOut _) = 2"
| "copier_rank CopierClosedIn = 1"
| "copier_rank CopierDone = 0"

fun closer_rank :: "closer \<Rightarrow> nat" where
  "closer_rank CloserIdle = 4"
| "closer_rank CloserEntered = 3"
| "closer_rank CloserClosedIn = 2"
| "closer_rank CloserClosedOut = 1"
| "closer_rank CloserDone = 0"

definition managed_rank :: "managed \<Rightarrow> nat" where
  "managed_rank m = copier_rank (mg_Copier m) + closer_rank (mg_Closer m) + (if mg_Watcher m then 1 else 0)"

lemma managed_cleanup_rank: "managed_cleanup m m' \<Longrightarrow> managed_rank m' < managed_rank m"
  by (erule managed_cleanupE) (auto simp: managed_rank_def)

lemma managed_cleanup_wf: "wf {(m', m). managed_cleanup m m'}"
  by (rule wf_subset [OF wf_measure [of managed_rank]]) (auto simp: managed_cleanup_rank)

text \<open>Where no clean-up step is left after a close, nothing is left to clean up.\<close>

lemma managed_stuck_clean:
  assumes "managed_inv m" and "\<forall>m'. \<not> managed_cleanup m m'" and "mg_Copier m \<noteq> CopierRunning"
    and "mg_Closer m \<noteq> CloserIdle \<or> mg_Watcher m \<and> mg_Ctx m"
  shows "mg_Copier m = CopierDone \<and> mg_Closer m = CloserDone \<and> \<not> mg_Watcher m \<and> mg_ConnCloses m = 1 \<and>
    pipe_done (mg_In m) \<and> pipe_done (mg_Out m)"
proof -
  have c: "mg_Copier m = CopierDone"
    using assms(2,3) managed_cleanup.intros(1,2,3) by (cases "mg_Copier m") blast+
  have w: "\<not> mg_Watcher m" using assms(2) managed_cleanup.watcher_done [OF _ c] by blast
  with assms(4) have "mg_Closer m \<noteq> CloserIdle" by simp
  with assms(2) have "mg_Closer m = CloserDone"
    using managed_cleanup.intros(6,7,8) by (cases "mg_Closer m") blast+
  with c w assms(1) show ?thesis by (auto simp: managed_inv_def pipe_done_def stdin_ended_def)
qed

fun runner_rank :: "runner \<Rightarrow> nat" where
  "runner_rank RunnerExecuting = 6"
| "runner_rank RunnerReturned = 5"
| "runner_rank RunnerTerminating = 4"
| "runner_rank RunnerTerminated = 3"
| "runner_rank RunnerClosedOut = 2"
| "runner_rank RunnerClosedErr = 1"
| "runner_rank RunnerDone = 0"

fun terminator_rank :: "terminator \<Rightarrow> nat" where
  "terminator_rank TermIdle = 4"
| "terminator_rank TermEntered = 3"
| "terminator_rank TermCancelled = 2"
| "terminator_rank TermClosedWriter = 1"
| "terminator_rank TermDone = 0"

definition exec_rank :: "exec_pipes \<Rightarrow> nat" where
  "exec_rank s = runner_rank (ep_Runner s) + terminator_rank (ep_Term s)"

lemma exec_cleanup_rank: "exec_cleanup s s' \<Longrightarrow> exec_rank s' < exec_rank s"
  by (erule exec_cleanupE) (auto simp: exec_rank_def)

lemma exec_cleanup_wf: "wf {(s', s). exec_cleanup s s'}"
  by (rule wf_subset [OF wf_measure [of exec_rank]]) (auto simp: exec_cleanup_rank)

lemma exec_stuck_clean:
  assumes "exec_pipes_inv s" and "\<forall>s'. \<not> exec_cleanup s s'" and "ep_Runner s \<noteq> RunnerExecuting"
  shows "ep_Runner s = RunnerDone \<and> ep_Term s = TermDone \<and> ep_Cancelled s \<and> ep_Result s \<noteq> None \<and>
    pipe_done (ep_Stdin s) \<and> pipe_done (ep_Stdout s) \<and> pipe_done (ep_Stderr s)"
proof -
  have t: "ep_Term s = TermIdle \<or> ep_Term s = TermDone"
    using assms(2) exec_cleanup.intros(2,3,4) by (cases "ep_Term s") blast+
  have "ep_Runner s = RunnerDone"
  proof (cases "ep_Runner s")
    case RunnerTerminating
    then have "ep_Term s = TermDone" using t assms(1) by (simp add: exec_pipes_inv_def)
    with RunnerTerminating show ?thesis using assms(2) exec_cleanup.run_terminated by blast
  qed (use assms(2,3) exec_cleanup.intros(1,6,7,8) in blast)+
  with assms(1) show ?thesis by (auto simp: exec_pipes_inv_def pipe_done_def)
qed

text \<open>From every state a clean-up runs to a state where none of its steps is left.\<close>

lemma wf_runs_out:
  assumes "wf {(y, x). R x y}"
  shows "\<exists>y. R\<^sup>*\<^sup>* x y \<and> (\<forall>z. \<not> R y z)"
  using assms
proof (induction x rule: wf_induct_rule)
  case (less x)
  show ?case
  proof (cases "\<exists>z. R x z")
    case True
    then obtain z where z: "R x z" by blast
    with less obtain y where "R\<^sup>*\<^sup>* z y" "\<forall>w. \<not> R y w" by blast
    with z show ?thesis by (meson converse_rtranclp_into_rtranclp)
  qed blast
qed

lemma managed_cleanup_keeps:
  "managed_cleanup\<^sup>*\<^sup>* m m' \<Longrightarrow> mg_Copier m \<noteq> CopierRunning \<and> mg_Closer m \<noteq> CloserIdle \<and> managed_reach m \<Longrightarrow>
     mg_Copier m' \<noteq> CopierRunning \<and> mg_Closer m' \<noteq> CloserIdle \<and> managed_reach m'"
proof (induction rule: rtranclp_induct)
  case (step m1 m2)
  moreover have "managed_step m1 m2" using step.hyps(2) by (rule managed_step.cleanup)
  ultimately show ?case
    using rtranclp.rtrancl_into_rtrancl [of managed_step new_managed m1 m2] by (auto elim: managed_cleanupE)
qed simp

lemma exec_cleanup_keeps:
  "exec_cleanup\<^sup>*\<^sup>* s s' \<Longrightarrow> ep_Runner s \<noteq> RunnerExecuting \<and> exec_pipes_reach s \<Longrightarrow>
     ep_Runner s' \<noteq> RunnerExecuting \<and> exec_pipes_reach s'"
proof (induction rule: rtranclp_induct)
  case (step s1 s2)
  moreover have "exec_pipe_step s1 s2" using step.hyps(2) by (rule exec_pipe_step.cleanup)
  ultimately show ?case
    using rtranclp.rtrancl_into_rtrancl [of exec_pipe_step new_exec_pipes s1 s2] by (auto elim: exec_cleanupE)
qed simp

section \<open>A stream that ends\<close>

definition told_pipe :: "error option \<Rightarrow> pipe" where
  "told_pipe e = \<lparr> pp_Offered = [104, 105], pp_Pending = None, pp_Taken = [104, 105], pp_WriteEnd = e, pp_ReadEnd = None \<rparr>"

lemma told_pipe_reached: "pipe_step\<^sup>*\<^sup>* new_pipe (told_pipe None)"
proof -
  let ?p = "new_pipe\<lparr> pp_Offered := [104, 105], pp_Pending := Some [104, 105] \<rparr>"
  have "pipe_step new_pipe ?p"
    using pipe_step.offer [of new_pipe "[104, 105]"] by (simp add: new_pipe_def pipe_done_def)
  moreover have "pipe_step ?p (told_pipe None)"
    using pipe_step.take_some [of ?p "[104, 105]" 2] by (simp add: told_pipe_def new_pipe_def)
  ultimately show ?thesis by (meson converse_rtranclp_into_rtranclp r_into_rtranclp)
qed

lemma managed_stdout_run:
  "pipe_step\<^sup>*\<^sup>* (mg_Out m) p \<Longrightarrow> mg_Copier m \<noteq> CopierReturned None \<Longrightarrow> managed_step\<^sup>*\<^sup>* m (m\<lparr> mg_Out := p \<rparr>)"
proof (induction rule: rtranclp_induct)
  case (step p q)
  then have "managed_step (m\<lparr> mg_Out := p \<rparr>) ((m\<lparr> mg_Out := p \<rparr>)\<lparr> mg_Out := q \<rparr>)"
    by (intro managed_step.stdout) simp_all
  with step show ?case by (simp add: rtranclp.rtrancl_into_rtrancl)
qed simp

lemma exec_stdout_run:
  "pipe_step\<^sup>*\<^sup>* (ep_Stdout s) p \<Longrightarrow> \<not> ep_Orderly s \<Longrightarrow> exec_pipe_step\<^sup>*\<^sup>* s (s\<lparr> ep_Stdout := p \<rparr>)"
proof (induction rule: rtranclp_induct)
  case (step p q)
  then have "exec_pipe_step (s\<lparr> ep_Stdout := p \<rparr>) ((s\<lparr> ep_Stdout := p \<rparr>)\<lparr> ep_Stdout := q \<rparr>)"
    by (intro exec_pipe_step.stdout) simp_all
  with step show ?case by (simp add: rtranclp.rtrancl_into_rtrancl)
qed simp

definition told_managed :: managed where
  "told_managed = new_managed\<lparr> mg_Out := told_pipe (Some (Sentinel IoEOF)), mg_Copier := CopierClosedOut None \<rparr>"

lemma told_managed_reached: "managed_reach told_managed"
proof -
  let ?m = "new_managed\<lparr> mg_Out := told_pipe None \<rparr>"
  have "managed_reach ?m"
    by (rule managed_stdout_run) (simp_all add: new_managed_def told_pipe_reached)
  also have "managed_step ?m (?m\<lparr> mg_Copier := CopierReturned None \<rparr>)"
    by (rule managed_step.provider_returns) (simp_all add: new_managed_def told_pipe_def)
  also have "managed_step (?m\<lparr> mg_Copier := CopierReturned None \<rparr>) told_managed"
    using managed_step.cleanup [OF managed_cleanup.copier_out [of "?m\<lparr> mg_Copier := CopierReturned None \<rparr>" None]]
    by (simp add: told_managed_def told_pipe_def close_writer_def first_error_def)
  finally show ?thesis .
qed

definition told_exec :: exec_pipes where
  "told_exec = new_exec_pipes\<lparr> ep_Stdout := told_pipe None, ep_Runner := RunnerReturned, ep_Orderly := True,
     ep_Result := Some (0, None) \<rparr>"

lemma told_exec_reached: "exec_pipes_reach told_exec"
proof -
  let ?s = "new_exec_pipes\<lparr> ep_Stdout := told_pipe None \<rparr>"
  have "exec_pipes_reach ?s"
    by (rule exec_stdout_run) (simp_all add: new_exec_pipes_def told_pipe_reached)
  also have "exec_pipe_step ?s told_exec"
    using exec_pipe_step.executor_returns [of ?s "(0, None)"]
    by (simp add: told_exec_def new_exec_pipes_def told_pipe_def new_pipe_def)
  finally show ?thesis .
qed

section \<open>Properties\<close>



text \<open>
  C27: a runtime stream cleans up and ends. The clean-up steps of both streams are well-founded, so they
  stop after finitely many, however they interleave. Where none is left and the provider or the executor
  has returned, nothing is open: for a console that was closed both goroutines have ended, the pipes are
  closed and the connection was closed exactly once; for an exec stream the context is cancelled, the
  pipes are closed and the result for \<open>Wait\<close> is there.
\<close>

theorem runtime_cleanup_terminates:
  assumes "managed_reach m" and "\<forall>m'. \<not> managed_cleanup m m'" and "mg_Copier m \<noteq> CopierRunning"
    and "mg_Closer m \<noteq> CloserIdle"
    and "exec_pipes_reach s" and "\<forall>s'. \<not> exec_cleanup s s'" and "ep_Runner s \<noteq> RunnerExecuting"
  shows "wf {(m', m). managed_cleanup m m'} \<and> wf {(s', s). exec_cleanup s s'} \<and>
    mg_Copier m = CopierDone \<and> mg_Closer m = CloserDone \<and> \<not> mg_Watcher m \<and> mg_ConnCloses m = 1 \<and>
    pipe_done (mg_In m) \<and> pipe_done (mg_Out m) \<and>
    ep_Runner s = RunnerDone \<and> ep_Cancelled s \<and> ep_Result s \<noteq> None \<and>
    pipe_done (ep_Stdin s) \<and> pipe_done (ep_Stdout s) \<and> pipe_done (ep_Stderr s)"
  using managed_stuck_clean [OF _ assms(2,3)] assms(4) managed_reach_inv [OF assms(1)]
    exec_stuck_clean [OF exec_pipes_reach_inv [OF assms(5)] assms(6,7)]
    managed_cleanup_wf exec_cleanup_wf by blast

theorem runtime_cleanup_terminates_witness:
  "\<exists>m s. managed_reach m \<and> mg_ConnCloses m = 1 \<and> exec_pipes_reach s \<and> ep_Result s \<noteq> None \<and> pipe_done (ep_Stdout s)"
proof -
  let ?m = "told_managed\<lparr> mg_Closer := CloserEntered \<rparr>"
  have "managed_reach ?m"
    using told_managed_reached managed_step.close_called [of told_managed]
    by (simp add: told_managed_def new_managed_def rtranclp.rtrancl_into_rtrancl)
  then have start: "mg_Copier ?m \<noteq> CopierRunning \<and> mg_Closer ?m \<noteq> CloserIdle \<and> managed_reach ?m"
    by (simp add: told_managed_def)
  obtain m where m: "managed_cleanup\<^sup>*\<^sup>* ?m m" "\<forall>m'. \<not> managed_cleanup m m'"
    using wf_runs_out [OF managed_cleanup_wf] by blast
  obtain s where s: "exec_cleanup\<^sup>*\<^sup>* told_exec s" "\<forall>s'. \<not> exec_cleanup s s'"
    using wf_runs_out [OF exec_cleanup_wf] by blast
  have "ep_Runner told_exec \<noteq> RunnerExecuting \<and> exec_pipes_reach told_exec"
    using told_exec_reached by (simp add: told_exec_def)
  from exec_cleanup_keeps [OF s(1) this] managed_cleanup_keeps [OF m(1) start] m(2) s(2)
    runtime_cleanup_terminates [of m s] show ?thesis by blast
qed

end
