(* ===== verification/ExecCarry.thy ===== *)
theory ExecCarry
  imports ConnectedSession
begin

text \<open>
  \<open>carryExecStream\<close> of \<open>connectedsession/exec.go\<close>: five kinds of goroutines (the socket writer, the
  socket reader, the input pump, one reader per output stream, the waiter for the exit) and the main
  select loop, over bounded channels. Each rule of \<open>carry_step\<close> is one atomic action of one of them; a
  select with several ready cases may take any of them, so any interleaving is a path. The idle and
  maximum timers may fire at any moment of the main loop; the activity signal only moves that moment
  and has no rule of its own.

  The last fields of \<open>carry\<close> record the history: the output chunks read from the runtime, whether a
  chunk was discarded, the frames written to the socket, and the client frames accepted from the
  socket and delivered to the runtime.
\<close>

datatype carry_main = MainLoop | MainAwaitAck | MainDecided outcome

record carry =
  cy_Ctx :: bool
  cy_Outcomes :: "outcome option"
  cy_Completed :: "(int \<times> error option) option"
  cy_Inputs :: "client_frame list"
  cy_Outbound :: "(server_frame \<times> bool) list"
  cy_Ack :: "close_status option option"
  cy_Writer :: bool
  cy_Reader :: bool
  cy_Input :: bool
  cy_Outputs :: "string list"
  cy_Waiter :: bool
  cy_Main :: carry_main
  cy_BytesIn :: "64 word"
  cy_BytesOut :: "64 word"
  cy_Read :: "(string \<times> string) list"
  cy_Dropped :: bool
  cy_Sent :: "server_frame list"
  cy_Accepted :: "client_frame list"
  cy_Delivered :: "client_frame list"

definition new_carry :: "bool \<Rightarrow> carry" where
  "new_carry tty =
     \<lparr> cy_Ctx = False, cy_Outcomes = None, cy_Completed = None, cy_Inputs = [], cy_Outbound = [],
       cy_Ack = None, cy_Writer = True, cy_Reader = True, cy_Input = True,
       cy_Outputs = (if tty then [''stdout''] else [''stdout'', ''stderr'']), cy_Waiter = True,
       cy_Main = MainLoop, cy_BytesIn = 0, cy_BytesOut = 0, cy_Read = [], cy_Dropped = False,
       cy_Sent = [], cy_Accepted = [], cy_Delivered = [] \<rparr>"

text \<open>\<open>signalOutcome\<close>: the channel keeps the first outcome.\<close>

definition signal_outcome :: "outcome \<Rightarrow> carry \<Rightarrow> carry" where
  "signal_outcome oc s =
     (case cy_Outcomes s of None \<Rightarrow> s\<lparr> cy_Outcomes := Some oc \<rparr> | Some _ \<Rightarrow> s)"

fun output_length :: "server_frame \<Rightarrow> nat" where
  "output_length (FrameOutput kind data) = length data"
| "output_length _ = 0"

definition stdin_length :: "client_frame \<Rightarrow> nat" where
  "stdin_length f = (if cf_Type f = ''stdin'' then length (cf_Data f) else 0)"

inductive carry_step :: "policy \<Rightarrow> carry \<Rightarrow> carry \<Rightarrow> bool" for p :: policy where
  cancelled: "carry_step p s (s\<lparr> cy_Ctx := True \<rparr>)"
| write_ok: "cy_Writer s \<Longrightarrow> cy_Outbound s = (f, ack) # rest \<Longrightarrow>
    carry_step p s (s\<lparr> cy_Outbound := rest, cy_Ack := (if ack then Some None else cy_Ack s),
      cy_Sent := cy_Sent s @ [f], cy_BytesOut := cy_BytesOut s + of_nat (output_length f) \<rparr>)"
| write_fail: "cy_Writer s \<Longrightarrow> cy_Outbound s = (f, ack) # rest \<Longrightarrow>
    carry_step p s (signal_outcome (classify_transport_read (cy_Ctx s) st)
      (s\<lparr> cy_Outbound := rest, cy_Ack := (if ack then Some (Some st) else cy_Ack s), cy_Writer := False \<rparr>))"
| writer_stop: "cy_Writer s \<Longrightarrow> cy_Ctx s \<Longrightarrow> carry_step p s (s\<lparr> cy_Writer := False \<rparr>)"
| read_fail: "cy_Reader s \<Longrightarrow>
    carry_step p s (signal_outcome (classify_transport_read (cy_Ctx s) st) (s\<lparr> cy_Reader := False \<rparr>))"
| read_invalid: "cy_Reader s \<Longrightarrow> mt \<noteq> MessageText \<or> decode_client_frame raw (pl_MaxMessageBytes p) = Inl e \<Longrightarrow>
    carry_step p s (signal_outcome OutcomeInvalidTerminalFrame (s\<lparr> cy_Reader := False \<rparr>))"
| read_ok: "cy_Reader s \<Longrightarrow> decode_client_frame raw (pl_MaxMessageBytes p) = Inr f \<Longrightarrow>
    int (length (cy_Inputs s)) < pl_InboundQueue p \<Longrightarrow>
    carry_step p s (s\<lparr> cy_Inputs := cy_Inputs s @ [f], cy_Accepted := cy_Accepted s @ [f] \<rparr>)"
| read_full: "cy_Reader s \<Longrightarrow> decode_client_frame raw (pl_MaxMessageBytes p) = Inr f \<Longrightarrow>
    \<not> int (length (cy_Inputs s)) < pl_InboundQueue p \<Longrightarrow> \<not> cy_Ctx s \<Longrightarrow>
    carry_step p s (signal_outcome OutcomeBackpressure (s\<lparr> cy_Reader := False \<rparr>))"
| reader_stop: "cy_Reader s \<Longrightarrow> cy_Ctx s \<Longrightarrow> carry_step p s (s\<lparr> cy_Reader := False \<rparr>)"
| input_ok: "cy_Input s \<Longrightarrow> cy_Inputs s = f # rest \<Longrightarrow>
    carry_step p s (s\<lparr> cy_Inputs := rest, cy_Delivered := cy_Delivered s @ [f],
      cy_BytesIn := cy_BytesIn s + of_nat (stdin_length f) \<rparr>)"
| input_fail: "cy_Input s \<Longrightarrow> cy_Inputs s = f # rest \<Longrightarrow>
    carry_step p s (signal_outcome (classify_runtime_error e) (s\<lparr> cy_Inputs := rest, cy_Input := False \<rparr>))"
| input_stop: "cy_Input s \<Longrightarrow> cy_Ctx s \<Longrightarrow> carry_step p s (s\<lparr> cy_Input := False \<rparr>)"
| output_ok: "k \<in> set (cy_Outputs s) \<Longrightarrow> data \<noteq> [] \<Longrightarrow> int (length (cy_Outbound s)) < pl_OutboundQueue p \<Longrightarrow>
    carry_step p s (s\<lparr> cy_Outbound := cy_Outbound s @ [(FrameOutput k data, False)],
      cy_Read := cy_Read s @ [(k, data)] \<rparr>)"
| output_full: "k \<in> set (cy_Outputs s) \<Longrightarrow> data \<noteq> [] \<Longrightarrow> \<not> int (length (cy_Outbound s)) < pl_OutboundQueue p \<Longrightarrow>
    \<not> cy_Ctx s \<Longrightarrow>
    carry_step p s (signal_outcome OutcomeBackpressure (s\<lparr> cy_Outputs := remove1 k (cy_Outputs s),
      cy_Read := cy_Read s @ [(k, data)], cy_Dropped := True \<rparr>))"
| output_cancelled: "k \<in> set (cy_Outputs s) \<Longrightarrow> data \<noteq> [] \<Longrightarrow> cy_Ctx s \<Longrightarrow>
    carry_step p s (s\<lparr> cy_Outputs := remove1 k (cy_Outputs s), cy_Read := cy_Read s @ [(k, data)],
      cy_Dropped := True \<rparr>)"
| output_end: "k \<in> set (cy_Outputs s) \<Longrightarrow> carry_step p s (s\<lparr> cy_Outputs := remove1 k (cy_Outputs s) \<rparr>)"
| output_fail: "k \<in> set (cy_Outputs s) \<Longrightarrow> \<not> cy_Ctx s \<Longrightarrow>
    carry_step p s (signal_outcome OutcomeRuntimeFailed (s\<lparr> cy_Outputs := remove1 k (cy_Outputs s) \<rparr>))"
| exited: "cy_Waiter s \<Longrightarrow> cy_Outputs s = [] \<Longrightarrow> carry_step p s (s\<lparr> cy_Waiter := False, cy_Completed := Some r \<rparr>)"
| waiter_stop: "cy_Waiter s \<Longrightarrow> cy_Outputs s = [] \<Longrightarrow> cy_Ctx s \<Longrightarrow> carry_step p s (s\<lparr> cy_Waiter := False \<rparr>)"
| main_outcome: "cy_Main s \<in> {MainLoop, MainAwaitAck} \<Longrightarrow> cy_Outcomes s = Some oc \<Longrightarrow>
    carry_step p s (s\<lparr> cy_Outcomes := None, cy_Main := MainDecided oc \<rparr>)"
| main_ctx: "cy_Main s \<in> {MainLoop, MainAwaitAck} \<Longrightarrow> cy_Ctx s \<Longrightarrow>
    carry_step p s (s\<lparr> cy_Main := MainDecided OutcomeShutdown \<rparr>)"
| main_timer: "cy_Main s = MainLoop \<Longrightarrow> oc \<in> {OutcomeIdleTimeout, OutcomeMaxDuration} \<Longrightarrow>
    carry_step p s (s\<lparr> cy_Main := MainDecided oc \<rparr>)"
| main_failed: "cy_Main s = MainLoop \<Longrightarrow> cy_Completed s = Some (c, Some e) \<Longrightarrow>
    carry_step p s (s\<lparr> cy_Completed := None, cy_Main := MainDecided OutcomeRuntimeFailed \<rparr>)"
| main_exit: "cy_Main s = MainLoop \<Longrightarrow> cy_Completed s = Some (c, None) \<Longrightarrow>
    int (length (cy_Outbound s)) < pl_OutboundQueue p \<Longrightarrow>
    carry_step p s (s\<lparr> cy_Completed := None, cy_Outbound := cy_Outbound s @ [(FrameExit c, True)],
      cy_Main := MainAwaitAck \<rparr>)"
| main_exit_full: "cy_Main s = MainLoop \<Longrightarrow> cy_Completed s = Some (c, None) \<Longrightarrow>
    \<not> int (length (cy_Outbound s)) < pl_OutboundQueue p \<Longrightarrow> \<not> cy_Ctx s \<Longrightarrow>
    carry_step p s (signal_outcome OutcomeBackpressure
      (s\<lparr> cy_Completed := None, cy_Main := MainDecided OutcomeBackpressure \<rparr>))"
| main_exit_cancelled: "cy_Main s = MainLoop \<Longrightarrow> cy_Completed s = Some (c, None) \<Longrightarrow> cy_Ctx s \<Longrightarrow>
    carry_step p s (s\<lparr> cy_Completed := None, cy_Main := MainDecided OutcomeBackpressure \<rparr>)"
| main_acked: "cy_Main s = MainAwaitAck \<Longrightarrow> cy_Ack s = Some None \<Longrightarrow>
    carry_step p s (s\<lparr> cy_Main := MainDecided OutcomeNormal \<rparr>)"
| main_ack_failed: "cy_Main s = MainAwaitAck \<Longrightarrow> cy_Ack s = Some (Some st) \<Longrightarrow>
    carry_step p s (s\<lparr> cy_Main := MainDecided (classify_transport_read (cy_Ctx s) st) \<rparr>)"

inductive_cases carry_stepE: "carry_step p s s'"

abbreviation carry_reach :: "policy \<Rightarrow> bool \<Rightarrow> carry \<Rightarrow> bool" where
  "carry_reach p tty s \<equiv> (carry_step p)\<^sup>*\<^sup>* (new_carry tty) s"

lemma signal_outcome_simps [simp]:
  "cy_Ctx (signal_outcome oc s) = cy_Ctx s" "cy_Completed (signal_outcome oc s) = cy_Completed s"
  "cy_Inputs (signal_outcome oc s) = cy_Inputs s" "cy_Outbound (signal_outcome oc s) = cy_Outbound s"
  "cy_Ack (signal_outcome oc s) = cy_Ack s" "cy_Writer (signal_outcome oc s) = cy_Writer s"
  "cy_Reader (signal_outcome oc s) = cy_Reader s" "cy_Input (signal_outcome oc s) = cy_Input s"
  "cy_Outputs (signal_outcome oc s) = cy_Outputs s" "cy_Waiter (signal_outcome oc s) = cy_Waiter s"
  "cy_Main (signal_outcome oc s) = cy_Main s" "cy_BytesIn (signal_outcome oc s) = cy_BytesIn s"
  "cy_BytesOut (signal_outcome oc s) = cy_BytesOut s" "cy_Read (signal_outcome oc s) = cy_Read s"
  "cy_Dropped (signal_outcome oc s) = cy_Dropped s" "cy_Sent (signal_outcome oc s) = cy_Sent s"
  "cy_Accepted (signal_outcome oc s) = cy_Accepted s" "cy_Delivered (signal_outcome oc s) = cy_Delivered s"
  by (simp_all add: signal_outcome_def split: option.split)

section \<open>The stages of the exit frame\<close>

fun output_of :: "server_frame \<Rightarrow> (string \<times> string) list" where
  "output_of (FrameOutput k d) = [(k, d)]"
| "output_of _ = []"

definition outputs_of :: "server_frame list \<Rightarrow> (string \<times> string) list" where
  "outputs_of fs = concat (map output_of fs)"

lemma outputs_of_simps [simp]:
  "outputs_of [] = []" "outputs_of (f # fs) = output_of f @ outputs_of fs"
  "outputs_of (fs @ gs) = outputs_of fs @ outputs_of gs"
  by (simp_all add: outputs_of_def)

definition is_output :: "server_frame \<Rightarrow> bool" where
  "is_output f \<longleftrightarrow> output_of f \<noteq> []"

lemma is_output_simps [simp]:
  "is_output (FrameOutput k d)" "\<not> is_output (FrameExit c)" "\<not> is_output (FrameError a b)"
  by (simp_all add: is_output_def)

lemma outputs_only: "list_all is_output fs \<Longrightarrow> fs = map (\<lambda>(k, d). FrameOutput k d) (outputs_of fs)"
proof (induction fs)
  case (Cons f fs)
  then show ?case by (cases f) simp_all
qed simp

definition plain_output :: "server_frame \<times> bool \<Rightarrow> bool" where
  "plain_output x \<longleftrightarrow> is_output (fst x) \<and> \<not> snd x"

lemma plain_output_simps [simp]: "plain_output (f, ack) \<longleftrightarrow> is_output f \<and> \<not> ack"
  by (simp add: plain_output_def)

text \<open>
  Before the exit frame is queued; while it waits as the last frame of the queue; after it was
  written; after its write failed.
\<close>

definition no_exit :: "carry \<Rightarrow> bool" where
  "no_exit s \<longleftrightarrow> list_all plain_output (cy_Outbound s) \<and> list_all is_output (cy_Sent s) \<and> cy_Ack s = None \<and>
     cy_Main s \<noteq> MainAwaitAck \<and> cy_Main s \<noteq> MainDecided OutcomeNormal \<and>
     (cy_Completed s \<noteq> None \<longrightarrow> cy_Outputs s = [] \<and> \<not> cy_Waiter s)"

definition finishing :: "carry \<Rightarrow> bool" where
  "finishing s \<longleftrightarrow> cy_Outputs s = [] \<and> \<not> cy_Waiter s \<and> cy_Completed s = None \<and> cy_Main s \<noteq> MainLoop"

definition exit_queued :: "carry \<Rightarrow> bool" where
  "exit_queued s \<longleftrightarrow> finishing s \<and> cy_Ack s = None \<and> cy_Main s \<noteq> MainDecided OutcomeNormal \<and>
     list_all is_output (cy_Sent s) \<and>
     (\<exists>pre c. cy_Outbound s = pre @ [(FrameExit c, True)] \<and> list_all plain_output pre)"

definition exit_sent :: "carry \<Rightarrow> bool" where
  "exit_sent s \<longleftrightarrow> finishing s \<and> cy_Ack s = Some None \<and> cy_Outbound s = [] \<and>
     (\<exists>pre c. cy_Sent s = pre @ [FrameExit c] \<and> list_all is_output pre)"

definition exit_lost :: "carry \<Rightarrow> bool" where
  "exit_lost s \<longleftrightarrow> finishing s \<and> (\<exists>st. cy_Ack s = Some (Some st)) \<and> cy_Outbound s = [] \<and> \<not> cy_Writer s \<and>
     cy_Main s \<noteq> MainDecided OutcomeNormal"

definition exit_stage :: "carry \<Rightarrow> bool" where
  "exit_stage s \<longleftrightarrow> (no_exit s \<or> exit_queued s \<or> exit_sent s \<or> exit_lost s) \<and> cy_Outcomes s \<noteq> Some OutcomeNormal"

lemma signal_not_normal:
  "cy_Outcomes s \<noteq> Some OutcomeNormal \<Longrightarrow> oc \<noteq> OutcomeNormal \<Longrightarrow>
   cy_Outcomes (signal_outcome oc s) \<noteq> Some OutcomeNormal"
  by (cases "cy_Outcomes s") (simp_all add: signal_outcome_def)

lemma outcomes_not_normal:
  assumes "carry_step p s s'" and "cy_Outcomes s \<noteq> Some OutcomeNormal"
  shows "cy_Outcomes s' \<noteq> Some OutcomeNormal"
  using assms by cases (simp_all add: signal_not_normal)

lemma no_exit_step:
  assumes "carry_step p s s'" and "no_exit s" and "cy_Outcomes s \<noteq> Some OutcomeNormal"
  shows "no_exit s' \<or> exit_queued s'"
  using assms(1)
proof cases
  case (main_exit c)
  then show ?thesis using assms(2) by (auto simp: no_exit_def exit_queued_def finishing_def)
qed (use assms(2,3) in \<open>auto simp: no_exit_def\<close>)

lemma exit_queued_step:
  assumes "carry_step p s s'" and "exit_queued s" and "cy_Outcomes s \<noteq> Some OutcomeNormal"
  shows "exit_queued s' \<or> exit_sent s' \<or> exit_lost s'"
  using assms(1)
proof cases
  case (write_ok f ack rest)
  then show ?thesis
    using assms(2) by (auto simp: exit_queued_def exit_sent_def finishing_def Cons_eq_append_conv)
next
  case (write_fail f ack rest st)
  then show ?thesis
    using assms(2) by (auto simp: exit_queued_def exit_lost_def finishing_def Cons_eq_append_conv)
qed (use assms(2,3) in \<open>auto simp: exit_queued_def finishing_def\<close>)

lemma exit_sent_step:
  assumes "carry_step p s s'" and "exit_sent s"
  shows "exit_sent s'"
  using assms(1) by cases (use assms(2) in \<open>auto simp: exit_sent_def finishing_def\<close>)

lemma exit_lost_step:
  assumes "carry_step p s s'" and "exit_lost s" and "cy_Outcomes s \<noteq> Some OutcomeNormal"
  shows "exit_lost s'"
  using assms(1) by cases (use assms(2,3) in \<open>auto simp: exit_lost_def finishing_def\<close>)

lemma exit_stage_step:
  assumes "carry_step p s s'" and "exit_stage s"
  shows "exit_stage s'"
  using no_exit_step [OF assms(1)] exit_queued_step [OF assms(1)] exit_sent_step [OF assms(1)]
    exit_lost_step [OF assms(1)] outcomes_not_normal [OF assms(1)] assms(2)
  unfolding exit_stage_def by blast

section \<open>Delivery, order and counts\<close>

text \<open>
  While the writer runs and nothing was discarded, what was read from the runtime is what was written
  followed by what is queued; once the exit frame is acknowledged everything was written.
\<close>

definition delivery_inv :: "carry \<Rightarrow> bool" where
  "delivery_inv s \<longleftrightarrow>
     (\<not> cy_Dropped s \<and> cy_Writer s \<longrightarrow>
        cy_Read s = outputs_of (cy_Sent s) @ outputs_of (map fst (cy_Outbound s))) \<and>
     (\<not> cy_Dropped s \<and> cy_Ack s = Some None \<longrightarrow> cy_Read s = outputs_of (cy_Sent s))"

lemma acked_stage: "exit_stage s \<Longrightarrow> cy_Ack s = Some None \<Longrightarrow> exit_sent s"
  by (auto simp: exit_stage_def no_exit_def exit_queued_def exit_lost_def)

lemma ack_frame_last:
  assumes "exit_stage s" and "cy_Outbound s = (f, True) # rest"
  shows "rest = [] \<and> (\<exists>c. f = FrameExit c)"
  using assms
  by (auto simp: exit_stage_def no_exit_def exit_queued_def exit_sent_def exit_lost_def Cons_eq_append_conv)

lemma delivery_step:
  assumes "carry_step p s s'" and "exit_stage s" and "delivery_inv s"
  shows "delivery_inv s'"
  using assms(1)
proof cases
  case (write_ok f ack rest)
  show ?thesis
  proof (cases "cy_Ack s = Some None")
    case True
    then have "exit_sent s" using acked_stage assms(2) by blast
    with write_ok show ?thesis by (simp add: exit_sent_def)
  next
    case False
    then show ?thesis
      using write_ok assms(3) ack_frame_last [OF assms(2), of f rest]
      by (cases ack) (auto simp: delivery_inv_def)
  qed
next
  case (write_fail f ack rest st)
  show ?thesis
  proof (cases "cy_Ack s = Some None")
    case True
    then have "exit_sent s" using acked_stage assms(2) by blast
    with write_fail show ?thesis by (simp add: exit_sent_def)
  qed (use write_fail assms(3) in \<open>auto simp: delivery_inv_def\<close>)
next
  case (output_ok k data)
  have "cy_Ack s \<noteq> Some None"
    using acked_stage [OF assms(2)] output_ok by (auto simp: exit_sent_def finishing_def)
  with output_ok assms(3) show ?thesis by (auto simp: delivery_inv_def)
next
  case (main_exit c)
  then show ?thesis
    using assms(2,3) acked_stage [OF assms(2)] by (auto simp: delivery_inv_def exit_sent_def finishing_def)
qed (use assms(3) in \<open>auto simp: delivery_inv_def\<close>)

text \<open>The byte counters and the order of the client's frames, and the bounds of the channels.\<close>

definition count_inv :: "carry \<Rightarrow> bool" where
  "count_inv s \<longleftrightarrow>
     cy_BytesOut s = of_nat (sum_list (map output_length (cy_Sent s))) \<and>
     cy_BytesIn s = of_nat (sum_list (map stdin_length (cy_Delivered s))) \<and>
     (\<exists>lost. cy_Accepted s = cy_Delivered s @ lost @ cy_Inputs s \<and> (cy_Input s \<longrightarrow> lost = []))"

definition queue_inv :: "policy \<Rightarrow> carry \<Rightarrow> bool" where
  "queue_inv p s \<longleftrightarrow> int (length (cy_Inputs s)) \<le> pl_InboundQueue p \<and>
     int (length (cy_Outbound s)) \<le> pl_OutboundQueue p"

lemma count_step:
  assumes "carry_step p s s'" and "count_inv s"
  shows "count_inv s'"
  using assms(1) by cases (use assms(2) in \<open>auto simp: count_inv_def\<close>)

lemma queue_step:
  assumes "carry_step p s s'" and "queue_inv p s"
  shows "queue_inv p s'"
  using assms(1) by cases (use assms(2) in \<open>auto simp: queue_inv_def\<close>)

lemma decided_step:
  assumes "carry_step p s s'" and "cy_Main s = MainDecided oc"
  shows "cy_Main s' = MainDecided oc"
  using assms(1) by cases (use assms(2) in auto)

lemma carry_reach_inv:
  assumes "carry_reach p tty s"
  shows "exit_stage s \<and> delivery_inv s \<and> count_inv s"
  using assms
proof (induction rule: rtranclp_induct)
  case base
  show ?case
    by (simp add: new_carry_def exit_stage_def no_exit_def delivery_inv_def count_inv_def)
next
  case (step y z)
  then show ?case using exit_stage_step delivery_step count_step by blast
qed

lemma carry_reach_queue:
  assumes "carry_reach p tty s" and "0 \<le> pl_InboundQueue p" and "0 \<le> pl_OutboundQueue p"
  shows "queue_inv p s"
  using assms(1)
proof (induction rule: rtranclp_induct)
  case base
  show ?case using assms(2,3) by (simp add: new_carry_def queue_inv_def)
next
  case (step y z)
  then show ?case using queue_step by blast
qed

section \<open>A concrete run\<close>

definition demo_policy :: policy where
  "demo_policy = \<lparr> pl_MaxMessageBytes = 65536, pl_IdleTimeout = 600, pl_WriteTimeout = 10,
     pl_InboundQueue = 1, pl_OutboundQueue = 1 \<rparr>"

text \<open>A terminal that prints one chunk and exits.\<close>

definition demo_end :: "bool \<Rightarrow> carry" where
  "demo_end lossy =
     (new_carry True)\<lparr> cy_Outputs := [], cy_Waiter := False, cy_Ack := Some None,
       cy_Main := MainDecided OutcomeNormal, cy_BytesOut := 1, cy_Sent := [FrameOutput ''stdout'' ''a'', FrameExit 0],
       cy_Read := (''stdout'', ''a'') # (if lossy then [(''stdout'', ''b'')] else []), cy_Dropped := lossy,
       cy_Outcomes := (if lossy then Some OutcomeBackpressure else None) \<rparr>"

definition demo_printed :: carry where
  "demo_printed = (new_carry True)\<lparr> cy_Outbound := [(FrameOutput ''stdout'' ''a'', False)],
     cy_Read := [(''stdout'', ''a'')] \<rparr>"

definition demo_drained :: "bool \<Rightarrow> carry" where
  "demo_drained lossy = (new_carry True)\<lparr> cy_Outputs := [], cy_BytesOut := 1,
     cy_Sent := [FrameOutput ''stdout'' ''a''],
     cy_Read := (''stdout'', ''a'') # (if lossy then [(''stdout'', ''b'')] else []), cy_Dropped := lossy,
     cy_Outcomes := (if lossy then Some OutcomeBackpressure else None) \<rparr>"

lemma demo_start: "carry_step demo_policy (new_carry True) demo_printed"
  using carry_step.output_ok [of "''stdout''" "new_carry True" "''a''" demo_policy]
  by (simp add: new_carry_def demo_policy_def demo_printed_def)

text \<open>The reader ends, or finds the queue full with a second chunk; then the first chunk is written.\<close>

lemma demo_middle: "(carry_step demo_policy)\<^sup>*\<^sup>* demo_printed (demo_drained lossy)"
proof -
  let ?s = "if lossy
    then signal_outcome OutcomeBackpressure (demo_printed\<lparr> cy_Outputs := remove1 ''stdout'' (cy_Outputs demo_printed),
      cy_Read := cy_Read demo_printed @ [(''stdout'', ''b'')], cy_Dropped := True \<rparr>)
    else demo_printed\<lparr> cy_Outputs := remove1 ''stdout'' (cy_Outputs demo_printed) \<rparr>"
  have "carry_step demo_policy demo_printed ?s"
    using carry_step.output_full [of "''stdout''" demo_printed "''b''" demo_policy]
      carry_step.output_end [of "''stdout''" demo_printed demo_policy]
    by (simp add: demo_printed_def new_carry_def demo_policy_def)
  moreover have "carry_step demo_policy ?s (demo_drained lossy)"
    using carry_step.write_ok [of ?s "FrameOutput ''stdout'' ''a''" False "[]" demo_policy]
    by (cases lossy) (simp_all add: demo_printed_def demo_drained_def new_carry_def signal_outcome_def)
  ultimately show ?thesis
    by (meson converse_rtranclp_into_rtranclp rtranclp.rtrancl_refl)
qed

lemma demo_finish: "(carry_step demo_policy)\<^sup>*\<^sup>* (demo_drained lossy) (demo_end lossy)"
proof -
  let ?s1 = "(demo_drained lossy)\<lparr> cy_Waiter := False, cy_Completed := Some (0, None) \<rparr>"
  let ?s2 = "?s1\<lparr> cy_Completed := None, cy_Outbound := [(FrameExit 0, True)], cy_Main := MainAwaitAck \<rparr>"
  let ?s3 = "?s2\<lparr> cy_Outbound := [], cy_Ack := Some None,
     cy_Sent := [FrameOutput ''stdout'' ''a'', FrameExit 0], cy_BytesOut := 1 \<rparr>"
  have "carry_step demo_policy (demo_drained lossy) ?s1"
    using carry_step.exited [of "demo_drained lossy" demo_policy "(0, None)"]
    by (simp add: demo_drained_def new_carry_def)
  moreover have "carry_step demo_policy ?s1 ?s2"
    using carry_step.main_exit [of ?s1 0 demo_policy]
    by (simp add: demo_drained_def new_carry_def demo_policy_def)
  moreover have "carry_step demo_policy ?s2 ?s3"
    using carry_step.write_ok [of ?s2 "FrameExit 0" True "[]" demo_policy]
    by (simp add: demo_drained_def new_carry_def)
  moreover have "carry_step demo_policy ?s3 (demo_end lossy)"
    using carry_step.main_acked [of ?s3 demo_policy]
    by (simp add: demo_drained_def demo_end_def new_carry_def)
  ultimately show ?thesis
    by (meson converse_rtranclp_into_rtranclp rtranclp.rtrancl_refl)
qed

lemma demo_reach: "carry_reach demo_policy True (demo_end lossy)"
  by (meson converse_rtranclp_into_rtranclp demo_finish demo_middle demo_start rtranclp_trans)

section \<open>Properties\<close>



text \<open>
  The chosen outcome is immutable. Once the main loop has decided, no later step of any goroutine
  changes the outcome the session is closed and reported with.
\<close>

lemma exec_outcome_immutable:
  assumes "carry_reach p tty s" and "cy_Main s = MainDecided oc" and "(carry_step p)\<^sup>*\<^sup>* s s'"
  shows "cy_Main s' = MainDecided oc"
  using assms(3,2) by (induction rule: rtranclp_induct) (auto dest: decided_step)

text \<open>
  The queues are bounded, the client's frames reach the runtime in order, and the counters count
  what passed. In every reachable state the two queues hold at most their configured sizes, the frames
  delivered to the runtime are a prefix of the frames accepted from the client, and the counters are,
  modulo 2^64, the bytes of the written output frames and of the delivered stdin frames.
\<close>

lemma exec_queues_and_counters:
  assumes "carry_reach p tty s" and "0 < pl_InboundQueue p" and "0 < pl_OutboundQueue p"
  shows "int (length (cy_Inputs s)) \<le> pl_InboundQueue p \<and> int (length (cy_Outbound s)) \<le> pl_OutboundQueue p \<and>
    (\<exists>rest. cy_Accepted s = cy_Delivered s @ rest) \<and>
    cy_BytesOut s = of_nat (sum_list (map output_length (cy_Sent s))) \<and>
    cy_BytesIn s = of_nat (sum_list (map stdin_length (cy_Delivered s)))"
  using carry_reach_inv [OF assms(1)] carry_reach_queue [OF assms(1)] assms(2,3)
  by (auto simp: count_inv_def queue_inv_def)

text \<open>
  C30: discarded output can be reported as a normal end. There is a run in which an output chunk finds
  the queue full and is discarded, the backpressure is signalled, and the main loop nevertheless takes
  the exit and its acknowledgement, so that the session ends as normal with output missing.
\<close>

theorem exec_normal_can_hide_discarded_output:
  "\<exists>p tty s. carry_reach p tty s \<and> cy_Main s = MainDecided OutcomeNormal \<and> cy_Dropped s \<and>
     cy_Outcomes s = Some OutcomeBackpressure \<and>
     length (outputs_of (cy_Sent s)) < length (cy_Read s)"
proof (intro exI conjI)
  show "carry_reach demo_policy True (demo_end True)" by (rule demo_reach)
qed (simp_all add: demo_end_def)

end
