(* ===== verification/ByteCarry.thy ===== *)
theory ByteCarry
  imports ConnectedSession
begin

text \<open>
  \<open>carryByteStream\<close> of \<open>connectedsession/module.go\<close>: the two pumps and the main select loop of a serial
  or VNC session, as interleaved atomic steps like those of \<open>ExecCarry\<close>. There are no queues: each
  payload is passed on before the next one is read. The last fields record the chunks read from the
  runtime, the messages written to the client and the payloads written to the runtime.
\<close>

datatype byte_main = ByteLoop | ByteDecided outcome

record byte_carry =
  bc_Ctx :: bool
  bc_Outcomes :: "outcome option"
  bc_InPump :: bool
  bc_OutPump :: bool
  bc_Main :: byte_main
  bc_BytesIn :: "64 word"
  bc_BytesOut :: "64 word"
  bc_Read :: "bytes list"
  bc_Sent :: "(message_type \<times> bytes) list"
  bc_Delivered :: "bytes list"

definition new_byte_carry :: byte_carry where
  "new_byte_carry = \<lparr> bc_Ctx = False, bc_Outcomes = None, bc_InPump = True, bc_OutPump = True,
     bc_Main = ByteLoop, bc_BytesIn = 0, bc_BytesOut = 0, bc_Read = [], bc_Sent = [], bc_Delivered = [] \<rparr>"

definition signal_byte :: "outcome \<Rightarrow> byte_carry \<Rightarrow> byte_carry" where
  "signal_byte oc s = (case bc_Outcomes s of None \<Rightarrow> s\<lparr> bc_Outcomes := Some oc \<rparr> | Some _ \<Rightarrow> s)"

inductive byte_step :: "policy \<Rightarrow> mode \<Rightarrow> byte_carry \<Rightarrow> byte_carry \<Rightarrow> bool"
  for p :: policy and m :: mode where
  cancelled: "byte_step p m s (s\<lparr> bc_Ctx := True \<rparr>)"
| in_ok: "bc_InPump s \<Longrightarrow> decode_byte_payload m mt raw (pl_MaxMessageBytes p) = Inr payload \<Longrightarrow>
    byte_step p m s (s\<lparr> bc_Delivered := bc_Delivered s @ [payload],
      bc_BytesIn := bc_BytesIn s + of_nat (length payload) \<rparr>)"
| in_read_fail: "bc_InPump s \<Longrightarrow>
    byte_step p m s (signal_byte (classify_transport_read (bc_Ctx s) st) (s\<lparr> bc_InPump := False \<rparr>))"
| in_invalid: "bc_InPump s \<Longrightarrow> decode_byte_payload m mt raw (pl_MaxMessageBytes p) = Inl oc \<Longrightarrow>
    byte_step p m s (signal_byte oc (s\<lparr> bc_InPump := False \<rparr>))"
| in_write_fail: "bc_InPump s \<Longrightarrow>
    byte_step p m s (signal_byte (classify_runtime_error e) (s\<lparr> bc_InPump := False \<rparr>))"
| out_ok: "bc_OutPump s \<Longrightarrow> data \<noteq> [] \<Longrightarrow>
    byte_step p m s (s\<lparr> bc_Read := bc_Read s @ [data], bc_Sent := bc_Sent s @ [encode_byte_payload m data],
      bc_BytesOut := bc_BytesOut s + of_nat (length data) \<rparr>)"
| out_write_fail: "bc_OutPump s \<Longrightarrow> data \<noteq> [] \<Longrightarrow>
    byte_step p m s (signal_byte (classify_transport_read (bc_Ctx s) st)
      (s\<lparr> bc_Read := bc_Read s @ [data], bc_OutPump := False \<rparr>))"
| out_eof: "bc_OutPump s \<Longrightarrow> byte_step p m s (signal_byte OutcomeNormal (s\<lparr> bc_OutPump := False \<rparr>))"
| out_fail: "bc_OutPump s \<Longrightarrow>
    byte_step p m s (if bc_Ctx s then s\<lparr> bc_OutPump := False \<rparr>
      else signal_byte OutcomeRuntimeFailed (s\<lparr> bc_OutPump := False \<rparr>))"
| main_outcome: "bc_Main s = ByteLoop \<Longrightarrow> bc_Outcomes s = Some oc \<Longrightarrow>
    byte_step p m s (s\<lparr> bc_Outcomes := None, bc_Main := ByteDecided oc \<rparr>)"
| main_timer: "bc_Main s = ByteLoop \<Longrightarrow> oc \<in> {OutcomeIdleTimeout, OutcomeMaxDuration} \<Longrightarrow>
    byte_step p m s (s\<lparr> bc_Main := ByteDecided oc \<rparr>)"
| main_ctx: "bc_Main s = ByteLoop \<Longrightarrow> bc_Ctx s \<Longrightarrow> byte_step p m s (s\<lparr> bc_Main := ByteDecided OutcomeShutdown \<rparr>)"

abbreviation byte_reach :: "policy \<Rightarrow> mode \<Rightarrow> byte_carry \<Rightarrow> bool" where
  "byte_reach p m s \<equiv> (byte_step p m)\<^sup>*\<^sup>* new_byte_carry s"

text \<open>The grace period before the runtime is closed: a tenth of the write timeout, at most 10 ms, and
  1 ms when that would be nothing.\<close>

definition grace_period :: "duration \<Rightarrow> duration" where
  "grace_period write_timeout =
     (let g = write_timeout div 10;
          g = (if g > 10 * 1000000 then 10 * 1000000 else g)
      in if g \<le> 0 then 1000000 else g)"

section \<open>Delivery\<close>

lemma signal_byte_simps [simp]:
  "bc_Ctx (signal_byte oc s) = bc_Ctx s" "bc_InPump (signal_byte oc s) = bc_InPump s"
  "bc_OutPump (signal_byte oc s) = bc_OutPump s" "bc_Main (signal_byte oc s) = bc_Main s"
  "bc_BytesIn (signal_byte oc s) = bc_BytesIn s" "bc_BytesOut (signal_byte oc s) = bc_BytesOut s"
  "bc_Read (signal_byte oc s) = bc_Read s" "bc_Sent (signal_byte oc s) = bc_Sent s"
  "bc_Delivered (signal_byte oc s) = bc_Delivered s"
  by (simp_all add: signal_byte_def split: option.split)

lemma signal_byte_Normal:
  "bc_Outcomes (signal_byte oc s) = Some OutcomeNormal \<longleftrightarrow>
     bc_Outcomes s = Some OutcomeNormal \<or> bc_Outcomes s = None \<and> oc = OutcomeNormal"
  by (cases "bc_Outcomes s") (simp_all add: signal_byte_def)

lemma decode_not_normal: "decode_byte_payload m mt raw k \<noteq> Inl OutcomeNormal"
  by (simp add: decode_byte_payload_def split: sum.split)

definition byte_inv :: "mode \<Rightarrow> byte_carry \<Rightarrow> bool" where
  "byte_inv m s \<longleftrightarrow>
     (bc_OutPump s \<or> bc_Outcomes s = Some OutcomeNormal \<or> bc_Main s = ByteDecided OutcomeNormal \<longrightarrow>
        bc_Sent s = map (encode_byte_payload m) (bc_Read s)) \<and>
     (bc_Outcomes s = Some OutcomeNormal \<or> bc_Main s = ByteDecided OutcomeNormal \<longrightarrow> \<not> bc_OutPump s) \<and>
     bc_BytesIn s = of_nat (sum_list (map length (bc_Delivered s)))"

lemma byte_inv_step:
  assumes "byte_step p m s s'" and "byte_inv m s"
  shows "byte_inv m s'"
  using assms(1)
proof cases
  case (in_invalid mt raw oc)
  then have "oc \<noteq> OutcomeNormal" using decode_not_normal by metis
  with in_invalid assms(2) show ?thesis by (auto simp: byte_inv_def signal_byte_Normal)
qed (use assms(2) in \<open>auto simp: byte_inv_def signal_byte_Normal\<close>)

lemma byte_reach_inv: "byte_reach p m s \<Longrightarrow> byte_inv m s"
proof (induction rule: rtranclp_induct)
  case base
  show ?case by (simp add: byte_inv_def new_byte_carry_def)
next
  case (step y z)
  then show ?case using byte_inv_step by blast
qed

section \<open>Properties\<close>



end
