(* ===== verification/SessionTimers.thy ===== *)
theory SessionTimers
  imports ExecCarry ByteCarry
begin

text \<open>
  Time in a connected session: the timers of \<open>connectedsession/clock.go\<close>, the idle and maximum timers of
  the select loops of \<open>exec.go\<close> and \<open>module.go\<close> with \<open>resetTimer\<close>, and the end of a carry, which waits
  for its pumps at most twice before it returns. In \<open>ExecCarry\<close> and \<open>ByteCarry\<close> a timer fires at any
  moment; here a clock runs beside them, and a timed run is shown to be one of theirs.
\<close>

section \<open>Timers\<close>

text \<open>
  A timer with the deadline it is armed for and its channel, which holds at most one firing. A firing is
  in the channel as soon as it is due, and stopping or resetting a timer leaves the channel as it is; a
  runtime that empties it as well changes nothing of what follows.
\<close>

record timer =
  tm_Deadline :: "time option"
  tm_C :: bool

definition timer_run :: "time \<Rightarrow> timer \<Rightarrow> timer" where
  "timer_run now t =
     (case tm_Deadline t of
        None \<Rightarrow> t
      | Some d \<Rightarrow> if d \<le> now then t\<lparr> tm_Deadline := None, tm_C := True \<rparr> else t)"

definition new_timer :: "time \<Rightarrow> duration \<Rightarrow> timer" where
  "new_timer now after = timer_run now \<lparr> tm_Deadline = Some (now + after), tm_C = False \<rparr>"

definition timer_stop :: "timer \<Rightarrow> bool \<times> timer" where
  "timer_stop t = (tm_Deadline t \<noteq> None, t\<lparr> tm_Deadline := None \<rparr>)"

definition timer_reset :: "time \<Rightarrow> duration \<Rightarrow> timer \<Rightarrow> timer" where
  "timer_reset now after t = timer_run now (t\<lparr> tm_Deadline := Some (now + after) \<rparr>)"

definition reset_timer :: "time \<Rightarrow> duration \<Rightarrow> timer \<Rightarrow> timer" where
  "reset_timer now after t =
     (case timer_stop t of
        (active, t') \<Rightarrow> timer_reset now after (if active then t' else t'\<lparr> tm_C := False \<rparr>))"

text \<open>\<open>Time.Sub\<close> saturates at the ends of a duration.\<close>

definition time_sub :: "time \<Rightarrow> time \<Rightarrow> duration" where
  "time_sub t u = max (- (2 ^ 63)) (min (2 ^ 63 - 1) (t - u))"

definition max_after :: "time \<Rightarrow> time \<Rightarrow> duration" where
  "max_after expires now = (if time_sub expires now < 0 then 0 else time_sub expires now)"

text \<open>A timer armed at \<open>start\<close> fires exactly when its time is over.\<close>

definition armed :: "time \<Rightarrow> duration \<Rightarrow> time \<Rightarrow> timer \<Rightarrow> bool" where
  "armed start after now t \<longleftrightarrow>
     (tm_C t \<longleftrightarrow> start + after \<le> now) \<and> tm_Deadline t = (if tm_C t then None else Some (start + after))"

lemma armed_new [simp]: "armed now after now (new_timer now after)"
  by (simp add: armed_def new_timer_def timer_run_def)

lemma armed_run: "armed start after now t \<Longrightarrow> now \<le> later \<Longrightarrow> armed start after later (timer_run later t)"
  by (auto simp: armed_def timer_run_def split: if_splits)

lemma armed_reset: "armed start d now t \<Longrightarrow> armed now after now (reset_timer now after t)"
  by (auto simp: armed_def reset_timer_def timer_stop_def timer_reset_def timer_run_def split: if_splits)

section \<open>The select loop beside a clock\<close>

text \<open>
  What the loop of a carry is to its timers: the steps of the carry, whether the loop still selects, its
  decision, the effect of deciding, and whether a step moved a payload, after which the pumps \<open>touch\<close>.
\<close>

record 's carry_view =
  cv_Step :: "'s \<Rightarrow> 's \<Rightarrow> bool"
  cv_Selecting :: "'s \<Rightarrow> bool"
  cv_Decided :: "'s \<Rightarrow> outcome option"
  cv_Decide :: "outcome \<Rightarrow> 's \<Rightarrow> 's"
  cv_Moved :: "'s \<Rightarrow> 's \<Rightarrow> bool"

definition exec_view :: "policy \<Rightarrow> carry carry_view" where
  "exec_view p =
     \<lparr> cv_Step = carry_step p, cv_Selecting = (\<lambda>s. cy_Main s = MainLoop),
       cv_Decided = (\<lambda>s. case cy_Main s of MainDecided oc \<Rightarrow> Some oc | _ \<Rightarrow> None),
       cv_Decide = (\<lambda>oc s. s\<lparr> cy_Main := MainDecided oc \<rparr>),
       cv_Moved = (\<lambda>s s'. cy_Sent s' \<noteq> cy_Sent s \<or> cy_Accepted s' \<noteq> cy_Accepted s \<or> cy_Delivered s' \<noteq> cy_Delivered s) \<rparr>"

definition byte_view :: "policy \<Rightarrow> mode \<Rightarrow> byte_carry carry_view" where
  "byte_view p m =
     \<lparr> cv_Step = byte_step p m, cv_Selecting = (\<lambda>s. bc_Main s = ByteLoop),
       cv_Decided = (\<lambda>s. case bc_Main s of ByteDecided oc \<Rightarrow> Some oc | _ \<Rightarrow> None),
       cv_Decide = (\<lambda>oc s. s\<lparr> bc_Main := ByteDecided oc \<rparr>),
       cv_Moved = (\<lambda>s s'. bc_Sent s' \<noteq> bc_Sent s \<or> bc_Delivered s' \<noteq> bc_Delivered s) \<rparr>"

record 's timed =
  td_Carry :: 's
  td_Now :: time
  td_Activity :: bool
  td_Idle :: timer
  td_Max :: timer
  td_LastReset :: time
  td_LastMoved :: time

definition new_timed :: "policy \<Rightarrow> time \<Rightarrow> time \<Rightarrow> 's \<Rightarrow> 's timed" where
  "new_timed p expires now s =
     \<lparr> td_Carry = s, td_Now = now, td_Activity = False, td_Idle = new_timer now (pl_IdleTimeout p),
       td_Max = new_timer now (max_after expires now), td_LastReset = now, td_LastMoved = now \<rparr>"

inductive timed_step :: "'s carry_view \<Rightarrow> policy \<Rightarrow> 's timed \<Rightarrow> 's timed \<Rightarrow> bool"
  for v :: "'s carry_view" and p :: policy where
  elapse: "0 \<le> d \<Longrightarrow>
    timed_step v p t (t\<lparr> td_Now := td_Now t + d, td_Idle := timer_run (td_Now t + d) (td_Idle t),
      td_Max := timer_run (td_Now t + d) (td_Max t) \<rparr>)"
| untimed: "cv_Step v (td_Carry t) s \<Longrightarrow>
    \<not> (cv_Selecting v (td_Carry t) \<and>
       s \<in> {cv_Decide v OutcomeIdleTimeout (td_Carry t), cv_Decide v OutcomeMaxDuration (td_Carry t)}) \<Longrightarrow>
    timed_step v p t
      (if cv_Moved v (td_Carry t) s then t\<lparr> td_Carry := s, td_Activity := True, td_LastMoved := td_Now t \<rparr>
       else t\<lparr> td_Carry := s \<rparr>)"
| activity: "cv_Selecting v (td_Carry t) \<Longrightarrow> td_Activity t \<Longrightarrow>
    timed_step v p t (t\<lparr> td_Activity := False, td_LastReset := td_Now t,
      td_Idle := reset_timer (td_Now t) (pl_IdleTimeout p) (td_Idle t) \<rparr>)"
| idle: "cv_Selecting v (td_Carry t) \<Longrightarrow> tm_C (td_Idle t) \<Longrightarrow>
    timed_step v p t (t\<lparr> td_Carry := cv_Decide v OutcomeIdleTimeout (td_Carry t), td_Idle := (td_Idle t)\<lparr> tm_C := False \<rparr> \<rparr>)"
| maximum: "cv_Selecting v (td_Carry t) \<Longrightarrow> tm_C (td_Max t) \<Longrightarrow>
    timed_step v p t (t\<lparr> td_Carry := cv_Decide v OutcomeMaxDuration (td_Carry t), td_Max := (td_Max t)\<lparr> tm_C := False \<rparr> \<rparr>)"

inductive_cases timed_stepE: "timed_step v p t t'"


abbreviation timeouts :: "outcome set" where
  "timeouts \<equiv> {OutcomeIdleTimeout, OutcomeMaxDuration}"

text \<open>The timers while the loop selects, and that a timeout was due when it was decided.\<close>

definition timely :: "'s carry_view \<Rightarrow> ('s \<Rightarrow> bool) \<Rightarrow> policy \<Rightarrow> time \<Rightarrow> time \<Rightarrow> 's timed \<Rightarrow> bool" where
  "timely v ok p expires start t \<longleftrightarrow>
     ok (td_Carry t) \<and> start \<le> td_LastReset t \<and> td_LastReset t \<le> td_Now t \<and> td_LastMoved t \<le> td_Now t \<and>
     (td_LastMoved t \<le> td_LastReset t \<or> td_Activity t) \<and>
     (cv_Selecting v (td_Carry t) \<longrightarrow>
        armed (td_LastReset t) (pl_IdleTimeout p) (td_Now t) (td_Idle t) \<and>
        armed start (max_after expires start) (td_Now t) (td_Max t)) \<and>
     (cv_Decided v (td_Carry t) = Some OutcomeIdleTimeout \<longrightarrow> td_LastReset t + pl_IdleTimeout p \<le> td_Now t) \<and>
     (cv_Decided v (td_Carry t) = Some OutcomeMaxDuration \<longrightarrow> start + max_after expires start \<le> td_Now t)"

text \<open>
  What the timed loop relies on: only the timers decide for a timeout, and a decision stays. \<open>ok\<close> is an
  invariant of the carry.
\<close>

locale timed_loop =
  fixes v :: "'s carry_view" and ok :: "'s \<Rightarrow> bool"
  assumes ok_step: "ok s \<Longrightarrow> cv_Step v s s' \<Longrightarrow> ok s'"
    and decide_step: "cv_Selecting v s \<Longrightarrow> oc \<in> timeouts \<Longrightarrow> cv_Step v s (cv_Decide v oc s)"
    and decide_decided: "cv_Decided v (cv_Decide v oc s) = Some oc"
    and selecting_undecided: "cv_Selecting v s \<Longrightarrow> cv_Decided v s = None"
    and selecting_back: "cv_Step v s s' \<Longrightarrow> cv_Selecting v s' \<Longrightarrow> cv_Selecting v s"
    and decided_stays: "cv_Step v s s' \<Longrightarrow> cv_Decided v s = Some oc \<Longrightarrow> cv_Decided v s' = Some oc"
    and timeout_by_timer:
      "ok s \<Longrightarrow> cv_Step v s s' \<Longrightarrow> cv_Decided v s = None \<Longrightarrow> cv_Decided v s' = Some oc \<Longrightarrow> oc \<in> timeouts \<Longrightarrow>
       cv_Selecting v s \<and> s' \<in> {cv_Decide v OutcomeIdleTimeout s, cv_Decide v OutcomeMaxDuration s}"
begin

lemma timely_new: "ok s \<Longrightarrow> cv_Selecting v s \<Longrightarrow> timely v ok p expires start (new_timed p expires start s)"
  by (simp add: timely_def new_timed_def selecting_undecided)

lemma timely_step: "timed_step v p t t' \<Longrightarrow> timely v ok p expires start t \<Longrightarrow> timely v ok p expires start t'"
proof (erule timed_stepE, goal_cases)
  case (1 d)
  then show ?case by (auto simp: timely_def armed_run)
next
  case (2 s)
  have "cv_Decided v s = Some oc \<Longrightarrow> oc \<in> timeouts \<Longrightarrow> cv_Decided v (td_Carry t) = Some oc" for oc
    using 2 timeout_by_timer [of "td_Carry t" s oc] decided_stays [of "td_Carry t" s]
    by (cases "cv_Decided v (td_Carry t)") (auto simp: timely_def)
  with 2 show ?case
    using ok_step [of "td_Carry t" s] selecting_back [of "td_Carry t" s] by (auto simp: timely_def)
next
  case 3
  then show ?case by (auto simp: timely_def selecting_undecided intro: armed_reset)
next
  case 4
  have ns: "\<not> cv_Selecting v (cv_Decide v OutcomeIdleTimeout (td_Carry t))"
    using selecting_undecided decide_decided by fastforce
  with 4 show ?case
    using ok_step [OF _ decide_step [of "td_Carry t" OutcomeIdleTimeout]]
    by (auto simp: timely_def decide_decided armed_def)
next
  case 5
  have ns: "\<not> cv_Selecting v (cv_Decide v OutcomeMaxDuration (td_Carry t))"
    using selecting_undecided decide_decided by fastforce
  with 5 show ?case
    using ok_step [OF _ decide_step [of "td_Carry t" OutcomeMaxDuration]]
    by (auto simp: timely_def decide_decided armed_def)
qed

lemma timely_reach:
  "(timed_step v p)\<^sup>*\<^sup>* (new_timed p expires start s) t \<Longrightarrow> ok s \<Longrightarrow> cv_Selecting v s \<Longrightarrow> timely v ok p expires start t"
  by (induction rule: rtranclp_induct) (auto intro: timely_step timely_new)

text \<open>A timed run is a run of the carry.\<close>

lemma timed_refines_step: "timed_step v p t t' \<Longrightarrow> (cv_Step v)\<^sup>*\<^sup>* (td_Carry t) (td_Carry t')"
  by (erule timed_stepE) (auto intro: r_into_rtranclp decide_step)

lemma timed_refines:
  "(timed_step v p)\<^sup>*\<^sup>* (new_timed p expires start s) t \<Longrightarrow> (cv_Step v)\<^sup>*\<^sup>* s (td_Carry t)"
  by (induction rule: rtranclp_induct) (auto simp: new_timed_def intro: rtranclp_trans timed_refines_step)

lemma timeouts_due:
  assumes "(timed_step v p)\<^sup>*\<^sup>* (new_timed p expires start s) t" and "ok s" and "cv_Selecting v s"
  shows "(cv_Decided v (td_Carry t) = Some OutcomeIdleTimeout \<longrightarrow>
      td_LastMoved t + pl_IdleTimeout p \<le> td_Now t \<or> td_Activity t) \<and>
    (cv_Decided v (td_Carry t) = Some OutcomeMaxDuration \<longrightarrow> start + max_after expires start \<le> td_Now t) \<and>
    (cv_Selecting v (td_Carry t) \<longrightarrow>
      (tm_C (td_Idle t) \<longleftrightarrow> td_LastReset t + pl_IdleTimeout p \<le> td_Now t) \<and>
      (tm_C (td_Max t) \<longleftrightarrow> start + max_after expires start \<le> td_Now t))"
  using timely_reach [OF assms] by (auto simp: timely_def armed_def)

text \<open>A session in which nothing happens is timed out.\<close>

lemma idle_session_ends:
  assumes "cv_Selecting v s" and "0 < pl_IdleTimeout p"
  shows "\<exists>t. (timed_step v p)\<^sup>*\<^sup>* (new_timed p expires start s) t \<and>
    td_Carry t = cv_Decide v OutcomeIdleTimeout s \<and> td_Now t = start + pl_IdleTimeout p \<and> td_LastMoved t = start \<and>
    \<not> td_Activity t"
proof -
  let ?t = "new_timed p expires start s"
  define u where "u = ?t\<lparr> td_Now := td_Now ?t + pl_IdleTimeout p,
    td_Idle := timer_run (td_Now ?t + pl_IdleTimeout p) (td_Idle ?t),
    td_Max := timer_run (td_Now ?t + pl_IdleTimeout p) (td_Max ?t) \<rparr>"
  have "timed_step v p ?t u" unfolding u_def using assms(2) by (intro timed_step.elapse) simp
  moreover have "td_Carry u = s" "td_Now u = start + pl_IdleTimeout p" "td_LastMoved u = start" "\<not> td_Activity u"
    "tm_C (td_Idle u)"
    using assms(2) by (simp_all add: u_def new_timed_def new_timer_def timer_run_def)
  moreover from this have "timed_step v p u
      (u\<lparr> td_Carry := cv_Decide v OutcomeIdleTimeout (td_Carry u), td_Idle := (td_Idle u)\<lparr> tm_C := False \<rparr> \<rparr>)"
    using assms(1) by (intro timed_step.idle) simp_all
  ultimately show ?thesis
    by (intro exI [of _ "u\<lparr> td_Carry := cv_Decide v OutcomeIdleTimeout s, td_Idle := (td_Idle u)\<lparr> tm_C := False \<rparr> \<rparr>"])
      (auto intro: converse_rtranclp_into_rtranclp)
qed

end


definition exec_ok :: "carry \<Rightarrow> bool" where
  "exec_ok s \<longleftrightarrow> cy_Outcomes s \<notin> Some ` timeouts"

definition byte_ok :: "byte_carry \<Rightarrow> bool" where
  "byte_ok s \<longleftrightarrow> bc_Outcomes s \<notin> Some ` timeouts"

lemma classify_no_timeout [simp]:
  "classify_transport_read c st \<notin> timeouts" "classify_runtime_error e \<notin> timeouts"
  "classify_transport_read c st \<noteq> OutcomeIdleTimeout" "classify_transport_read c st \<noteq> OutcomeMaxDuration"
  "classify_runtime_error e \<noteq> OutcomeIdleTimeout" "classify_runtime_error e \<noteq> OutcomeMaxDuration"
  by (simp_all add: classify_transport_read_def classify_runtime_error_def split: close_status.split)

lemma exec_ok_signal: "oc \<notin> timeouts \<Longrightarrow> exec_ok (signal_outcome oc s) = exec_ok s"
  by (auto simp: exec_ok_def signal_outcome_def split: option.split)

lemma byte_ok_signal: "oc \<notin> timeouts \<Longrightarrow> byte_ok (signal_byte oc s) = byte_ok s"
  by (auto simp: byte_ok_def signal_byte_def split: option.split)

lemma decode_no_timeout: "decode_byte_payload m mt raw mx = Inl oc \<Longrightarrow> oc \<notin> timeouts"
  by (auto simp: decode_byte_payload_def split: if_splits sum.splits)

lemma exec_ok_step: "exec_ok s \<Longrightarrow> carry_step p s s' \<Longrightarrow> exec_ok s'"
  by (erule carry_stepE) (simp_all add: exec_ok_signal, simp_all add: exec_ok_def)

inductive_cases byte_step_cases: "byte_step p m s s'"

lemma byte_ok_step: "byte_ok s \<Longrightarrow> byte_step p m s s' \<Longrightarrow> byte_ok s'"
  by (erule byte_step_cases)
    (use decode_no_timeout in \<open>simp_all add: byte_ok_signal split: if_splits\<close>, simp_all add: byte_ok_def)

text \<open>The main loop of an exec session: a decision stays, and only its timers decide for a timeout.\<close>

lemma exec_decided_stays: "carry_step p s s' \<Longrightarrow> cy_Main s = MainDecided oc \<Longrightarrow> cy_Main s' = MainDecided oc"
  by (erule carry_stepE) simp_all

lemma exec_selecting_back: "carry_step p s s' \<Longrightarrow> cy_Main s' = MainLoop \<Longrightarrow> cy_Main s = MainLoop"
  by (erule carry_stepE) simp_all

lemma exec_timeout_by_timer:
  "carry_step p s s' \<Longrightarrow> exec_ok s \<Longrightarrow> cy_Main s' = MainDecided oc \<Longrightarrow> oc \<in> timeouts \<Longrightarrow>
     cy_Main s = MainDecided oc \<or> cy_Main s = MainLoop \<and> s' = s\<lparr> cy_Main := MainDecided oc \<rparr>"
  by (erule carry_stepE) (auto simp: exec_ok_def)

lemma exec_view_simps [simp]:
  "cv_Step (exec_view p) = carry_step p" "cv_Selecting (exec_view p) s \<longleftrightarrow> cy_Main s = MainLoop"
  "cv_Decided (exec_view p) s = Some oc \<longleftrightarrow> cy_Main s = MainDecided oc"
  "cv_Decided (exec_view p) s = None \<longleftrightarrow> (\<forall>oc. cy_Main s \<noteq> MainDecided oc)"
  "cv_Decide (exec_view p) oc s = s\<lparr> cy_Main := MainDecided oc \<rparr>"
  by (simp_all add: exec_view_def split: carry_main.split)

interpretation exec_time: timed_loop "exec_view p" exec_ok for p
proof (unfold_locales, goal_cases)
  case (1 s s')
  then show ?case by (simp add: exec_ok_step)
next
  case (2 s oc)
  then show ?case by (simp add: carry_step.main_timer)
next
  case (5 s s')
  then show ?case by (simp add: exec_selecting_back)
next
  case (6 s s' oc)
  then show ?case by (simp add: exec_decided_stays)
next
  case (7 s s' oc)
  then have "cy_Main s = MainLoop \<and> s' = s\<lparr> cy_Main := MainDecided oc \<rparr>"
    using exec_timeout_by_timer [of p s s' oc] by simp
  with \<open>oc \<in> timeouts\<close> show ?case by (elim conjE insertE) simp_all
qed simp_all

text \<open>The main loop of a byte session.\<close>

lemma byte_decided_stays: "byte_step p m s s' \<Longrightarrow> bc_Main s = ByteDecided oc \<Longrightarrow> bc_Main s' = ByteDecided oc"
  by (erule byte_step_cases) simp_all

lemma byte_selecting_back: "byte_step p m s s' \<Longrightarrow> bc_Main s' = ByteLoop \<Longrightarrow> bc_Main s = ByteLoop"
  by (erule byte_step_cases) (simp_all split: if_splits)

lemma byte_timeout_by_timer:
  "byte_step p m s s' \<Longrightarrow> byte_ok s \<Longrightarrow> bc_Main s' = ByteDecided oc \<Longrightarrow> oc \<in> timeouts \<Longrightarrow>
     bc_Main s = ByteDecided oc \<or> bc_Main s = ByteLoop \<and> s' = s\<lparr> bc_Main := ByteDecided oc \<rparr>"
  by (erule byte_step_cases) (auto simp: byte_ok_def)

lemma byte_view_simps [simp]:
  "cv_Step (byte_view p m) = byte_step p m" "cv_Selecting (byte_view p m) s \<longleftrightarrow> bc_Main s = ByteLoop"
  "cv_Decided (byte_view p m) s = Some oc \<longleftrightarrow> bc_Main s = ByteDecided oc"
  "cv_Decided (byte_view p m) s = None \<longleftrightarrow> (\<forall>oc. bc_Main s \<noteq> ByteDecided oc)"
  "cv_Decide (byte_view p m) oc s = s\<lparr> bc_Main := ByteDecided oc \<rparr>"
  by (simp_all add: byte_view_def split: byte_main.split)

interpretation byte_time: timed_loop "byte_view p m" byte_ok for p m
proof (unfold_locales, goal_cases)
  case (1 s s')
  then show ?case by (simp add: byte_ok_step)
next
  case (2 s oc)
  then show ?case by (simp add: byte_step.main_timer)
next
  case (5 s s')
  then show ?case by (simp add: byte_selecting_back)
next
  case (6 s s' oc)
  then show ?case by (simp add: byte_decided_stays)
next
  case (7 s s' oc)
  then have "bc_Main s = ByteLoop \<and> s' = s\<lparr> bc_Main := ByteDecided oc \<rparr>"
    using byte_timeout_by_timer [of p m s s' oc] by simp
  with \<open>oc \<in> timeouts\<close> show ?case by (elim conjE insertE) simp_all
qed simp_all

section \<open>The end of a carry\<close>

text \<open>
  From the decision to the return: the final message, the cancellation, a grace period for the pumps, the
  closing of the runtime stream, before or after it a longer wait. \<open>en_Pumps\<close> counts the goroutines that
  run, \<open>en_Waited\<close> the time spent in \<open>waitPumps\<close>; the other calls take any time.
\<close>

datatype end_stage =
  EndFinal | EndCancel | EndGrace | EndCloseEarly | EndCloseLate | EndWait | EndReturned

record carry_end =
  en_Stage :: end_stage
  en_Now :: time
  en_Timer :: time
  en_Pumps :: nat
  en_Cancelled :: bool
  en_Finals :: "(server_frame option \<times> (close_code \<times> string) option) list"
  en_Closes :: nat
  en_Waited :: duration

definition new_carry_end :: "time \<Rightarrow> nat \<Rightarrow> carry_end" where
  "new_carry_end now pumps =
     \<lparr> en_Stage = EndFinal, en_Now = now, en_Timer = 0, en_Pumps = pumps, en_Cancelled = False, en_Finals = [],
       en_Closes = 0, en_Waited = 0 \<rparr>"

text \<open>\<open>waitPumps\<close> may return \<open>r\<close>: with both cases of its select ready it may return either.\<close>

definition wait_pumps :: "nat \<Rightarrow> time \<Rightarrow> time \<Rightarrow> bool \<Rightarrow> bool" where
  "wait_pumps pumps deadline now r \<longleftrightarrow> (if r then pumps = 0 else deadline \<le> now)"

definition close_runtime :: "carry_end \<Rightarrow> carry_end" where
  "close_runtime e = e\<lparr> en_Closes := Suc (en_Closes e) \<rparr>"

inductive carry_end_step :: "duration \<Rightarrow> mode \<Rightarrow> outcome \<Rightarrow> carry_end \<Rightarrow> carry_end \<Rightarrow> bool"
  for wt :: duration and m :: mode and oc :: outcome where
  pump_ends: "en_Pumps e = Suc n \<Longrightarrow> carry_end_step wt m oc e (e\<lparr> en_Pumps := n \<rparr>)"
| elapse: "en_Stage e \<notin> {EndGrace, EndWait, EndReturned} \<Longrightarrow> 0 < d \<Longrightarrow>
    carry_end_step wt m oc e (e\<lparr> en_Now := en_Now e + d \<rparr>)"
| waiting: "en_Stage e \<in> {EndGrace, EndWait} \<Longrightarrow> 0 < d \<Longrightarrow> en_Now e + d \<le> en_Timer e \<Longrightarrow>
    carry_end_step wt m oc e (e\<lparr> en_Now := en_Now e + d, en_Waited := en_Waited e + d \<rparr>)"
| final: "en_Stage e = EndFinal \<Longrightarrow>
    carry_end_step wt m oc e (e\<lparr> en_Stage := EndCancel, en_Finals := en_Finals e @ [write_final True m oc] \<rparr>)"
| cancel: "en_Stage e = EndCancel \<Longrightarrow>
    carry_end_step wt m oc e
      (e\<lparr> en_Stage := EndGrace, en_Cancelled := True, en_Timer := en_Now e + grace_period wt \<rparr>)"
| graced: "en_Stage e = EndGrace \<Longrightarrow> wait_pumps (en_Pumps e) (en_Timer e) (en_Now e) r \<Longrightarrow>
    carry_end_step wt m oc e (e\<lparr> en_Stage := (if r then EndCloseEarly else EndCloseLate) \<rparr>)"
| close_early: "en_Stage e = EndCloseEarly \<Longrightarrow>
    carry_end_step wt m oc e ((close_runtime e)\<lparr> en_Stage := EndReturned \<rparr>)"
| close_late: "en_Stage e = EndCloseLate \<Longrightarrow>
    carry_end_step wt m oc e ((close_runtime e)\<lparr> en_Stage := EndWait, en_Timer := en_Now e + wt \<rparr>)"
| waited: "en_Stage e = EndWait \<Longrightarrow> wait_pumps (en_Pumps e) (en_Timer e) (en_Now e) r \<Longrightarrow>
    carry_end_step wt m oc e (e\<lparr> en_Stage := EndReturned \<rparr>)"

inductive_cases carry_end_stepE: "carry_end_step wt m oc e e'"

definition carry_end_inv :: "duration \<Rightarrow> mode \<Rightarrow> outcome \<Rightarrow> carry_end \<Rightarrow> bool" where
  "carry_end_inv wt m oc e \<longleftrightarrow>
     en_Finals e = (if en_Stage e = EndFinal then [] else [write_final True m oc]) \<and>
     (en_Cancelled e \<longleftrightarrow> en_Stage e \<notin> {EndFinal, EndCancel}) \<and>
     en_Closes e = (if en_Stage e \<in> {EndWait, EndReturned} then 1 else 0) \<and>
     (en_Stage e \<in> {EndGrace, EndWait} \<longrightarrow> en_Now e \<le> en_Timer e) \<and>
     (case en_Stage e of
        EndGrace \<Rightarrow> en_Waited e = grace_period wt - (en_Timer e - en_Now e)
      | EndCloseEarly \<Rightarrow> en_Waited e \<le> grace_period wt \<and> en_Pumps e = 0
      | EndCloseLate \<Rightarrow> en_Waited e = grace_period wt
      | EndWait \<Rightarrow> en_Waited e = grace_period wt + wt - (en_Timer e - en_Now e)
      | EndReturned \<Rightarrow> en_Waited e \<le> grace_period wt + wt \<and>
          (en_Pumps e = 0 \<or> en_Waited e = grace_period wt + wt)
      | _ \<Rightarrow> en_Waited e = 0)"

lemma grace_period_range: "0 < grace_period wt \<and> grace_period wt \<le> 10000000"
  by (simp add: grace_period_def Let_def)

lemma carry_end_inv_new [simp]: "carry_end_inv wt m oc (new_carry_end now pumps)"
  by (simp add: carry_end_inv_def new_carry_end_def)

lemma carry_end_inv_step:
  assumes "0 < wt" and "carry_end_step wt m oc e e'" and "carry_end_inv wt m oc e"
  shows "carry_end_inv wt m oc e'"
  using assms(2,3) grace_period_range [of wt] assms(1)
  by (cases rule: carry_end_step.cases)
    (auto simp: carry_end_inv_def wait_pumps_def close_runtime_def split: end_stage.splits if_splits)

lemma carry_end_inv_reach:
  "(carry_end_step wt m oc)\<^sup>*\<^sup>* (new_carry_end now pumps) e \<Longrightarrow> 0 < wt \<Longrightarrow> carry_end_inv wt m oc e"
  by (induction rule: rtranclp_induct) (auto intro: carry_end_inv_step)

text \<open>Without any help from the pumps, every state of the end leads to the return.\<close>

definition ends_with :: "duration \<Rightarrow> mode \<Rightarrow> outcome \<Rightarrow> nat \<Rightarrow> carry_end \<Rightarrow> bool" where
  "ends_with wt m oc n e \<longleftrightarrow>
     (\<exists>e'. (carry_end_step wt m oc)\<^sup>*\<^sup>* e e' \<and> en_Stage e' = EndReturned \<and> en_Pumps e' = n)"

lemma ends_step: "carry_end_step wt m oc e e' \<Longrightarrow> ends_with wt m oc n e' \<Longrightarrow> ends_with wt m oc n e"
  unfolding ends_with_def by (blast intro: converse_rtranclp_into_rtranclp)

lemma ends_returned: "en_Stage e = EndReturned \<Longrightarrow> en_Pumps e = n \<Longrightarrow> ends_with wt m oc n e"
  unfolding ends_with_def by blast

text \<open>A wait ends when its timer is due, which time alone brings about.\<close>

lemma ends_waiting:
  assumes "en_Stage e \<in> {EndGrace, EndWait}" and "en_Now e \<le> en_Timer e"
    and due: "\<And>w. ends_with wt m oc n (e\<lparr> en_Now := en_Timer e, en_Waited := w \<rparr>)"
  shows "ends_with wt m oc n e"
proof (cases "en_Now e = en_Timer e")
  case True
  have "e\<lparr> en_Now := en_Timer e, en_Waited := en_Waited e \<rparr> = e" by (simp add: True [symmetric])
  then show ?thesis using due [of "en_Waited e"] by simp
next
  case False
  with assms(2) have "carry_end_step wt m oc e
      (e\<lparr> en_Now := en_Timer e, en_Waited := en_Waited e + (en_Timer e - en_Now e) \<rparr>)"
    using carry_end_step.waiting [OF assms(1), of "en_Timer e - en_Now e" wt m oc] by simp
  then show ?thesis using due by (rule ends_step)
qed

lemma ends_wait:
  "en_Stage e = EndWait \<Longrightarrow> en_Now e \<le> en_Timer e \<Longrightarrow> en_Pumps e = n \<Longrightarrow> ends_with wt m oc n e"
  by (rule ends_waiting, simp, simp, rule ends_step [OF carry_end_step.waited [where r = False]])
    (simp_all add: wait_pumps_def ends_returned)

lemma ends_late: "en_Stage e = EndCloseLate \<Longrightarrow> 0 < wt \<Longrightarrow> en_Pumps e = n \<Longrightarrow> ends_with wt m oc n e"
  by (rule ends_step [OF carry_end_step.close_late]) (simp_all add: close_runtime_def ends_wait)

lemma ends_grace:
  "en_Stage e = EndGrace \<Longrightarrow> en_Now e \<le> en_Timer e \<Longrightarrow> 0 < wt \<Longrightarrow> en_Pumps e = n \<Longrightarrow> ends_with wt m oc n e"
  by (rule ends_waiting, simp, simp, rule ends_step [OF carry_end_step.graced [where r = False]])
    (simp_all add: wait_pumps_def ends_late)

lemma ends_cancel: "en_Stage e = EndCancel \<Longrightarrow> 0 < wt \<Longrightarrow> en_Pumps e = n \<Longrightarrow> ends_with wt m oc n e"
  using grace_period_range [of wt] by - (rule ends_step [OF carry_end_step.cancel], simp, rule ends_grace, simp_all)

lemma ends_final: "en_Stage e = EndFinal \<Longrightarrow> 0 < wt \<Longrightarrow> en_Pumps e = n \<Longrightarrow> ends_with wt m oc n e"
  by (rule ends_step [OF carry_end_step.final]) (simp_all add: ends_cancel)

lemma ends_early: "en_Stage e = EndCloseEarly \<Longrightarrow> en_Pumps e = n \<Longrightarrow> ends_with wt m oc n e"
  by (rule ends_step [OF carry_end_step.close_early]) (simp_all add: close_runtime_def ends_returned)

lemma ends_always: "carry_end_inv wt m oc e \<Longrightarrow> 0 < wt \<Longrightarrow> ends_with wt m oc (en_Pumps e) e"
  by (cases "en_Stage e")
    (simp_all add: carry_end_inv_def ends_final ends_cancel ends_grace ends_early ends_late ends_wait ends_returned)

section \<open>Properties\<close>

text \<open>
  C32: a session is timed out when, and only when, it is due. For exec and byte sessions, in every
  interleaving of pumps, main loop and clock: an idle timeout is decided only when no payload has moved
  for the idle timeout, or the signal of one that has is still unread; the maximum duration only once the
  access has expired; and as long as the loop selects, the idle timer is ready exactly when the idle
  timeout has passed since the last signal was read, and the maximum timer exactly from the expiry on.
  Every timed run is a run of the untimed carry, so the delivery properties hold of it too.
\<close>

theorem session_timeouts_due:
  assumes "(timed_step (exec_view p) p)\<^sup>*\<^sup>* (new_timed p expires start (new_carry tty)) x"
    and "(timed_step (byte_view p m) p)\<^sup>*\<^sup>* (new_timed p expires start new_byte_carry) b"
    and "start \<le> expires" and "expires - start < 2 ^ 63"
  shows "carry_reach p tty (td_Carry x) \<and> byte_reach p m (td_Carry b) \<and>
    (cy_Main (td_Carry x) = MainDecided OutcomeIdleTimeout \<longrightarrow>
       td_LastMoved x + pl_IdleTimeout p \<le> td_Now x \<or> td_Activity x) \<and>
    (bc_Main (td_Carry b) = ByteDecided OutcomeIdleTimeout \<longrightarrow>
       td_LastMoved b + pl_IdleTimeout p \<le> td_Now b \<or> td_Activity b) \<and>
    (cy_Main (td_Carry x) = MainDecided OutcomeMaxDuration \<longrightarrow> expires \<le> td_Now x) \<and>
    (bc_Main (td_Carry b) = ByteDecided OutcomeMaxDuration \<longrightarrow> expires \<le> td_Now b) \<and>
    (cy_Main (td_Carry x) = MainLoop \<longrightarrow>
       (tm_C (td_Idle x) \<longleftrightarrow> td_LastReset x + pl_IdleTimeout p \<le> td_Now x) \<and>
       (tm_C (td_Max x) \<longleftrightarrow> expires \<le> td_Now x)) \<and>
    (bc_Main (td_Carry b) = ByteLoop \<longrightarrow>
       (tm_C (td_Idle b) \<longleftrightarrow> td_LastReset b + pl_IdleTimeout p \<le> td_Now b) \<and>
       (tm_C (td_Max b) \<longleftrightarrow> expires \<le> td_Now b))"
proof -
  have "start + max_after expires start = expires"
    using assms(3,4) by (simp add: max_after_def time_sub_def)
  then show ?thesis
    using exec_time.timed_refines [OF assms(1)] byte_time.timed_refines [OF assms(2)]
      exec_time.timeouts_due [OF assms(1)] byte_time.timeouts_due [OF assms(2)]
    by (simp add: exec_ok_def byte_ok_def new_carry_def new_byte_carry_def)
qed

theorem session_timeouts_due_witness:
  "\<exists>x b. cy_Main (td_Carry x) = MainDecided OutcomeIdleTimeout \<and> bc_Main (td_Carry b) = ByteDecided OutcomeIdleTimeout \<and>
     td_LastMoved (x :: carry timed) + 5 \<le> td_Now x \<and> td_LastMoved (b :: byte_carry timed) + 5 \<le> td_Now b"
proof -
  let ?p = "\<lparr> pl_MaxMessageBytes = 10, pl_IdleTimeout = 5, pl_WriteTimeout = 1, pl_InboundQueue = 1,
    pl_OutboundQueue = 1 \<rparr>"
  obtain x where x: "(timed_step (exec_view ?p) ?p)\<^sup>*\<^sup>* (new_timed ?p 100 0 (new_carry True)) x"
      "cy_Main (td_Carry x) = MainDecided OutcomeIdleTimeout" "\<not> td_Activity x"
    using exec_time.idle_session_ends [of ?p "new_carry True" ?p 100 0] by (auto simp: new_carry_def)
  obtain b where b: "(timed_step (byte_view ?p ModeVNC) ?p)\<^sup>*\<^sup>* (new_timed ?p 100 0 new_byte_carry) b"
      "bc_Main (td_Carry b) = ByteDecided OutcomeIdleTimeout" "\<not> td_Activity b"
    using byte_time.idle_session_ends [of ?p ModeVNC new_byte_carry ?p 100 0] by (auto simp: new_byte_carry_def)
  from session_timeouts_due [OF x(1) b(1)] x(2,3) b(2,3) show ?thesis
    by (intro exI [of _ x] exI [of _ b]) simp
qed

text \<open>
  C33: a carry ends in bounded time and closes its runtime once. Whatever the pumps do, the end of a
  session waits for them at most ten milliseconds and then the write timeout; it returns with pumps still
  running only after all of that; the final message is written once, before the cancellation, and the
  runtime stream is closed exactly once, after it. From every state on the way the return is reached even
  if no pump ever ends.
\<close>

theorem carry_end_bounded:
  assumes "(carry_end_step wt m oc)\<^sup>*\<^sup>* (new_carry_end now pumps) e" and "0 < wt"
  shows "en_Waited e \<le> grace_period wt + wt \<and> grace_period wt \<le> 10000000 \<and>
    length (en_Finals e) \<le> 1 \<and> (en_Cancelled e \<longrightarrow> en_Finals e = [write_final True m oc]) \<and>
    (0 < en_Closes e \<longrightarrow> en_Cancelled e) \<and>
    (en_Stage e = EndReturned \<longrightarrow> en_Closes e = 1 \<and>
       (en_Pumps e = 0 \<or> en_Waited e = grace_period wt + wt)) \<and>
    (\<exists>e'. (carry_end_step wt m oc)\<^sup>*\<^sup>* e e' \<and> en_Stage e' = EndReturned \<and> en_Pumps e' = en_Pumps e)"
proof -
  note inv = carry_end_inv_reach [OF assms]
  have "en_Waited e \<le> grace_period wt + wt \<and> length (en_Finals e) \<le> 1 \<and>
      (en_Cancelled e \<longrightarrow> en_Finals e = [write_final True m oc]) \<and> (0 < en_Closes e \<longrightarrow> en_Cancelled e) \<and>
      (en_Stage e = EndReturned \<longrightarrow> en_Closes e = 1 \<and>
         (en_Pumps e = 0 \<or> en_Waited e = grace_period wt + wt))"
    using inv grace_period_range [of wt] assms(2) by (cases "en_Stage e") (auto simp: carry_end_inv_def)
  with ends_always [OF inv assms(2)] grace_period_range [of wt] show ?thesis by (simp add: ends_with_def)
qed

theorem carry_end_bounded_witness:
  "\<exists>e. (carry_end_step 1000000000 ModeVNC OutcomeNormal)\<^sup>*\<^sup>* (new_carry_end 0 2) e \<and> en_Stage e = EndReturned \<and>
     en_Pumps e = 2 \<and> en_Closes e = 1 \<and> en_Waited e = 1010000000"
proof -
  obtain e where e: "(carry_end_step 1000000000 ModeVNC OutcomeNormal)\<^sup>*\<^sup>* (new_carry_end 0 2) e"
      "en_Stage e = EndReturned" "en_Pumps e = 2"
    using carry_end_bounded [of 1000000000 ModeVNC OutcomeNormal 0 2 "new_carry_end 0 2"] by (auto simp: new_carry_end_def)
  from carry_end_bounded [OF e(1)] e show ?thesis by (auto simp: grace_period_def)
qed

end
