(* ===== verification/SessionService.thy ===== *)
theory SessionService
  imports SessionManager MemoryHistories
begin

text \<open>
  What the session manager guarantees, over any store for what it decides itself, and over the
  memory store for the life of a ticket: from the request that issues it to the access it is
  exchanged for.
\<close>

section \<open>Branches of Issue\<close>

lemma issue_generate_ok:
  assumes "issue_generate cr cfg rng = (Inr (ticket, ciphertext, sid), rng')"
  obtains tb nonce raw where "length tb = 32" "length nonce = 12" "length raw = 16"
    "rng = tb @ nonce @ raw @ rng'" "ticket = b64_encode b64_url tb"
    "ciphertext = nonce @ cr_Seal cr (mc_TicketKey cfg) nonce (str_bytes ticket)"
    "sid = uuid_format (uuid_bits raw)"
proof -
  obtain tb r1 where tb: "read_full 32 rng = (Inr tb, r1)"
    using assms by (auto simp: issue_generate_def split: prod.splits sum.splits)
  then obtain nonce r2 where n: "read_full 12 r1 = (Inr nonce, r2)"
    using assms by (auto simp: issue_generate_def encrypt_def Let_def split: prod.splits sum.splits)
  with tb obtain raw where raw: "read_full 16 r2 = (Inr raw, rng')"
    using assms
    by (auto simp: issue_generate_def encrypt_def random_id_def Let_def split: prod.splits sum.splits)
  show ?thesis
    using read_full_ok [OF tb] read_full_ok [OF n] read_full_ok [OF raw] assms tb n raw
    by (intro that [of tb nonce raw])
      (auto simp: issue_generate_def encrypt_def random_id_def Let_def)
qed

lemma issue_generate_enough:
  assumes "60 \<le> length rng"
  obtains ticket ciphertext sid where
    "issue_generate cr cfg rng = (Inr (ticket, ciphertext, sid), drop 60 rng)"
proof -
  have "read_full 32 rng = (Inr (take 32 rng), drop 32 rng)"
    and "read_full 12 (drop 32 rng) = (Inr (take 12 (drop 32 rng)), drop 44 rng)"
    and "read_full 16 (drop 44 rng) = (Inr (take 16 (drop 44 rng)), drop 60 rng)"
    using assms by (simp_all add: read_full_def)
  then show ?thesis
    by (intro that) (simp add: issue_generate_def encrypt_def random_id_def Let_def)
qed

lemma issue_ok:
  assumes "issue cr cfg ops r now (rng, s) = (Inr iss, label, rng', s')"
  obtains ticket ciphertext sid where "issue_admission cfg r = None"
    "issue_generate cr cfg rng = (Inr (ticket, ciphertext, sid), rng')"
    "st_CreateOrGet ops (rq_IdempotencyKey r) (issue_candidate cr cfg r now ticket ciphertext sid) s =
       (Inr (is_Session iss, is_Replayed iss), s')"
    "\<not> is_Replayed iss \<Longrightarrow> is_Ticket iss = ticket \<and> label = ''success''"
    "is_Replayed iss \<Longrightarrow> label = ''replayed'' \<and>
       (\<exists>p. decrypt cr cfg (s_TicketCiphertext (is_Session iss)) = Inr p \<and> is_Ticket iss = bytes_str p)"
proof -
  have adm: "issue_admission cfg r = None"
    using assms by (cases "issue_admission cfg r") (auto simp: issue_def)
  obtain ticket ciphertext sid where
    g: "issue_generate cr cfg rng = (Inr (ticket, ciphertext, sid), rng')"
    using assms adm
    by (cases "issue_generate cr cfg rng"; cases "fst (issue_generate cr cfg rng)")
      (auto simp: issue_def split: prod.splits sum.splits if_splits)
  show ?thesis
    using assms adm g
    by (intro that [of ticket ciphertext sid])
      (auto simp: issue_def split: prod.splits sum.splits if_splits)
qed

text \<open>The tickets and identifiers need no escaping in a URL.\<close>

lemma hex_digit_unreserved: "n < 16 \<Longrightarrow> unreserved (hex_digit n)"
  by (simp add: hex_digit_def unreserved_def Let_def)

lemma hex_encode_unreserved [simp]: "list_all unreserved (hex_encode b)"
proof (induction b)
  case (Cons a b)
  have "unat a div 16 < 16" using byte_unat_bound [of a] by linarith
  with Cons show ?case
    by (simp add: hex_encode_def hex_byte_def hex_digit_unreserved)
qed (simp add: hex_encode_def)

lemma b64_url_unreserved [simp]: "list_all unreserved (b64_encode b64_url b)"
proof -
  have "list_all unreserved b64_url"
    by (simp add: b64_url_def b64_common_def unreserved_def)
  moreover have "set (b64_encode b64_url b) \<subseteq> set b64_url"
    by (rule b64_encode_subset) simp
  ultimately show ?thesis by (auto simp: list_all_iff)
qed

lemma uuid_unreserved [simp]: "list_all unreserved (uuid_format b)"
  by (simp add: uuid_format_def) (simp add: unreserved_def)

text \<open>The shape of a generated identifier.\<close>

lemma hex_encode_append: "hex_encode (a @ b) = hex_encode a @ hex_encode b"
  by (simp add: hex_encode_def)

lemma high_nibble: "unat (b :: byte) div 16 = unat (drop_bit 4 b)"
proof -
  have "unat (drop_bit 4 b) = drop_bit 4 (unat b)" by (rule unat_drop_bit_eq)
  then show ?thesis by (simp add: drop_bit_eq_div)
qed

lemma version_nibble: "unat (or (and x 0x0f) 0x40 :: byte) div 16 = 4"
  unfolding high_nibble by (simp add: drop_bit_or drop_bit_and)

lemma variant_nibble: "unat (or (and x 0x3f) 0x80 :: byte) div 16 \<in> {8, 9, 10, 11}"
proof -
  let ?n = "take_bit 2 (unat (drop_bit 4 x :: byte))"
  have "drop_bit 4 (or (and x 0x3f) 0x80 :: byte) = or (and (drop_bit 4 x) 3) 8"
    by (simp add: drop_bit_or drop_bit_and)
  also have "and (drop_bit 4 x :: byte) 3 = take_bit 2 (drop_bit 4 x)"
    by (simp add: take_bit_eq_mask mask_eq_exp_minus_1)
  finally have "unat (or (and x 0x3f) 0x80 :: byte) div 16 = or ?n 8"
    unfolding high_nibble by (simp add: unsigned_or_eq unsigned_take_bit_eq)
  moreover have "?n < 4"
    using take_bit_nat_less_exp [of 2] by simp
  then have "?n = 0 \<or> ?n = 1 \<or> ?n = 2 \<or> ?n = 3" by linarith
  ultimately show ?thesis by auto
qed

lemma hex_digits [simp]:
  "hex_digit 4 = CHR ''4''" "hex_digit 8 = CHR ''8''" "hex_digit 9 = CHR ''9''"
  "hex_digit 10 = CHR ''a''" "hex_digit 11 = CHR ''b''"
  by code_simp+

lemma hex_encode_Nil [simp]: "hex_encode [] = []"
  by (simp add: hex_encode_def)

lemma hex_encode_Cons:
  "hex_encode (a # b) = [hex_digit (unat a div 16), hex_digit (unat a mod 16)] @ hex_encode b"
  by (simp add: hex_encode_def hex_byte_def)

lemma uuid_version:
  assumes "length raw = 16"
  shows "length (uuid_format (uuid_bits raw)) = 36 \<and>
    uuid_format (uuid_bits raw) ! 14 = CHR ''4'' \<and>
    uuid_format (uuid_bits raw) ! 19 \<in> set ''89ab''"
proof -
  have "length (take 10 raw) = 10" using assms by simp
  then obtain a0 a1 a2 a3 a4 a5 a6 a7 a8 a9 where "take 10 raw = [a0, a1, a2, a3, a4, a5, a6, a7, a8, a9]"
    by (auto simp: length_Suc_conv numeral_eq_Suc simp del: length_take)
  then have raw: "raw = [a0, a1, a2, a3, a4, a5, a6, a7, a8, a9] @ drop 10 raw"
    by (metis append_take_drop_id)
  have len: "length (drop 10 raw) = 6" using assms by simp
  obtain tl where "raw = [a0, a1, a2, a3, a4, a5, a6, a7, a8, a9] @ tl" and "length tl = 6"
    using raw len by blast
  then show ?thesis
    using version_nibble [of a6] variant_nibble [of a8]
    by (auto simp: uuid_format_def uuid_bits_def hex_encode_Cons)
qed

section \<open>The manager over the memory store\<close>

lemma mem_create_stored:
  assumes inv: "mem_inv s" and eq: "mem_CreateOrGet key c s = (Inr (st, b), s')"
  shows "mget (ms_byKey s') key = Some (s_ID st) \<and> mget (ms_sessions s') (s_ID st) = Some st \<and>
    (if b then s_State st = StateIssued \<and> s_CreatedAt c < s_TicketExpiresAt st else st = c)"
proof (cases "mget (ms_byKey (cleanup (s_CreatedAt c) s)) key")
  case None
  then show ?thesis using eq by (auto simp: mem_CreateOrGet_def Let_def)
next
  case (Some i)
  have inv': "mem_inv (cleanup (s_CreatedAt c) s)" using inv by simp
  obtain st' where st': "mget (ms_sessions (cleanup (s_CreatedAt c) s)) i = Some st'"
    by (rule index_inv_session [OF mem_inv_index [OF inv'] Some])
  then have "s_ID st' = i" using mem_inv_ok [OF inv' st'] by (simp add: session_ok_def)
  with Some st' eq show ?thesis
    by (auto simp: mem_CreateOrGet_def Let_def split: if_splits)
qed

lemma mem_claim_value:
  assumes inv: "mem_inv s" and st: "mget (ms_sessions s) sid = Some st" and c: "claimable now st"
    and ok: "mem_ClaimAndReserve sid d now lim s = (Inr l, s')"
  shows "l = lease_of sid (claimed_session (sid @ '':lease'') now lim st)"
proof -
  have "mget (ms_sessions (cleanup now s)) sid = Some st"
    using st after_cleanup_claimable [OF c] by (simp add: cleanup_sessions [OF inv])
  with ok show ?thesis
    by (auto simp: mem_ClaimAndReserve_def Let_def lease_of_def split: if_splits)
qed

text \<open>
  A fresh issue: the stored session is the candidate, and the state afterwards keeps the invariant.
\<close>

definition ttls_fit :: "manager_config \<Rightarrow> bool" where
  "ttls_fit cfg \<longleftrightarrow> 0 < mc_TicketTTL cfg \<and> 0 < mc_IdempotencyTTL cfg \<and>
     mc_TicketTTL cfg + mc_IdempotencyTTL cfg < 2 ^ 63"

lemma issue_candidate_simps [simp]:
  "s_ID (issue_candidate cr cfg r now tk ct i) = i"
  "s_State (issue_candidate cr cfg r now tk ct i) = StateIssued"
  "s_CreatedAt (issue_candidate cr cfg r now tk ct i) = now"
  "s_TicketExpiresAt (issue_candidate cr cfg r now tk ct i) = now + mc_TicketTTL cfg"
  "s_TicketDigest (issue_candidate cr cfg r now tk ct i) = cr_sha256 cr (str_bytes tk)"
  "s_TicketCiphertext (issue_candidate cr cfg r now tk ct i) = ct"
  "s_SubjectID (issue_candidate cr cfg r now tk ct i) = rq_SubjectID r"
  "s_TenantID (issue_candidate cr cfg r now tk ct i) = rq_TenantID r"
  "s_InstanceID (issue_candidate cr cfg r now tk ct i) = rq_InstanceID r"
  "s_VMBinding (issue_candidate cr cfg r now tk ct i) = rq_VMBinding r"
  "s_WorkloadKind (issue_candidate cr cfg r now tk ct i) = rq_WorkloadKind r"
  "s_Mode (issue_candidate cr cfg r now tk ct i) = rq_Mode r"
  "s_RequestFingerprint (issue_candidate cr cfg r now tk ct i) = fingerprint (cr_sha256 cr) r"
  "ttls_fit cfg \<Longrightarrow> s_TombstoneExpiresAt (issue_candidate cr cfg r now tk ct i) =
     now + (mc_TicketTTL cfg + mc_IdempotencyTTL cfg)"
  by (simp_all add: issue_candidate_def ttls_fit_def dur_add_def wrap64_id)

lemma issue_fresh:
  assumes inv: "mem_inv s" and iss: "issue cr cfg memory_ops r now (rng, s) = (Inr iss, label, rng', s1)"
    and new: "\<not> is_Replayed iss" and absent: "mem_phase s (s_ID (is_Session iss)) = Absent"
  obtains ciphertext where
    "is_Session iss = issue_candidate cr cfg r now (is_Ticket iss) ciphertext (s_ID (is_Session iss))"
    "issue_generate cr cfg rng = (Inr (is_Ticket iss, ciphertext, s_ID (is_Session iss)), rng')"
    "mem_inv s1" "mget (ms_sessions s1) (s_ID (is_Session iss)) = Some (is_Session iss)"
    "mget (ms_byKey s1) (rq_IdempotencyKey r) = Some (s_ID (is_Session iss))"
proof -
  obtain ticket ct sid where g: "issue_generate cr cfg rng = (Inr (ticket, ct, sid), rng')"
    and c: "mem_CreateOrGet (rq_IdempotencyKey r) (issue_candidate cr cfg r now ticket ct sid) s =
      (Inr (is_Session iss, is_Replayed iss), s1)" and tk: "is_Ticket iss = ticket"
    using new by (rule_tac issue_ok [OF iss]) auto
  have sess: "is_Session iss = issue_candidate cr cfg r now ticket ct sid"
    and found: "mget (ms_sessions s1) (s_ID (is_Session iss)) = Some (is_Session iss)"
      "mget (ms_byKey s1) (rq_IdempotencyKey r) = Some (s_ID (is_Session iss))"
    using mem_create_stored [OF inv c] new by metis+
  have "mget (ms_sessions s) sid = None"
    using absent sess by (simp add: mem_phase_Absent_iff)
  then have "mem_inv s1"
    using mem_CreateOrGet_inv [OF inv, of "issue_candidate cr cfg r now ticket ct sid" "rq_IdempotencyKey r"] c
    by simp
  with g sess found tk show ?thesis by (intro that [of ct]) simp_all
qed

lemma decrypt_issued:
  assumes "issue_generate cr cfg rng = (Inr (ticket, ciphertext, sid), rng')"
    and "\<And>n p. cr_Open cr (mc_TicketKey cfg) n (cr_Seal cr (mc_TicketKey cfg) n p) = Some p"
  shows "decrypt cr cfg ciphertext = Inr (str_bytes ticket)"
  using assms(2) by (rule_tac issue_generate_ok [OF assms(1)]) (simp add: decrypt_def)

section \<open>A concrete issue\<close>

text \<open>
  Concrete parameters: a hash and a cipher that are the identity, so that decryption inverts
  encryption and different tickets have different digests.
\<close>

definition demo_crypto :: crypto where
  "demo_crypto = \<lparr> cr_sha256 = (\<lambda>b. b), cr_Seal = (\<lambda>k n p. p), cr_Open = (\<lambda>k n c. Some c) \<rparr>"

definition demo_config :: manager_config where
  "demo_config = \<lparr> mc_InstanceValidator = None, mc_VMValidator = Some (\<lambda>b. None),
     mc_PublicWSBaseURL = Some \<lparr> bu_Scheme = ''wss'', bu_Host = ''gw'', bu_Path = ''/api/v1/realtime'',
       bu_Query = [] \<rparr>,
     mc_TicketKey = replicate 32 1, mc_TicketTTL = 60, mc_SessionMaxDuration = 900,
     mc_IdempotencyTTL = 900, mc_MaxActive = 2, mc_MaxActivePerSubject = 1 \<rparr>"

definition demo_vnc_binding :: vm_binding where
  "demo_vnc_binding = \<lparr> vb_Enabled = True, vb_TenantID = ''tenant-a'', vb_VMID = ''instance-a'',
     vb_Version = 3, vb_ClusterID = ''c'', vb_Namespace = ''ns'', vb_VMName = ''workload-a'',
     vb_VMUID = ''u1'', vb_VMIName = ''workload-a'', vb_VMIUID = ''u2'', vb_NamespaceUID = ''u3'' \<rparr>"

definition demo_vnc_request :: request where
  "demo_vnc_request = demo_request\<lparr> rq_VMBinding := demo_vnc_binding, rq_WorkloadKind := WorkloadVM,
     rq_Mode := ModeVNC, rq_Command := [] \<rparr>"

definition demo_random :: bytes where
  "demo_random = replicate 120 5"

lemma demo_admitted: "issue_admission demo_config demo_vnc_request = None"
  by (simp add: issue_admission_def validate_request_def demo_vnc_request_def demo_request_def
      demo_vnc_binding_def demo_config_def valid_vm_binding_def zero_instance_binding_def Let_def)

lemma demo_issued_for:
  assumes "issue_admission cfg r = None" and "rq_IdempotencyKey r = ''idem''"
  obtains iss where
    "issue demo_crypto cfg memory_ops r 0 (demo_random, new_mem_store) =
      (Inr iss, ''success'', drop 60 demo_random,
       \<lparr> ms_sessions = [(s_ID (is_Session iss), is_Session iss)],
         ms_byKey = [(''idem'', s_ID (is_Session iss))], ms_leases = [] \<rparr>)"
    "\<not> is_Replayed iss" "mem_phase new_mem_store (s_ID (is_Session iss)) = Absent"
    "s_State (is_Session iss) = StateIssued"
proof -
  have "60 \<le> length demo_random" by (simp add: demo_random_def)
  then obtain tk ct sid where
    g: "issue_generate demo_crypto cfg demo_random = (Inr (tk, ct, sid), drop 60 demo_random)"
    by (rule issue_generate_enough)
  show ?thesis
    using g assms
    by (intro that [of "\<lparr> is_Session = issue_candidate demo_crypto cfg r 0 tk ct sid,
          is_Ticket = tk, is_Replayed = False \<rparr>"])
      (simp_all add: issue_def mem_CreateOrGet_def Let_def cleanup_def cleanup_in_order_def new_mem_store_def
        mput_fresh mem_phase_def)
qed

lemma demo_issued_by:
  assumes "issue_admission cfg demo_vnc_request = None"
  obtains iss where
    "issue demo_crypto cfg memory_ops demo_vnc_request 0 (demo_random, new_mem_store) =
      (Inr iss, ''success'', drop 60 demo_random,
       \<lparr> ms_sessions = [(s_ID (is_Session iss), is_Session iss)],
         ms_byKey = [(''idem'', s_ID (is_Session iss))], ms_leases = [] \<rparr>)"
    "\<not> is_Replayed iss" "mem_phase new_mem_store (s_ID (is_Session iss)) = Absent"
  by (rule demo_issued_for [OF assms]) (simp_all add: demo_vnc_request_def demo_request_def)

lemmas demo_issued = demo_issued_by [OF demo_admitted]

lemma demo_ttls: "ttls_fit demo_config"
  by (simp add: ttls_fit_def demo_config_def)

section \<open>Properties\<close>

definition well_formed_request :: "request \<Rightarrow> bool" where
  "well_formed_request r \<longleftrightarrow>
     rq_IdempotencyKey r \<noteq> [] \<and> rq_TenantID r \<noteq> [] \<and> rq_SubjectID r \<noteq> [] \<and>
     rq_InstanceID r \<noteq> [] \<and> rq_WorkloadName r \<noteq> [] \<and>
     (case rq_Mode r of
        ModeExec \<Rightarrow>
          rq_WorkloadKind r \<in> {WorkloadContainer, WorkloadGPUContainer, WorkloadSandbox} \<and>
          unat (rq_Rows r) \<in> {1..4096} \<and> unat (rq_Cols r) \<in> {1..4096} \<and>
          \<not> vb_Enabled (rq_VMBinding r) \<and>
          (let b = rq_InstanceBinding r in ib_Enabled b \<longrightarrow>
             ib_Version b \<ge> 1 \<and> ib_ContainerName b = rq_Container r \<and>
             [] \<notin> {ib_ClusterID b, ib_Namespace b, ib_NotebookName b, ib_NotebookUID b, ib_PodName b,
                   ib_PodUID b, ib_Shell b})
      | ModeSerial \<Rightarrow>
          rq_WorkloadKind r = WorkloadVM \<and> \<not> vb_Enabled (rq_VMBinding r) \<and>
          \<not> ib_Enabled (rq_InstanceBinding r)
      | ModeVNC \<Rightarrow>
          rq_WorkloadKind r = WorkloadVM \<and> \<not> ib_Enabled (rq_InstanceBinding r) \<and>
          (let b = rq_VMBinding r in vb_Enabled b \<longrightarrow>
             vb_TenantID b = rq_TenantID r \<and> vb_VMID b = rq_InstanceID r \<and>
             vb_VMName b = rq_WorkloadName r \<and> vb_Version b \<ge> 1 \<and>
             [] \<notin> {vb_ClusterID b, vb_Namespace b, vb_VMUID b, vb_VMIName b, vb_VMIUID b, vb_NamespaceUID b})
      | ModeOther _ \<Rightarrow> False)"

lemma size_bounds: "w = 0 \<or> 4096 < w \<longleftrightarrow> unat w \<notin> {1..4096}" for w :: u16
  by (auto simp: word_less_nat_alt not_less Suc_le_eq unat_gt_0)

lemma validate_exec:
  assumes m: "rq_Mode r = ModeExec"
  shows "validate_request r = None \<longleftrightarrow> well_formed_request r"
proof -
  have e: "rq_Rows r = 0 \<or> rq_Cols r = 0 \<or> rq_Rows r > 4096 \<or> rq_Cols r > 4096 \<longleftrightarrow>
      \<not> (unat (rq_Rows r) \<in> {1..4096} \<and> unat (rq_Cols r) \<in> {1..4096})"
    using size_bounds [of "rq_Rows r"] size_bounds [of "rq_Cols r"] by blast
  show ?thesis
    unfolding validate_request_def well_formed_request_def m e Let_def mode.case
    by (simp del: atLeastAtMost_iff add: not_less eq_commute [of "[]"] split: if_splits) auto
qed

lemma validate_console:
  assumes "rq_Mode r \<noteq> ModeExec"
  shows "validate_request r = None \<longleftrightarrow> well_formed_request r"
  using assms
  by (cases "rq_Mode r")
    (auto simp: validate_request_def well_formed_request_def valid_vm_binding_def Let_def)

lemma validate_well_formed: "validate_request r = None \<longleftrightarrow> well_formed_request r"
  using validate_exec validate_console by blast

text \<open>
  Validation accepts exactly the well-formed requests. Read mode by mode: an exec request names
  a container workload, a terminal size from 1 to 4096 and possibly a complete instance binding for
  its container; a serial console carries no binding; a VNC console may carry a VM binding, and then
  the binding is complete and names the request's own tenant, instance and workload.
\<close>

lemma validate_request_exact: "validate_request r = None \<longleftrightarrow> well_formed_request r"
  by (rule validate_well_formed)

lemma issue_requires_authority_any:
  assumes "issue cr cfg ops r now (rng, s) = (Inr iss, label, rng', s')"
  shows "well_formed_request r \<and>
    (ib_Enabled (rq_InstanceBinding r) \<longrightarrow> (\<exists>validate. mc_InstanceValidator cfg = Some validate \<and>
       validate (rq_TenantID r) (rq_InstanceID r) (rq_InstanceBinding r) = None)) \<and>
    (vb_Enabled (rq_VMBinding r) \<longrightarrow> (\<exists>validate. mc_VMValidator cfg = Some validate \<and>
       validate (rq_VMBinding r) = None)) \<and>
    (mc_VMValidator cfg \<noteq> None \<and> rq_Mode r = ModeVNC \<longrightarrow> vb_Enabled (rq_VMBinding r))"
proof -
  have adm: "issue_admission cfg r = None"
    by (rule issue_ok [OF assms])
  then have "validate_request r = None"
    by (simp add: issue_admission_def split: option.splits)
  then have "well_formed_request r"
    by (simp add: validate_well_formed)
  with adm show ?thesis
    by (auto simp: issue_admission_def split: option.splits if_splits)
qed

text \<open>
  C15: nothing is issued without authority. Over any store, a request that is issued is well formed;
  a managed instance or VM binding was accepted by the configured validator; and where VM console
  authority is configured no unbound VNC session is issued.
\<close>

theorem issue_requires_authority:
  assumes "issue cr cfg ops r now (rng, s) = (Inr iss, label, rng', s')"
  shows "well_formed_request r \<and>
    (ib_Enabled (rq_InstanceBinding r) \<longrightarrow> (\<exists>validate. mc_InstanceValidator cfg = Some validate \<and>
       validate (rq_TenantID r) (rq_InstanceID r) (rq_InstanceBinding r) = None)) \<and>
    (vb_Enabled (rq_VMBinding r) \<longrightarrow> (\<exists>validate. mc_VMValidator cfg = Some validate \<and>
       validate (rq_VMBinding r) = None)) \<and>
    (mc_VMValidator cfg \<noteq> None \<and> rq_Mode r = ModeVNC \<longrightarrow> vb_Enabled (rq_VMBinding r))"
  by (rule issue_requires_authority_any [OF assms])

theorem issue_requires_authority_witness:
  "well_formed_request demo_vnc_request \<and> (\<exists>v. mc_VMValidator demo_config = Some v \<and> v demo_vnc_binding = None)"
proof -
  obtain iss where
    "issue demo_crypto demo_config memory_ops demo_vnc_request 0 (demo_random, new_mem_store) =
      (Inr iss, ''success'', drop 60 demo_random,
       \<lparr> ms_sessions = [(s_ID (is_Session iss), is_Session iss)],
         ms_byKey = [(''idem'', s_ID (is_Session iss))], ms_leases = [] \<rparr>)"
    by (rule demo_issued)
  from issue_requires_authority [OF this] show ?thesis
    by (simp add: demo_vnc_request_def demo_vnc_binding_def)
qed

text \<open>What a claim of a session issued for \<open>r\<close> returns.\<close>

definition granted_access :: "manager_config \<Rightarrow> request \<Rightarrow> string \<Rightarrow> time \<Rightarrow> claimed_access" where
  "granted_access cfg r sid t =
     \<lparr> ca_SessionID = sid, ca_LeaseID = sid @ '':lease'', ca_ExpiresAt = t + mc_SessionMaxDuration cfg,
       ca_Identity = \<lparr> id_TenantID = rq_TenantID r, id_SubjectID = rq_SubjectID r,
                       id_InstanceID = rq_InstanceID r \<rparr>,
       ca_Target = \<lparr> tg_InstanceBinding = rq_InstanceBinding r, tg_VMBinding = rq_VMBinding r,
                     tg_WorkloadName = rq_WorkloadName r, tg_WorkloadKind = rq_WorkloadKind r \<rparr>,
       ca_Mode = rq_Mode r,
       ca_Exec = (if rq_Mode r = ModeExec
                  then Some \<lparr> eo_Container = rq_Container r, eo_Command = rq_Command r, eo_TTY = rq_TTY r,
                              eo_Size = \<lparr> ts_Rows = rq_Rows r, ts_Cols = rq_Cols r \<rparr> \<rparr>
                  else None) \<rparr>"

lemma config_limits_simps [simp]:
  "cl_MaxActive (config_limits cfg) = mc_MaxActive cfg"
  "cl_MaxActivePerSubject (config_limits cfg) = mc_MaxActivePerSubject cfg"
  "cl_SessionMaxDuration (config_limits cfg) = mc_SessionMaxDuration cfg"
  "cl_IdempotencyTTL (config_limits cfg) = mc_IdempotencyTTL cfg"
  by (simp_all add: config_limits_def)

lemma access_of_claimed:
  "access_of_lease (lease_of sid (claimed_session (sid @ '':lease'') t (config_limits cfg)
     (issue_candidate cr cfg r now tk ct sid))) = granted_access cfg r sid t"
  by (simp add: access_of_lease_def granted_access_def lease_of_def claimed_session_def
      issue_candidate_def Let_def)

context session_store
begin

lemma claim_not_issued:
  assumes "inv s" and "\<And>d. phase_of s sid \<noteq> PIssued d"
  shows "\<not> is_ok (fst (claim cr cfg ops sid tk t s))"
proof -
  obtain res s' where take: "st_ClaimAndReserve ops sid (cr_sha256 cr (str_bytes tk)) t (config_limits cfg) s = (res, s')"
    by fastforce
  show ?thesis
  proof (cases res)
    case (Inl e)
    with take show ?thesis by (simp add: claim_def)
  next
    case (Inr l)
    with claim_ok [OF assms(1)] take assms(2) show ?thesis by blast
  qed
qed

end

text \<open>A fresh ticket presented in time, while there is capacity, claims the session it was issued for.\<close>

lemma fresh_ticket_claims:
  assumes "mem_reachable s" and "ttls_fit cfg"
    and "issue cr cfg memory_ops r now (rng, s) = (Inr iss, label, rng', s1)"
    and "\<not> is_Replayed iss" and "mem_phase s (s_ID (is_Session iss)) = Absent"
    and "t < now + mc_TicketTTL cfg"
    and "int (card (active_ids t s1)) < mc_MaxActive cfg"
    and "int (card (active_ids_of (rq_SubjectID r) t s1)) < mc_MaxActivePerSubject cfg"
  shows "\<exists>s2. claim cr cfg memory_ops (s_ID (is_Session iss)) (is_Ticket iss) t s1 =
       (Inr (granted_access cfg r (s_ID (is_Session iss)) t), ''success'', s2) \<and> mem_inv s2 \<and>
     (\<forall>d. mem_phase s2 (s_ID (is_Session iss)) \<noteq> PIssued d)"
proof -
  let ?sid = "s_ID (is_Session iss)" and ?lim = "config_limits cfg"
  let ?d = "cr_sha256 cr (str_bytes (is_Ticket iss))"
  obtain ct where st: "is_Session iss = issue_candidate cr cfg r now (is_Ticket iss) ct ?sid"
    and inv: "mem_inv s1" and found: "mget (ms_sessions s1) ?sid = Some (is_Session iss)"
    by (rule issue_fresh [OF reachable_mem_inv [OF assms(1)] assms(3,4,5)])
  have c: "claimable t (is_Session iss)"
    using assms(2,6) by (subst st, subst claimable_def) (simp add: ttls_fit_def)
  have "s_TicketDigest (is_Session iss) = ?d" and subj: "s_SubjectID (is_Session iss) = rq_SubjectID r"
    by (subst st, simp)+
  then have "is_ok (fst (mem_ClaimAndReserve ?sid ?d t ?lim s1))"
    unfolding mem_claim_iff [OF inv] using found c assms(7,8) by auto
  then obtain l s2 where l: "mem_ClaimAndReserve ?sid ?d t ?lim s1 = (Inr l, s2)"
    by (metis prod.collapse)
  have "l = lease_of ?sid (claimed_session (?sid @ '':lease'') t ?lim (is_Session iss))"
    by (rule mem_claim_value [OF inv found c l])
  then have "access_of_lease l = granted_access cfg r ?sid t"
    using access_of_claimed st by metis
  then have "claim cr cfg memory_ops ?sid (is_Ticket iss) t s1 =
      (Inr (granted_access cfg r ?sid t), ''success'', s2)"
    using l by (simp add: claim_def observe_result_def)
  moreover have "mem_inv s2" "mem_phase s2 ?sid \<noteq> PIssued d" for d
    using mem_ClaimAndReserve_inv [OF inv, of ?sid ?d t ?lim] l mem_ClaimAndReserve_phase(2) [OF inv l] by simp_all
  ultimately show ?thesis by blast
qed

text \<open>
  A ticket buys exactly the access it was issued for, once. A ticket issued under a fresh
  identifier and presented before it expires, while there is capacity, is exchanged for an access
  that carries the request's own tenant, subject, target, mode and terminal options; afterwards no
  ticket at all is accepted for that session.
\<close>

lemma ticket_buys_access_once:
  assumes "mem_reachable s" and "ttls_fit cfg"
    and "issue cr cfg memory_ops r now (rng, s) = (Inr iss, label, rng', s1)"
    and "\<not> is_Replayed iss" and "mem_phase s (s_ID (is_Session iss)) = Absent"
    and "t < now + mc_TicketTTL cfg"
    and "int (card (active_ids t s1)) < mc_MaxActive cfg"
    and "int (card (active_ids_of (rq_SubjectID r) t s1)) < mc_MaxActivePerSubject cfg"
  shows "\<exists>s2. claim cr cfg memory_ops (s_ID (is_Session iss)) (is_Ticket iss) t s1 =
       (Inr (granted_access cfg r (s_ID (is_Session iss)) t), ''success'', s2) \<and>
     (\<forall>ticket t'. \<not> is_ok (fst (claim cr cfg memory_ops (s_ID (is_Session iss)) ticket t' s2)))"
  using fresh_ticket_claims [OF assms] mem.claim_not_issued by blast





lemma mem_replay:
  assumes "replay cr cfg memory_ops q t1 t2 s = (res, s')"
  shows "s' = s \<and> (\<forall>iss. res = Inr iss \<longrightarrow>
    mem_GetByKey (rr_IdempotencyKey q) s = (Inr (is_Session iss), s) \<and> is_Replayed iss \<and>
    s_TenantID (is_Session iss) = rr_TenantID q \<and> s_SubjectID (is_Session iss) = rr_SubjectID q \<and>
    s_InstanceID (is_Session iss) = rr_InstanceID q \<and> s_Mode (is_Session iss) = ModeVNC \<and>
    vb_Enabled (s_VMBinding (is_Session iss)) \<and>
    vb_Version (s_VMBinding (is_Session iss)) = rr_ExpectedVersion q \<and> rr_ExpectedVersion q \<ge> 1 \<and>
    s_State (is_Session iss) = StateIssued \<and> t2 < s_TicketExpiresAt (is_Session iss))"
proof -
  obtain g s1 where g: "mem_GetByKey (rr_IdempotencyKey q) s = (g, s1)" by fastforce
  then have "s1 = s" using mem_GetByKey_state [of "rr_IdempotencyKey q" s] by simp
  with assms g show ?thesis
    by (auto simp: replay_def split: if_splits sum.splits)
qed

text \<open>
  A replay only reads. Whatever is asked and whatever the answer, the memory store is left as it
  was; and an answer is given only to the session's own tenant and subject, for the asked instance
  and binding version, while the session is an unclaimed VNC session whose ticket has not expired.
\<close>

lemma replay_read_only:
  assumes "replay cr cfg memory_ops q t1 t2 s = (res, s')"
  shows "s' = s \<and> (\<forall>iss. res = Inr iss \<longrightarrow>
    mem_GetByKey (rr_IdempotencyKey q) s = (Inr (is_Session iss), s) \<and> is_Replayed iss \<and>
    s_TenantID (is_Session iss) = rr_TenantID q \<and> s_SubjectID (is_Session iss) = rr_SubjectID q \<and>
    s_InstanceID (is_Session iss) = rr_InstanceID q \<and> s_Mode (is_Session iss) = ModeVNC \<and>
    vb_Enabled (s_VMBinding (is_Session iss)) \<and>
    vb_Version (s_VMBinding (is_Session iss)) = rr_ExpectedVersion q \<and> rr_ExpectedVersion q \<ge> 1 \<and>
    s_State (is_Session iss) = StateIssued \<and> t2 < s_TicketExpiresAt (is_Session iss))"
  by (rule mem_replay [OF assms])

text \<open>The identifier and the ticket of a fresh issue need no escaping in a URL.\<close>

lemma issued_texts_plain:
  assumes gen: "issue_generate cr cfg rng = (Inr (is_Ticket iss, ct, s_ID (is_Session iss)), rng')"
  shows "list_all unreserved (is_Ticket iss)" and "list_all unreserved (s_ID (is_Session iss))"
proof -
  obtain tb raw where "is_Ticket iss = b64_encode b64_url tb" and "s_ID (is_Session iss) = uuid_format (uuid_bits raw)"
    "length raw = 16"
    by (rule issue_generate_ok [OF gen])
  then show "list_all unreserved (is_Ticket iss)" "list_all unreserved (s_ID (is_Session iss))" by simp_all
qed

text \<open>
  The connect URL hands out exactly the session identifier and the ticket. For a fresh issue and
  a base URL without a query the URL is the base, the path \<open>/sessions/\<close> with a 36-character version
  4 UUID, and a query that a server parses back to the 43-character ticket.
\<close>

lemma connect_url_carries_ticket:
  assumes gen: "issue_generate cr cfg rng = (Inr (is_Ticket iss, ct, s_ID (is_Session iss)), rng')"
    and base: "mc_PublicWSBaseURL cfg = Some u" "bu_Query u = []"
  shows "connect_url cfg iss =
      bu_Scheme u @ ''://'' @ url_escape EncodeHost (bu_Host u) @ url_escape EncodePath (trim_suffix (bu_Path u) ''/'') @ ''/sessions/'' @
      s_ID (is_Session iss) @ ''?ticket='' @ is_Ticket iss \<and>
    values_Get ''ticket'' (parse_query (''ticket='' @ is_Ticket iss)) = is_Ticket iss \<and>
    length (is_Ticket iss) = 43 \<and> length (s_ID (is_Session iss)) = 36 \<and>
    s_ID (is_Session iss) ! 14 = CHR ''4'' \<and> s_ID (is_Session iss) ! 19 \<in> set ''89ab''"
proof -
  obtain tb raw where tb: "length tb = 32" "is_Ticket iss = b64_encode b64_url tb"
    and raw: "length raw = 16" "s_ID (is_Session iss) = uuid_format (uuid_bits raw)"
    by (rule issue_generate_ok [OF gen])
  note plain = issued_texts_plain [OF gen]
  have "values_Get ''ticket'' (parse_query (''ticket='' @ is_Ticket iss)) = is_Ticket iss"
    using parse_query_single [OF plain(1), of "''ticket''"] by (simp add: unreserved_def)
  moreover have "url_escape EncodePath ''/sessions/'' = ''/sessions/''"
    by code_simp
  then have path: "url_escape EncodePath (CHR ''/'' # CHR ''s'' # CHR ''e'' # CHR ''s'' # CHR ''s'' # CHR ''i'' #
      CHR ''o'' # CHR ''n'' # CHR ''s'' # CHR ''/'' # s_ID (is_Session iss)) = ''/sessions/'' @ s_ID (is_Session iss)"
    using url_escape_append [of EncodePath "''/sessions/''" "s_ID (is_Session iss)"] plain
    by (simp add: url_escape_unreserved)
  moreover have "connect_url cfg iss =
      bu_Scheme u @ ''://'' @ url_escape EncodeHost (bu_Host u) @ url_escape EncodePath (trim_suffix (bu_Path u) ''/'') @ ''/sessions/'' @
      s_ID (is_Session iss) @ ''?ticket='' @ is_Ticket iss"
    using base plain path url_escape_unreserved [of "''ticket''" EncodeQueryComponent]
    by (simp add: unreserved_def connect_url_def url_string_def values_Set_def values_Encode_def mput_fresh
        url_escape_unreserved url_escape_append)
  ultimately show ?thesis
    using uuid_version [OF raw(1)] by (simp add: tb length_b64_encode flip: raw(2))
qed

end
