(* ===== verification/WebsocketAdmission.thy ===== *)
theory WebsocketAdmission
  imports ConnectedSession SessionService
begin

text \<open>
  \<open>internal/transport/websocket/handler.go\<close>: the admission of a WebSocket. The request is its origin,
  its subprotocol header, the raw query and the session identifier the router found in the path. The
  upgrade itself belongs to the WebSocket library: \<open>accept\<close> says whether it succeeds with the offered
  subprotocol. The deferred release of the lease runs on every return after the claim until the
  connection is handed to the connected session.
\<close>

section \<open>Checks\<close>

definition is_space :: "char \<Rightarrow> bool" where
  "is_space c \<longleftrightarrow> of_char c \<in> {9 :: nat, 10, 11, 12, 13, 32}"

definition trim_space :: "string \<Rightarrow> string" where
  "trim_space s = rev (dropWhile is_space (rev (dropWhile is_space s)))"

definition origin_allowed :: "(string, unit) gomap \<Rightarrow> string \<Rightarrow> bool" where
  "origin_allowed allowed origin = (mget allowed origin \<noteq> None \<and> origin \<noteq> [])"

fun any_offered :: "string \<Rightarrow> string list \<Rightarrow> bool" where
  "any_offered expected [] = False"
| "any_offered expected (c # cs) = (if trim_space c = expected then True else any_offered expected cs)"

definition offers_subprotocol :: "string \<Rightarrow> string \<Rightarrow> bool" where
  "offers_subprotocol raw expected = any_offered expected (split_on (CHR '','') raw)"

abbreviation TerminalSubprotocol :: string where "TerminalSubprotocol \<equiv> ''ani.terminal.v1''"
abbreviation VNCSubprotocol :: string where "VNCSubprotocol \<equiv> ''ani.vnc.v1''"

definition offers_known_subprotocol :: "string \<Rightarrow> bool" where
  "offers_known_subprotocol raw =
     (offers_subprotocol raw TerminalSubprotocol \<or> offers_subprotocol raw VNCSubprotocol)"

definition claim_error_status :: "error \<Rightarrow> nat \<times> string" where
  "claim_error_status e =
     (if errors_is e ErrNotFound then (404, ''session not found'')
      else if errors_is e ErrInvalidTicket then (403, ''session ticket rejected'')
      else if errors_is e ErrCapacity then (429, ''session capacity exhausted'')
      else if errors_is e ErrUnavailable then (503, ''session store unavailable'')
      else (422, ''session is no longer claimable''))"

section \<open>ServeHTTP\<close>

record ws_request =
  wr_Origin :: string
  wr_Protocols :: string
  wr_RawQuery :: string
  wr_SessionID :: string

datatype ws_reply =
    HttpError nat string
  | UpgradeFailed
  | SessionRun outcome

definition new_handler :: "bool \<Rightarrow> (string, unit) gomap \<Rightarrow> duration \<Rightarrow> unit result" where
  "new_handler deps_present allowed cleanup_timeout =
     (if \<not> deps_present \<or> length allowed = 0 \<or> cleanup_timeout \<le> 0
      then Inl (ErrText ''manager, Connected Session module, origins and cleanup timeout are required'')
      else Inr ())"

definition expected_subprotocol :: "mode \<Rightarrow> string" where
  "expected_subprotocol m = (if m = ModeVNC then VNCSubprotocol else TerminalSubprotocol)"

text \<open>The clock readings are those of the claim, of the connection, of the release and of the end.\<close>

definition serve_http ::
  "crypto \<Rightarrow> manager_config \<Rightarrow> (string, unit) gomap \<Rightarrow> 's store_ops \<Rightarrow> ('x, 'b) runtimes \<Rightarrow> (string \<Rightarrow> bool)
     \<Rightarrow> ws_request \<Rightarrow> time \<Rightarrow> time \<Rightarrow> time \<Rightarrow> time \<Rightarrow> 's \<Rightarrow> ws_reply \<times> observed list \<times> 's" where
  "serve_http cr cfg allowed ops rt accept r claimAt connectAt closeAt finishAt s =
     (if \<not> origin_allowed allowed (wr_Origin r) then (HttpError 403 ''origin is not allowed'', [], s)
      else if \<not> offers_known_subprotocol (wr_Protocols r)
      then (HttpError 400 ''supported WebSocket subprotocol is required'', [], s)
      else
        (let ticket = values_Get ''ticket'' (parse_query (wr_RawQuery r)) in
         if ticket = [] then (HttpError 401 ''session ticket is required'', [], s)
         else
           (case claim cr cfg ops (wr_SessionID r) ticket claimAt s of
              (Inl e, _, s1) \<Rightarrow> (HttpError (fst (claim_error_status e)) (snd (claim_error_status e)), [], s1)
            | (Inr access, _, s1) \<Rightarrow>
                let release = (\<lambda>reason. snd (close_session ops (ca_SessionID access) (ca_LeaseID access)
                                  reason closeAt s1));
                    expected = expected_subprotocol (ca_Mode access)
                in
                  if \<not> offers_subprotocol (wr_Protocols r) expected
                  then (HttpError 400 ''session subprotocol does not match mode'', [],
                        release ''subprotocol_rejected'')
                  else if \<not> accept expected
                  then (UpgradeFailed, [], release ''upgrade_failed'')
                  else
                    (case run_module ops rt \<lparr> ac_Access = access, ac_Socket = Some expected \<rparr>
                            connectAt closeAt finishAt s1 of
                       (oc, obs, _, s2) \<Rightarrow> (SessionRun oc, obs, s2)))))"

section \<open>Release of the lease\<close>

lemma mem_close_claimed:
  assumes inv: "mem_inv s" and ph: "lives (PClaimed lid) (mem_phase s sid)"
  shows "mem_phase (snd (mem_CloseAndRelease sid lid reason now s)) sid \<in> {PClosed, Absent}"
proof -
  let ?s = "cleanup now s"
  have inv': "mem_inv ?s" using inv by simp
  have "lives (PClaimed lid) (mem_phase ?s sid)"
    using ph lives_cleanup [OF inv] rtranclp_trans by metis
  then consider "mem_phase ?s sid = PClaimed lid" | "mem_phase ?s sid = PClosed" | "mem_phase ?s sid = Absent"
    using lives_PClaimed_iff by blast
  then show ?thesis
  proof cases
    case 1
    then obtain st where st: "mget (ms_sessions ?s) sid = Some st" "session_phase st = PClaimed lid"
      by (auto simp: mem_phase_def split: option.splits)
    then have "s_State st = StateClaimed" "s_LeaseID st = lid"
      by (auto simp: session_phase_def split: session_state.splits)
    with st show ?thesis by (simp add: mem_CloseAndRelease_def Let_def)
  next
    case 2
    then obtain st where st: "mget (ms_sessions ?s) sid = Some st" "session_phase st = PClosed"
      by (auto simp: mem_phase_def split: option.splits)
    then have "s_State st = StateClosed"
      using mem_inv_ok [OF inv' st(1)] by (auto simp: session_phase_def session_ok_def split: session_state.splits)
    with st 2 show ?thesis by (simp add: mem_CloseAndRelease_def Let_def)
  next
    case 3
    then show ?thesis by (simp add: mem_CloseAndRelease_def Let_def mem_phase_Absent_iff)
  qed
qed

lemma claim_phase:
  assumes inv: "mem_inv s" and c: "claim cr cfg memory_ops sid ticket now s = (Inr access, label, s1)"
  shows "mem_inv s1" and "mem_phase s1 sid = PClaimed (ca_LeaseID access)" and "ca_SessionID access = sid"
proof -
  let ?d = "cr_sha256 cr (str_bytes ticket)"
  obtain l where l: "mem_ClaimAndReserve sid ?d now (config_limits cfg) s = (Inr l, s1)"
    and a: "access = access_of_lease l"
    using c by (auto simp: claim_def split: prod.splits sum.splits)
  show "mem_inv s1"
    using mem_ClaimAndReserve_inv [OF inv, of sid ?d now "config_limits cfg"] l by simp
  show "mem_phase s1 sid = PClaimed (ca_LeaseID access)" and "ca_SessionID access = sid"
    using mem_ClaimAndReserve_phase(2) [OF inv l] a by (simp_all add: access_of_lease_def Let_def)
qed

text \<open>Only a successful claim makes a session claimed, and only its own.\<close>

lemma cleanup_claimed:
  assumes inv: "mem_inv s" and ph: "mem_phase (cleanup now s) j = PClaimed l"
  shows "mem_phase s j = PClaimed l"
proof -
  obtain st' where st': "mget (ms_sessions (cleanup now s)) j = Some st'" "session_phase st' = PClaimed l"
    using ph by (auto simp: mem_phase_def split: option.splits)
  then obtain st where st: "mget (ms_sessions s) j = Some st" "after_cleanup now st = Some st'"
    by (auto simp: cleanup_sessions [OF inv] bind_eq_Some_conv)
  then have "st' = st"
    using st'(2) by (auto simp: after_cleanup_def expire_session_def split: if_splits)
  with st st' show ?thesis by (simp add: mem_phase_def)
qed

lemma mem_claim_claimed:
  assumes inv: "mem_inv s" and eq: "mem_ClaimAndReserve sid d now lim s = (r, s')"
    and ph: "mem_phase s' j = PClaimed l"
  shows "mem_phase s j = PClaimed l \<or> j = sid \<and> is_ok r"
proof (cases "mget (ms_sessions (cleanup now s)) sid")
  case None
  with eq ph cleanup_claimed [OF inv] show ?thesis by (auto simp: mem_ClaimAndReserve_def Let_def)
next
  case (Some st)
  with eq ph cleanup_claimed [OF inv, of now j l] show ?thesis
    by (auto simp: mem_ClaimAndReserve_def Let_def split: if_splits)
qed

lemma mem_close_not_claimed:
  assumes inv: "mem_inv s" and ph: "mem_phase (snd (mem_CloseAndRelease sid lid reason now s)) j = PClaimed l"
  shows "mem_phase s j = PClaimed l"
proof (cases "mget (ms_sessions (cleanup now s)) sid")
  case None
  with ph cleanup_claimed [OF inv] show ?thesis by (auto simp: mem_CloseAndRelease_def Let_def)
next
  case (Some st)
  with ph cleanup_claimed [OF inv, of now j l] show ?thesis
    by (auto simp: mem_CloseAndRelease_def Let_def split: if_splits)
qed

lemma serve_http_cases:
  assumes "serve_http cr cfg allowed ops rt accept r claimAt connectAt closeAt finishAt s = (reply, obs, s')"
  obtains "s' = s" "\<exists>code msg. reply = HttpError code msg"
    "\<not> origin_allowed allowed (wr_Origin r) \<or> \<not> offers_known_subprotocol (wr_Protocols r) \<or>
     values_Get ''ticket'' (parse_query (wr_RawQuery r)) = []"
  | e label where
      "claim cr cfg ops (wr_SessionID r) (values_Get ''ticket'' (parse_query (wr_RawQuery r))) claimAt s = (Inl e, label, s')"
  | access label s1 reason where
      "claim cr cfg ops (wr_SessionID r) (values_Get ''ticket'' (parse_query (wr_RawQuery r))) claimAt s = (Inr access, label, s1)"
      "s' = snd (close_session ops (ca_SessionID access) (ca_LeaseID access) reason closeAt s1)"
proof -
  let ?tk = "values_Get ''ticket'' (parse_query (wr_RawQuery r))"
  obtain x label s1 where c: "claim cr cfg ops (wr_SessionID r) ?tk claimAt s = (x, label, s1)"
    using prod_cases3 by blast
  consider (refused) "\<not> origin_allowed allowed (wr_Origin r) \<or> \<not> offers_known_subprotocol (wr_Protocols r) \<or> ?tk = []"
    | (failed) e where "origin_allowed allowed (wr_Origin r)" "offers_known_subprotocol (wr_Protocols r)" "?tk \<noteq> []" "x = Inl e"
    | (claimed) a where "origin_allowed allowed (wr_Origin r)" "offers_known_subprotocol (wr_Protocols r)" "?tk \<noteq> []" "x = Inr a"
    by (cases x) auto
  then show ?thesis
  proof cases
    case refused
    then show ?thesis
      using assms by (intro that(1)) (auto simp: serve_http_def Let_def split: if_splits)
  next
    case failed
    then show ?thesis
      using assms c by (intro that(2) [of e label]) (auto simp: serve_http_def Let_def)
  next
    case claimed
    let ?ex = "expected_subprotocol (ca_Mode a)"
    obtain oc ob fin s2 where run: "run_module ops rt \<lparr> ac_Access = a, ac_Socket = Some ?ex \<rparr> connectAt closeAt finishAt s1
        = (oc, ob, fin, s2)"
      using prod_cases4 by blast
    have "\<exists>reason. s' = snd (close_session ops (ca_SessionID a) (ca_LeaseID a) reason closeAt s1)"
      using assms c claimed run run_module_shape [OF run]
      by (auto simp: serve_http_def Let_def split: if_splits)
    with c claimed show ?thesis using that(3) by blast
  qed
qed

text \<open>Runtimes that open every stream and carry it to a normal end.\<close>

definition demo_ws_runtimes :: "(unit, unit) runtimes" where
  "demo_ws_runtimes = \<lparr> rt_OpenExec = (\<lambda>t z. Inr ()), rt_OpenSerial = (\<lambda>t. Inr ()), rt_OpenVNC = (\<lambda>t. Inr ()),
     rt_CarryExec = (\<lambda>a x. (OutcomeNormal, 0, 0)), rt_CarryByte = (\<lambda>a x. (OutcomeNormal, 3, 4)) \<rparr>"

section \<open>Properties\<close>

text \<open>
  A connected session always gives its lease back. Suppose a session was claimed and anything the
  store allows happened to it since, by other callers or by expiry. When its run ends, on whichever
  path and with whichever outcome, the session is closed or already purged, and holds no lease.
\<close>

lemma run_releases_lease:
  assumes "mem_reachable s" and "lives (PClaimed (ca_LeaseID (ac_Access a))) (mem_phase s (ca_SessionID (ac_Access a)))"
    and "run_module memory_ops rt a connectAt closeAt finishAt s = (oc, obs, final, s')"
  shows "mem_phase s' (ca_SessionID (ac_Access a)) \<in> {PClosed, Absent} \<and>
    mget (ms_leases s') (ca_SessionID (ac_Access a)) = None"
proof -
  let ?sid = "ca_SessionID (ac_Access a)"
  note inv = reachable_mem_inv [OF assms(1)]
  have s': "s' = snd (mem_CloseAndRelease ?sid (ca_LeaseID (ac_Access a)) (outcome_str oc) closeAt s)"
    using run_module_shape [OF assms(3)] by (simp add: close_session_def)
  then have ph: "mem_phase s' ?sid \<in> {PClosed, Absent}"
    using mem_close_claimed [OF inv assms(2)] by simp
  have "mem_inv s'" using s' mem_CloseAndRelease_inv [OF inv] by simp
  with ph show ?thesis
    by (auto simp: mem_inv_leases mem_phase_def lease_view_def split: option.splits)
qed



text \<open>
  A request that is not eligible costs no ticket. Without an allowed origin, a known subprotocol
  and a ticket the handler answers with an error and leaves the store exactly as it was, over any
  store, so the session can still be claimed.
\<close>

lemma ineligible_request_keeps_ticket:
  assumes "\<not> origin_allowed allowed (wr_Origin r) \<or> \<not> offers_known_subprotocol (wr_Protocols r) \<or>
      values_Get ''ticket'' (parse_query (wr_RawQuery r)) = []"
  shows "\<exists>code msg. code \<in> {400, 401, 403} \<and>
    serve_http cr cfg allowed ops rt accept r claimAt connectAt closeAt finishAt s = (HttpError code msg, [], s)"
  using assms by (auto simp: serve_http_def Let_def)

end
