(* ===== verification/Observability.thy ===== *)
theory Observability
  imports ConnectedSession
begin

text \<open>
  \<open>internal/observability\<close>: the session metrics, the observation of one connected session and the
  probes. A counter vector is a function from label values to the count. The span of an observation is
  the record of what the tracing library is told about it; the log is the list of the lines written.
  \<open>sync.Once\<close> is a flag: the body runs when it is first reached.
\<close>

section \<open>Metrics\<close>

record session_metrics =
  sm_create :: "string \<times> string \<Rightarrow> nat"
  sm_active :: "string \<Rightarrow> int"
  sm_duration :: "string \<Rightarrow> duration list"
  sm_bytes :: "string \<times> string \<Rightarrow> nat"
  sm_claim :: "string \<Rightarrow> nat"
  sm_end :: "string \<times> string \<Rightarrow> nat"
  sm_runtimeErrors :: "string \<times> string \<Rightarrow> nat"

text \<open>
  \<open>newSessionMetrics\<close>: the vectors with the names under which they are registered. \<open>MustRegister\<close> panics when a
  name is registered twice, which is \<open>None\<close>.
\<close>

definition new_session_metrics :: session_metrics where
  "new_session_metrics = \<lparr> sm_create = (\<lambda>_. 0), sm_active = (\<lambda>_. 0), sm_duration = (\<lambda>_. []), sm_bytes = (\<lambda>_. 0),
     sm_claim = (\<lambda>_. 0), sm_end = (\<lambda>_. 0), sm_runtimeErrors = (\<lambda>_. 0) \<rparr>"

definition session_metric_names :: "string list" where
  "session_metric_names = [''ani_session_create_total'', ''ani_session_active'', ''ani_session_duration_seconds'',
     ''ani_session_bytes_total'', ''ani_session_claim_total'', ''ani_session_end_total'',
     ''ani_session_runtime_errors_total'']"

definition must_register :: "string list \<Rightarrow> string list option \<Rightarrow> string list option" where
  "must_register names registry =
     (case registry of None \<Rightarrow> None | Some rs \<Rightarrow> if distinct (rs @ names) then Some (rs @ names) else None)"

definition bounded_mode :: "string \<Rightarrow> string" where
  "bounded_mode m = (if m = ''exec'' \<or> m = ''serial'' \<or> m = ''vnc'' then m else ''unknown'')"

abbreviation bump :: "('a \<Rightarrow> nat) \<Rightarrow> 'a \<Rightarrow> nat \<Rightarrow> 'a \<Rightarrow> nat" where
  "bump c k n \<equiv> c(k := c k + n)"

definition metrics_ended :: "string \<Rightarrow> string \<Rightarrow> session_metrics \<Rightarrow> session_metrics" where
  "metrics_ended m oc s = s\<lparr> sm_end := bump (sm_end s) (bounded_mode m, oc) 1 \<rparr>"

definition metrics_created :: "string \<Rightarrow> string \<Rightarrow> session_metrics \<Rightarrow> session_metrics" where
  "metrics_created m res s = s\<lparr> sm_create := bump (sm_create s) (bounded_mode m, res) 1 \<rparr>"

definition metrics_claimed :: "string \<Rightarrow> session_metrics \<Rightarrow> session_metrics" where
  "metrics_claimed res s = s\<lparr> sm_claim := bump (sm_claim s) res 1 \<rparr>"

definition metrics_connected :: "string \<Rightarrow> session_metrics \<Rightarrow> session_metrics" where
  "metrics_connected m s =
     s\<lparr> sm_active := (sm_active s)(bounded_mode m := sm_active s (bounded_mode m) + 1) \<rparr>"

definition metrics_closed :: "string \<Rightarrow> duration \<Rightarrow> session_metrics \<Rightarrow> session_metrics" where
  "metrics_closed m d s =
     s\<lparr> sm_active := (sm_active s)(bounded_mode m := sm_active s (bounded_mode m) - 1),
        sm_duration := (sm_duration s)(bounded_mode m := sm_duration s (bounded_mode m) @ [d]) \<rparr>"

definition metrics_add_bytes :: "string \<Rightarrow> string \<Rightarrow> 64 word \<Rightarrow> session_metrics \<Rightarrow> session_metrics" where
  "metrics_add_bytes m direction n s =
     (if n > 0 then s\<lparr> sm_bytes := bump (sm_bytes s) (bounded_mode m, direction) (unat n) \<rparr> else s)"

definition metrics_runtime_error :: "string \<Rightarrow> string \<Rightarrow> session_metrics \<Rightarrow> session_metrics" where
  "metrics_runtime_error m code s =
     s\<lparr> sm_runtimeErrors := bump (sm_runtimeErrors s) (bounded_mode m, code) 1 \<rparr>"

text \<open>\<open>boundedOutcome\<close>: every outcome of the module is a label of its own.\<close>

definition bounded_outcome :: "outcome \<Rightarrow> string" where
  "bounded_outcome oc =
     (if oc \<in> {OutcomeNormal, OutcomeClientClosed, OutcomeIdleTimeout, OutcomeMaxDuration, OutcomeMessageTooBig,
          OutcomeInvalidTerminalFrame, OutcomeInvalidVNCFrame, OutcomeBackpressure, OutcomeRuntimeUnavailable,
          OutcomeTargetChanged, OutcomeRuntimeFailed, OutcomeTransportFailed, OutcomeShutdown, OutcomeInvalidStart}
      then outcome_str oc else ''invalid_start'')"

lemma bounded_outcome_str [simp]: "bounded_outcome oc = outcome_str oc"
  by (cases oc) (simp_all add: bounded_outcome_def)

section \<open>Spans and log lines\<close>

datatype attribute = AttrString string string | AttrBool string bool

record span =
  sp_Name :: string
  sp_Attributes :: "attribute list"
  sp_Ends :: nat

definition start_span :: "string \<Rightarrow> span" where
  "start_span n = \<lparr> sp_Name = n, sp_Attributes = [], sp_Ends = 0 \<rparr>"

definition set_attributes :: "attribute list \<Rightarrow> span \<Rightarrow> span" where
  "set_attributes as sp = sp\<lparr> sp_Attributes := sp_Attributes sp @ as \<rparr>"

definition end_span :: "span \<Rightarrow> span" where
  "end_span sp = sp\<lparr> sp_Ends := Suc (sp_Ends sp) \<rparr>"

datatype log_level = LevelInfo | LevelWarn

datatype log_value = LogString string | LogInt int | LogUint "64 word"

record log_line =
  ll_Level :: log_level
  ll_Message :: string
  ll_Args :: "(string \<times> log_value) list"

record telemetry =
  te_Metrics :: session_metrics
  te_Log :: "log_line list"

text \<open>\<open>slog\<close> writes a line; the metrics are updated in place.\<close>

definition write_log :: "log_level \<Rightarrow> string \<Rightarrow> (string \<times> log_value) list \<Rightarrow> telemetry \<Rightarrow> telemetry" where
  "write_log lv msg args te = te\<lparr> te_Log := te_Log te @ [\<lparr> ll_Level = lv, ll_Message = msg, ll_Args = args \<rparr>] \<rparr>"

section \<open>The observation of a connected session\<close>

record observation =
  ob_Facts :: safe_facts
  ob_Span :: span
  ob_ConnectedOnce :: bool
  ob_FinishOnce :: bool
  ob_Connected :: bool

definition open_observation :: "safe_facts \<Rightarrow> observation" where
  "open_observation f =
     \<lparr> ob_Facts = f,
       ob_Span = set_attributes [AttrString ''session.id'' (sf_SessionID f),
           AttrString ''session.mode'' (bounded_mode (mode_str (sf_Mode f)))] (start_span ''connected_session.run''),
       ob_ConnectedOnce = False, ob_FinishOnce = False, ob_Connected = False \<rparr>"

definition safe_log_args :: "observation \<Rightarrow> (string \<times> log_value) list" where
  "safe_log_args ob =
     [(''session_id'', LogString (sf_SessionID (ob_Facts ob))), (''tenant_id'', LogString (sf_TenantID (ob_Facts ob))),
      (''subject_id'', LogString (sf_SubjectID (ob_Facts ob))), (''instance_id'', LogString (sf_InstanceID (ob_Facts ob))),
      (''mode'', LogString (mode_str (sf_Mode (ob_Facts ob))))]"

definition observe_connected ::
  "observation \<times> telemetry \<Rightarrow> observation \<times> telemetry" where
  "observe_connected st =
     (case st of (ob, te) \<Rightarrow>
        if ob_ConnectedOnce ob then (ob, te)
        else (ob\<lparr> ob_ConnectedOnce := True, ob_Connected := True \<rparr>,
              write_log LevelInfo ''session_connected'' (safe_log_args ob)
                (te\<lparr> te_Metrics := metrics_connected (mode_str (sf_Mode (ob_Facts ob))) (te_Metrics te) \<rparr>)))"

text \<open>\<open>Duration.Milliseconds\<close> divides by a million and truncates toward zero.\<close>

definition milliseconds :: "duration \<Rightarrow> int" where
  "milliseconds d = (if 0 \<le> d then d div 1000000 else - ((- d) div 1000000))"

definition finish_metrics :: "observation \<Rightarrow> finish \<Rightarrow> session_metrics \<Rightarrow> session_metrics" where
  "finish_metrics ob f s =
     (let m = mode_str (sf_Mode (ob_Facts ob));
          s1 = (if ob_Connected ob then metrics_closed m (fi_Duration f) s else s);
          s2 = metrics_add_bytes m ''in'' (fi_BytesIn f) s1;
          s3 = metrics_add_bytes m ''out'' (fi_BytesOut f) s2;
          s4 = metrics_ended m (bounded_outcome (fi_Outcome f)) s3
      in if fi_Outcome f = OutcomeRuntimeUnavailable then metrics_runtime_error m ''open_failed'' s4
         else if fi_Outcome f = OutcomeRuntimeFailed then metrics_runtime_error m ''stream_failed'' s4
         else s4)"

definition observe_finish ::
  "finish \<Rightarrow> observation \<times> telemetry \<Rightarrow> observation \<times> telemetry" where
  "observe_finish f st =
     (case st of (ob, te) \<Rightarrow>
        if ob_FinishOnce ob then (ob, te)
        else
          (let args = safe_log_args ob @
                 [(''duration_ms'', LogInt (milliseconds (fi_Duration f))),
                  (''outcome'', LogString (bounded_outcome (fi_Outcome f))),
                  (''bytes_in'', LogUint (fi_BytesIn f)), (''bytes_out'', LogUint (fi_BytesOut f))];
               te1 = te\<lparr> te_Metrics := finish_metrics ob f (te_Metrics te) \<rparr>;
               sp = end_span (set_attributes [AttrString ''session.outcome'' (bounded_outcome (fi_Outcome f)),
                   AttrBool ''session.connected'' (ob_Connected ob)] (ob_Span ob))
           in (ob\<lparr> ob_FinishOnce := True, ob_Span := sp \<rparr>,
               if ob_Connected ob then write_log LevelInfo ''session_closed'' args te1
               else write_log LevelWarn ''session_failed'' args te1)))"

text \<open>The effect of the events of one run on the metrics, the log and the span.\<close>

fun apply_observed :: "observed list \<Rightarrow> observation \<times> telemetry \<Rightarrow> observation \<times> telemetry" where
  "apply_observed [] st = st"
| "apply_observed (ObsOpen f # es) st = apply_observed es (open_observation f, snd st)"
| "apply_observed (ObsConnected t # es) st = apply_observed es (observe_connected st)"
| "apply_observed (ObsFinish f # es) st = apply_observed es (observe_finish f st)"

section \<open>Probes\<close>

record probe_handler =
  ph_Ready :: bool
  ph_Check :: "unit result option"
  ph_StoreMode :: string
  ph_Degraded :: bool
  ph_Registry :: "string list option"
  ph_StoreInfo :: "string \<Rightarrow> nat"
  ph_StoreDegraded :: nat

definition ready_probe :: "probe_handler \<Rightarrow> nat \<times> string" where
  "ready_probe h =
     (if \<not> ph_Ready h \<or> (case ph_Check h of None \<Rightarrow> False | Some r \<Rightarrow> isl r) then (503, ''not ready'' @ [CHR 0x0A])
      else if ph_Degraded h
      then (200, ''ready mode='' @ ph_StoreMode h @ '' local=true degraded=true'' @ [CHR 0x0A])
      else (200, ''ready mode='' @ ph_StoreMode h @ '' degraded=false'' @ [CHR 0x0A]))"

section \<open>The traced store\<close>

text \<open>\<open>TraceStore\<close> forwards every method; a span has no effect on the result.\<close>

definition traced_store :: "'s store_ops \<Rightarrow> 's store_ops" where
  "traced_store inner =
     \<lparr> st_CreateOrGet = (\<lambda>key c s. st_CreateOrGet inner key c s),
       st_GetByKey = (\<lambda>key s. st_GetByKey inner key s),
       st_ClaimAndReserve = (\<lambda>sid d now lim s. st_ClaimAndReserve inner sid d now lim s),
       st_CloseAndRelease = (\<lambda>sid lid reason now s. st_CloseAndRelease inner sid lid reason now s),
       st_Ready = (\<lambda>s. st_Ready inner s), st_Mode = st_Mode inner \<rparr>"

lemma traced_store_id: "traced_store inner = inner"
  by (simp add: traced_store_def)

section \<open>Properties\<close>

lemma finish_metrics_balance:
  "sm_end (finish_metrics ob f s) = bump (sm_end s) (bounded_mode (mode_str (sf_Mode (ob_Facts ob))), outcome_str (fi_Outcome f)) 1"
  "sm_active (finish_metrics ob f s) = (if ob_Connected ob
     then (sm_active s)(bounded_mode (mode_str (sf_Mode (ob_Facts ob))) :=
       sm_active s (bounded_mode (mode_str (sf_Mode (ob_Facts ob)))) - 1) else sm_active s)"
  by (auto simp: finish_metrics_def Let_def metrics_ended_def metrics_closed_def metrics_add_bytes_def metrics_runtime_error_def)

text \<open>The lines a run writes: one when it is connected, and one at its end, which tells whether it was.\<close>

definition run_messages :: "bool \<Rightarrow> (log_level \<times> string) list" where
  "run_messages connected =
     (if connected then [(LevelInfo, ''session_connected''), (LevelInfo, ''session_closed'')] else [(LevelWarn, ''session_failed'')])"

definition log_heads :: "log_line list \<Rightarrow> (log_level \<times> string) list" where
  "log_heads ls = map (\<lambda>l. (ll_Level l, ll_Message l)) ls"

text \<open>
  C34: every run leaves the telemetry balanced. Whatever happens in a run, the gauge of active sessions
  is afterwards what it was before, for every mode, and exactly one ending was counted: that of the
  session's mode with the outcome the run returned. The span of the run was ended exactly once, and the
  log has its line of connection and closing, or only its line of failure.
\<close>

theorem run_balances_metrics:
  assumes "run_module ops rt a c k f s = (oc, obs, final, s')" and "apply_observed obs (ob, te) = (ob', te')"
  shows "sm_active (te_Metrics te') = sm_active (te_Metrics te) \<and>
    sm_end (te_Metrics te') =
      bump (sm_end (te_Metrics te)) (bounded_mode (mode_str (ca_Mode (ac_Access a))), outcome_str oc) 1 \<and>
    sp_Ends (ob_Span ob') = 1 \<and>
    log_heads (te_Log te') = log_heads (te_Log te) @ run_messages (\<exists>t. ObsConnected t \<in> set obs)"
proof -
  obtain fin where oc: "fi_Outcome fin = oc"
    and obs: "obs = [ObsOpen (safe_facts_of (ac_Access a)), ObsFinish fin] \<or>
     obs = [ObsOpen (safe_facts_of (ac_Access a)), ObsConnected c, ObsFinish fin]"
    using run_module_shape [OF assms(1)] by blast
  note balance = open_observation_def safe_facts_of_def observe_connected_def observe_finish_def metrics_connected_def
    finish_metrics_balance Let_def write_log_def log_heads_def run_messages_def start_span_def set_attributes_def end_span_def
  show ?thesis
    using obs assms(2) oc by (elim disjE) (auto simp: balance)
qed

definition demo_serial_socket :: accepted where
  "demo_serial_socket = \<lparr> ac_Access = \<lparr> ca_SessionID = ''one'', ca_LeaseID = ''one:lease'', ca_ExpiresAt = 900,
     ca_Identity = \<lparr> id_TenantID = ''t'', id_SubjectID = ''alice'', id_InstanceID = ''i'' \<rparr>,
     ca_Target = \<lparr> tg_InstanceBinding = zero_instance_binding, tg_VMBinding = zero_vm_binding,
       tg_WorkloadName = ''w'', tg_WorkloadKind = WorkloadVM \<rparr>,
     ca_Mode = ModeSerial, ca_Exec = None \<rparr>, ac_Socket = Some ''ani.terminal.v1'' \<rparr>"

definition demo_store_ops :: "unit store_ops" where
  "demo_store_ops = \<lparr> st_CreateOrGet = (\<lambda>k c s. (Inl (Sentinel ErrUnavailable), s)),
     st_GetByKey = (\<lambda>k s. (Inl (Sentinel ErrUnavailable), s)),
     st_ClaimAndReserve = (\<lambda>i d n l s. (Inl (Sentinel ErrUnavailable), s)),
     st_CloseAndRelease = (\<lambda>i l r n s. (Inl (Sentinel ErrUnavailable), s)),
     st_Ready = (\<lambda>s. Inr ()), st_Mode = ''none'' \<rparr>"

definition demo_runtimes :: "(unit, unit) runtimes" where
  "demo_runtimes = \<lparr> rt_OpenExec = (\<lambda>t z. Inl (Sentinel RtUnavailable)), rt_OpenSerial = (\<lambda>t. Inr ()),
     rt_OpenVNC = (\<lambda>t. Inl (Sentinel RtTargetChanged)),
     rt_CarryExec = (\<lambda>a x. (OutcomeNormal, 0, 0)), rt_CarryByte = (\<lambda>a x. (OutcomeNormal, 3, 4)) \<rparr>"

definition demo_telemetry :: telemetry where
  "demo_telemetry = \<lparr> te_Metrics = new_session_metrics, te_Log = [] \<rparr>"

theorem run_balances_metrics_witness:
  "\<exists>obs final ob te. run_module demo_store_ops demo_runtimes demo_serial_socket 10 20 21 () =
       (OutcomeNormal, obs, final, ()) \<and>
     apply_observed obs (open_observation (safe_facts_of (ac_Access demo_serial_socket)), demo_telemetry) = (ob, te) \<and>
     sm_active (te_Metrics te) ''serial'' = 0 \<and> sm_end (te_Metrics te) (''serial'', ''normal'') = 1 \<and>
     sp_Ends (ob_Span ob) = 1 \<and> log_heads (te_Log te) = [(LevelInfo, ''session_connected''), (LevelInfo, ''session_closed'')]"
proof -
  obtain obs final where r: "run_module demo_store_ops demo_runtimes demo_serial_socket 10 20 21 () =
       (OutcomeNormal, obs, final, ())" and c: "ObsConnected 10 \<in> set obs"
    by (simp add: run_module_def demo_runtimes_def demo_serial_socket_def valid_start_def open_byte_stream_def
        complete_run_def Let_def)
  obtain ob te where ap: "apply_observed obs (open_observation (safe_facts_of (ac_Access demo_serial_socket)), demo_telemetry) = (ob, te)"
    by fastforce
  have "\<exists>t. ObsConnected t \<in> set obs" using c by blast
  with run_balances_metrics [OF r ap] r ap show ?thesis
    by (intro exI [of _ obs] exI [of _ final] exI [of _ ob] exI [of _ te])
      (simp add: demo_serial_socket_def new_session_metrics_def demo_telemetry_def bounded_mode_def run_messages_def log_heads_def)
qed

end
