(* ===== verification/HttpFront.thy ===== *)
theory HttpFront
  imports WebsocketAdmission Observability
begin

text \<open>
  The HTTP side of the gateway: the probes of \<open>internal/observability/http.go\<close>, the routes of
  \<open>internal/transport/http/router.go\<close> and \<open>RegisterRoutes\<close>, and the dispatch of a request to its handler.
  The chi router is a parameter; the locale \<open>chi_router\<close> states what its documentation says of the
  patterns the gateway registers. Spans and the texts of the metrics endpoint are left out.
\<close>

section \<open>Probes\<close>

definition new_probe_handler :: probe_handler where
  "new_probe_handler =
     \<lparr> ph_Ready = False, ph_Check = None, ph_StoreMode = [], ph_Degraded = False,
       ph_Registry = must_register session_metric_names (Some []), ph_StoreInfo = (\<lambda>_. 0), ph_StoreDegraded = 0 \<rparr>"

definition set_ready :: "bool \<Rightarrow> probe_handler \<Rightarrow> probe_handler" where
  "set_ready v h = h\<lparr> ph_Ready := v \<rparr>"

text \<open>The check is called for every probe; the field holds what it answers now.\<close>

definition set_dependency_check :: "unit result \<Rightarrow> probe_handler \<Rightarrow> probe_handler" where
  "set_dependency_check answer h = h\<lparr> ph_Check := Some answer \<rparr>"

definition register_store :: "string \<Rightarrow> bool \<Rightarrow> probe_handler \<Rightarrow> probe_handler" where
  "register_store m degraded h =
     h\<lparr> ph_StoreMode := m, ph_Degraded := degraded, ph_StoreInfo := (\<lambda>_. 0)(m := 1),
        ph_StoreDegraded := (if degraded then 1 else 0),
        ph_Registry := must_register [''ani_session_store_info'', ''ani_session_store_degraded''] (ph_Registry h) \<rparr>"

text \<open>The names differ, so registering the store once does not panic; registering it again does.\<close>

lemma registered_names:
  "ph_Registry (register_store m degraded new_probe_handler) =
     Some (session_metric_names @ [''ani_session_store_info'', ''ani_session_store_degraded''])"
  "ph_Registry (register_store m' degraded' (register_store m degraded new_probe_handler)) = None"
  by (simp_all add: register_store_def new_probe_handler_def must_register_def session_metric_names_def)

definition health_probe :: "nat \<times> string" where
  "health_probe = (200, ''ok'' @ [CHR 0x0A])"

section \<open>Routes\<close>

datatype endpoint = EpHealth | EpReady | EpMetrics | EpSession

type_synonym 'h route = "string \<times> string \<times> 'h"

definition probe_routes :: "endpoint route list" where
  "probe_routes =
     [(''GET'', ''/healthz'', EpHealth), (''GET'', ''/readyz'', EpReady), (''GET'', ''/metrics'', EpMetrics)]"

text \<open>\<open>RegisterRoutes\<close> on the router of \<open>NewRouter\<close>.\<close>

definition register_routes :: "endpoint route list \<Rightarrow> endpoint route list" where
  "register_routes rs = rs @ [(''GET'', ''/api/v1/realtime/sessions/{sessionID}'', EpSession)]"

section \<open>The router\<close>

text \<open>
  A pattern without a brace matches itself; one that ends in a parameter in braces matches its literal
  part followed by one segment that is not empty, which is the parameter's value.
\<close>

definition literal_part :: "string \<Rightarrow> string" where
  "literal_part pat = takeWhile (\<lambda>c. c \<noteq> CHR ''{'') pat"

definition param_name :: "string \<Rightarrow> string" where
  "param_name pat = butlast (drop 1 (dropWhile (\<lambda>c. c \<noteq> CHR ''{'') pat))"

definition pattern_args :: "string \<Rightarrow> string \<Rightarrow> (string \<times> string) list option" where
  "pattern_args pat path =
     (let lit = literal_part pat in
      if lit = pat then (if path = pat then Some [] else None)
      else if take (length lit) path = lit \<and> drop (length lit) path \<noteq> [] \<and> CHR ''/'' \<notin> set (drop (length lit) path)
      then Some [(param_name pat, drop (length lit) path)]
      else None)"

datatype 'h routed = RouteFound 'h "(string \<times> string) list" | RouteNotFound | RouteNotAllowed

type_synonym 'h router = "'h route list \<Rightarrow> string \<Rightarrow> string \<Rightarrow> 'h routed"

text \<open>The laws are about tables in which at most one pattern matches the path.\<close>

definition route_matches :: "string \<Rightarrow> 'h route \<Rightarrow> bool" where
  "route_matches path r = (case r of (_, pat, _) \<Rightarrow> pattern_args pat path \<noteq> None)"

definition unambiguous :: "'h route list \<Rightarrow> string \<Rightarrow> bool" where
  "unambiguous rs path \<longleftrightarrow> length (filter (route_matches path) rs) \<le> 1"

locale chi_router =
  fixes route :: "endpoint router"
  assumes found:
      "unambiguous rs path \<Longrightarrow> (mt, pat, h) \<in> set rs \<Longrightarrow> pattern_args pat path = Some args \<Longrightarrow>
       route rs mt path = RouteFound h args"
    and not_allowed:
      "unambiguous rs path \<Longrightarrow> (mt, pat, h) \<in> set rs \<Longrightarrow> pattern_args pat path = Some args \<Longrightarrow> mt' \<noteq> mt \<Longrightarrow>
       route rs mt' path = RouteNotAllowed"
    and not_found:
      "(\<And>mt pat h. (mt, pat, h) \<in> set rs \<Longrightarrow> pattern_args pat path = None) \<Longrightarrow> route rs mt' path = RouteNotFound"

definition first_route :: "'h router" where
  "first_route rs mt path =
     (case filter (route_matches path) rs of
        [] \<Rightarrow> RouteNotFound
      | (mt', pat, h) # _ \<Rightarrow>
          if mt' = mt then RouteFound h (the (pattern_args pat path)) else RouteNotAllowed)"

lemma unambiguous_filter:
  assumes "unambiguous rs path" and "(mt, pat, h) \<in> set rs" and "pattern_args pat path = Some args"
  shows "filter (route_matches path) rs = [(mt, pat, h)]"
proof -
  have "(mt, pat, h) \<in> set (filter (route_matches path) rs)" using assms(2,3) by (simp add: route_matches_def)
  with assms(1) show ?thesis
    unfolding unambiguous_def by (cases "filter (route_matches path) rs") auto
qed

interpretation first: chi_router first_route
proof (unfold_locales, goal_cases)
  case (1 rs path mt pat h args)
  then show ?case by (simp add: first_route_def unambiguous_filter)
next
  case (2 rs path mt pat h args mt')
  then show ?case by (simp add: first_route_def unambiguous_filter)
next
  case (3 rs path mt')
  then have "filter (route_matches path) rs = []" by (auto simp: filter_empty_conv route_matches_def)
  then show ?case by (simp add: first_route_def)
qed

section \<open>Dispatch\<close>

record http_request =
  hr_Method :: string
  hr_Path :: string
  hr_RawQuery :: string
  hr_Origin :: string
  hr_Protocols :: string

datatype http_reply = HttpText nat string | HttpSession ws_reply

text \<open>\<open>http.Error\<close> adds a newline; \<open>chi.URLParam\<close> of an absent parameter is empty.\<close>

definition url_param :: "(string \<times> string) list \<Rightarrow> string \<Rightarrow> string" where
  "url_param args name = (case map_of args name of None \<Rightarrow> [] | Some v \<Rightarrow> v)"

definition ws_request_of :: "http_request \<Rightarrow> (string \<times> string) list \<Rightarrow> ws_request" where
  "ws_request_of r args =
     \<lparr> wr_Origin = hr_Origin r, wr_Protocols = hr_Protocols r, wr_RawQuery = hr_RawQuery r,
       wr_SessionID = url_param args ''sessionID'' \<rparr>"

definition handle_http ::
  "endpoint router \<Rightarrow> string \<Rightarrow> probe_handler \<Rightarrow> (ws_request \<Rightarrow> 's \<Rightarrow> ws_reply \<times> observed list \<times> 's)
     \<Rightarrow> http_request \<Rightarrow> 's \<Rightarrow> http_reply \<times> observed list \<times> 's" where
  "handle_http route metrics probes serve r s =
     (case route (register_routes probe_routes) (hr_Method r) (hr_Path r) of
        RouteNotFound \<Rightarrow> (HttpText 404 (''not found'' @ [CHR 0x0A]), [], s)
      | RouteNotAllowed \<Rightarrow> (HttpText 405 (''method not allowed'' @ [CHR 0x0A]), [], s)
      | RouteFound EpHealth _ \<Rightarrow> (HttpText (fst health_probe) (snd health_probe), [], s)
      | RouteFound EpReady _ \<Rightarrow> (HttpText (fst (ready_probe probes)) (snd (ready_probe probes)), [], s)
      | RouteFound EpMetrics _ \<Rightarrow> (HttpText 200 metrics, [], s)
      | RouteFound EpSession args \<Rightarrow>
          (case serve (ws_request_of r args) s of (reply, obs, s') \<Rightarrow> (HttpSession reply, obs, s')))"

text \<open>The table of the gateway is unambiguous for every path.\<close>

abbreviation gateway_routes :: "endpoint route list" where
  "gateway_routes \<equiv> register_routes probe_routes"

abbreviation session_path :: string where
  "session_path \<equiv> ''/api/v1/realtime/sessions/''"

abbreviation session_pattern :: string where
  "session_pattern \<equiv> ''/api/v1/realtime/sessions/{sessionID}''"

lemma param_args:
  assumes "literal_part pat \<noteq> pat"
  shows "pattern_args pat path = Some args \<longleftrightarrow>
    (\<exists>v. path = literal_part pat @ v \<and> v \<noteq> [] \<and> CHR ''/'' \<notin> set v \<and> args = [(param_name pat, v)])"
proof
  let ?n = "length (literal_part pat)"
  assume a: "pattern_args pat path = Some args"
  then have "path = literal_part pat @ drop ?n path"
    using assms by (auto simp: pattern_args_def Let_def split: if_splits) (metis append_take_drop_id)
  with a assms show "\<exists>v. path = literal_part pat @ v \<and> v \<noteq> [] \<and> CHR ''/'' \<notin> set v \<and> args = [(param_name pat, v)]"
    by (intro exI [of _ "drop ?n path"]) (simp add: pattern_args_def Let_def split: if_splits)
qed (use assms in \<open>auto simp: pattern_args_def Let_def\<close>)

lemma session_args:
  "pattern_args session_pattern path = Some args \<longleftrightarrow>
     (\<exists>v. path = session_path @ v \<and> v \<noteq> [] \<and> CHR ''/'' \<notin> set v \<and> args = [(''sessionID'', v)])"
proof -
  have "literal_part session_pattern = session_path" "param_name session_pattern = ''sessionID''"
    by (simp_all add: literal_part_def param_name_def)
  then show ?thesis using param_args [of session_pattern path args] by simp
qed

lemma probe_args:
  "pattern_args ''/healthz'' path = (if path = ''/healthz'' then Some [] else None)"
  "pattern_args ''/readyz'' path = (if path = ''/readyz'' then Some [] else None)"
  "pattern_args ''/metrics'' path = (if path = ''/metrics'' then Some [] else None)"
  by (simp_all add: pattern_args_def literal_part_def)

lemma gateway_route_cases:
  "(mt, pat, h) \<in> set gateway_routes \<longleftrightarrow> mt = ''GET'' \<and>
     (pat, h) \<in> {(''/healthz'', EpHealth), (''/readyz'', EpReady), (''/metrics'', EpMetrics),
       (session_pattern, EpSession)}"
  by (auto simp: register_routes_def probe_routes_def)

lemma gateway_unambiguous: "unambiguous gateway_routes path"
proof (cases "pattern_args session_pattern path")
  case None
  then show ?thesis
    by (cases "path = ''/healthz''"; cases "path = ''/readyz''"; cases "path = ''/metrics''")
      (simp_all add: unambiguous_def register_routes_def probe_routes_def route_matches_def probe_args)
next
  case (Some args)
  then have "path \<notin> {''/healthz'', ''/readyz'', ''/metrics''}" by (auto simp: session_args)
  with Some show ?thesis
    by (simp add: unambiguous_def register_routes_def probe_routes_def route_matches_def probe_args)
qed

context chi_router
begin

lemma session_routed:
  assumes "v \<noteq> []" and "CHR ''/'' \<notin> set v"
  shows "route gateway_routes ''GET'' (session_path @ v) = RouteFound EpSession [(''sessionID'', v)]"
proof (rule found [OF gateway_unambiguous])
  show "(''GET'', session_pattern, EpSession) \<in> set gateway_routes" by (simp add: gateway_route_cases)
  show "pattern_args session_pattern (session_path @ v) = Some [(''sessionID'', v)]"
    unfolding session_args using assms by blast
qed

text \<open>A request reaches the session handler on one path only, and every other request leaves the store alone.\<close>

lemma route_session_only:
  assumes "route gateway_routes mt path = RouteFound EpSession args"
  shows "mt = ''GET'' \<and> (\<exists>v. path = session_path @ v \<and> v \<noteq> [] \<and> CHR ''/'' \<notin> set v \<and> args = [(''sessionID'', v)])"
proof (cases "\<exists>mt' pat h as. (mt', pat, h) \<in> set gateway_routes \<and> pattern_args pat path = Some as")
  case True
  then obtain mt' pat h as where r: "(mt', pat, h) \<in> set gateway_routes" "pattern_args pat path = Some as" by blast
  have mt: "mt' = ''GET''" using r(1) by (simp add: gateway_route_cases)
  have "mt = mt'" using not_allowed [OF gateway_unambiguous r] assms by fastforce
  moreover from this have "h = EpSession" "as = args" using found [OF gateway_unambiguous r] assms by auto
  ultimately show ?thesis using r mt by (auto simp: gateway_route_cases session_args)
next
  case False
  then have "route gateway_routes mt path = RouteNotFound" by (intro not_found) fastforce
  with assms show ?thesis by simp
qed

end

end
