(* ===== verification/UrlParse.thy ===== *)
theory UrlParse
  imports Urls
begin

text \<open>
  \<open>url.Parse\<close> of the Go release the module names (1.26), as far as its result is read by the gateway:
  scheme, opaque part, presence of user information, host, decoded path, raw query and decoded
  fragment. An error of the parser is \<open>None\<close>. The exception the parser makes for the host lists of
  PostgreSQL schemes is left out: the gateway refuses these schemes whatever the host is.
\<close>

record url =
  url_Scheme :: string
  url_Opaque :: string
  url_User :: bool
  url_Host :: string
  url_Path :: string
  url_RawQuery :: string
  url_Fragment :: string

section \<open>Unescaping\<close>

text \<open>The value of an escape, \<open>None\<close> where the mode does not admit it.\<close>

definition unescape_pair :: "escape_mode \<Rightarrow> char \<Rightarrow> char \<Rightarrow> char option" where
  "unescape_pair m a b =
     (case (unhex a, unhex b) of
        (Some h, Some l) \<Rightarrow>
          (let v = char_of (16 * h + l) in
           if m = EncodeHost \<and> h < 8 \<and> [a, b] \<noteq> ''25'' then None
           else if m = EncodeZone \<and> [a, b] \<noteq> ''25'' \<and> v \<noteq> CHR '' '' \<and> should_escape EncodeHost v then None
           else Some v)
      | _ \<Rightarrow> None)"

definition unescape_plain :: "escape_mode \<Rightarrow> char \<Rightarrow> char option" where
  "unescape_plain m c =
     (if c = CHR ''+'' then Some (if m = EncodeQueryComponent then CHR '' '' else c)
      else if m \<in> {EncodeHost, EncodeZone} \<and> (of_char c :: nat) < 128 \<and> should_escape m c then None
      else Some c)"

fun url_unescape :: "escape_mode \<Rightarrow> string \<Rightarrow> string option" where
  "url_unescape m [] = Some []"
| "url_unescape m (c # cs) =
     (if c = CHR ''%'' then
        (case cs of
           a # b # rest \<Rightarrow>
             (case (unescape_pair m a b, url_unescape m rest) of
                (Some v, Some out) \<Rightarrow> Some (v # out)
              | _ \<Rightarrow> None)
         | _ \<Rightarrow> None)
      else
        (case (unescape_plain m c, url_unescape m cs) of
           (Some v, Some out) \<Rightarrow> Some (v # out)
         | _ \<Rightarrow> None))"

section \<open>IPv6 literals\<close>

text \<open>
  \<open>netip.ParseAddr\<close> of what stands between brackets, which has to be an IPv6 address. \<open>ipv6_fields i e s\<close>
  is the loop of the parser with \<open>i\<close> bytes filled and \<open>e\<close> telling whether \<open>::\<close> was seen; a zone is cut off
  first. The fields of an embedded IPv4 address are decimal, without leading zeros and at most 255.
\<close>

definition hex_span :: "string \<Rightarrow> string \<times> string" where
  "hex_span s = (takeWhile (\<lambda>c. unhex c \<noteq> None) s, dropWhile (\<lambda>c. unhex c \<noteq> None) s)"

definition ipv4_field :: "string \<Rightarrow> bool" where
  "ipv4_field f \<longleftrightarrow>
     (case parse_nat f of None \<Rightarrow> False | Some n \<Rightarrow> n \<le> 255 \<and> (length f = 1 \<or> \<not> has_prefix f ''0''))"

definition ipv4_text :: "string \<Rightarrow> bool" where
  "ipv4_text s \<longleftrightarrow> length (split_on (CHR ''.'') s) = 4 \<and> list_all ipv4_field (split_on (CHR ''.'') s)"

definition ipv6_end :: "nat \<Rightarrow> bool \<Rightarrow> bool" where
  "ipv6_end i ellipsis \<longleftrightarrow> (if i < 16 then ellipsis else i = 16 \<and> \<not> ellipsis)"

function ipv6_fields :: "nat \<Rightarrow> bool \<Rightarrow> string \<Rightarrow> bool" where
  "ipv6_fields i ellipsis s =
     (if i \<ge> 16 then False
      else
        (case hex_span s of (digits, rest) \<Rightarrow>
           if digits = [] \<or> length digits > 4 then False
           else
             (case rest of
                [] \<Rightarrow> ipv6_end (i + 2) ellipsis
              | c # tail \<Rightarrow>
                  if c = CHR ''.'' then
                    (ellipsis \<or> i = 12) \<and> i + 4 \<le> 16 \<and> ipv4_text s \<and> ipv6_end (i + 4) ellipsis
                  else if c \<noteq> CHR '':'' \<or> tail = [] then False
                  else if hd tail = CHR '':'' then
                    (if ellipsis then False
                     else if tl tail = [] then ipv6_end (i + 2) True
                     else ipv6_fields (i + 2) True (tl tail))
                  else ipv6_fields (i + 2) ellipsis tail)))"
  by pat_completeness auto

termination ipv6_fields
  by (relation "measure (\<lambda>(i, e, s). 16 - i)") auto

definition ipv6_text :: "string \<Rightarrow> bool" where
  "ipv6_text s \<longleftrightarrow>
     (case dropWhile (\<lambda>c. c \<notin> set ''.:%'') s of
        [] \<Rightarrow> False
      | c # _ \<Rightarrow>
          c = CHR '':'' \<and>
          (CHR ''%'' \<in> set s \<longrightarrow> snd (cut (CHR ''%'') s) \<noteq> []) \<and>
          (let a = fst (cut (CHR ''%'') s) in
           if has_prefix a ''::'' then (if length a = 2 then True else ipv6_fields 0 True (drop 2 a))
           else ipv6_fields 0 False a))"

section \<open>Authority\<close>

definition valid_optional_port :: "string \<Rightarrow> bool" where
  "valid_optional_port p \<longleftrightarrow> (case p of [] \<Rightarrow> True | c # ds \<Rightarrow> c = CHR '':'' \<and> list_all is_digit ds)"

text \<open>\<open>last_cut c s\<close> splits at the last occurrence of \<open>c\<close>, which the second part does not keep.\<close>

definition last_cut :: "char \<Rightarrow> string \<Rightarrow> string \<times> string" where
  "last_cut c s = (case cut c (rev s) of (after, front) \<Rightarrow> (rev front, rev after))"

text \<open>The text from \<open>%25\<close> on, where a host has a zone.\<close>

fun zone_cut :: "string \<Rightarrow> string \<times> string" where
  "zone_cut [] = ([], [])"
| "zone_cut (c # cs) =
     (if has_prefix (c # cs) ''%25'' then ([], c # cs)
      else (case zone_cut cs of (front, zone) \<Rightarrow> (c # front, zone)))"

definition parse_ip_literal :: "string \<Rightarrow> string option" where
  "parse_ip_literal host =
     (if CHR '']'' \<notin> set host then None
      else
        (case last_cut (CHR '']'') host of (inner, port) \<Rightarrow>
           if \<not> valid_optional_port port then None
           else
             (case zone_cut (drop 1 inner) of (name, zone) \<Rightarrow>
                (case (url_unescape EncodeHost port, url_unescape EncodeHost name, url_unescape EncodeZone zone) of
                   (Some port', Some name', Some zone') \<Rightarrow>
                     if ipv6_text (name' @ zone') then Some (''['' @ name' @ zone' @ '']'' @ port') else None
                 | _ \<Rightarrow> None))))"

definition parse_host :: "string \<Rightarrow> string option" where
  "parse_host host =
     (if CHR ''['' \<in> set (drop 1 host) then None
      else if has_prefix host ''['' then parse_ip_literal host
      else if valid_optional_port (dropWhile (\<lambda>c. c \<noteq> CHR '':'') host) then url_unescape EncodeHost host
      else None)"

definition valid_userinfo_char :: "char \<Rightarrow> bool" where
  "valid_userinfo_char c \<longleftrightarrow> unreserved c \<or> c \<in> set (CHR 0x27 # '':!$&()*+,;=%@'')"

definition parse_userinfo :: "string \<Rightarrow> unit option" where
  "parse_userinfo s =
     (if \<not> list_all valid_userinfo_char s then None
      else
        (case cut (CHR '':'') s of (name, password) \<Rightarrow>
           (case (url_unescape EncodeUserPassword name, url_unescape EncodeUserPassword password) of
              (Some _, Some _) \<Rightarrow> Some ()
            | _ \<Rightarrow> None)))"

definition parse_authority :: "string \<Rightarrow> (bool \<times> string) option" where
  "parse_authority authority =
     (if CHR ''@'' \<notin> set authority then map_option (\<lambda>h. (False, h)) (parse_host authority)
      else
        (case last_cut (CHR ''@'') authority of (userinfo, host) \<Rightarrow>
           (case (parse_host host, parse_userinfo userinfo) of
              (Some h, Some _) \<Rightarrow> Some (True, h)
            | _ \<Rightarrow> None)))"

section \<open>Parse\<close>

definition is_letter :: "char \<Rightarrow> bool" where
  "is_letter c \<longleftrightarrow> (let n = (of_char c :: nat) in (65 \<le> n \<and> n \<le> 90) \<or> (97 \<le> n \<and> n \<le> 122))"

definition to_lower :: "char \<Rightarrow> char" where
  "to_lower c = (let n = (of_char c :: nat) in if 65 \<le> n \<and> n \<le> 90 then char_of (n + 32) else c)"

definition scheme_char :: "char \<Rightarrow> bool" where
  "scheme_char c \<longleftrightarrow> is_letter c \<or> is_digit c \<or> c \<in> set ''+-.''"

text \<open>\<open>getScheme\<close>: no scheme where the text does not start with one.\<close>

definition get_scheme :: "string \<Rightarrow> (string \<times> string) option" where
  "get_scheme raw =
     (case dropWhile scheme_char raw of
        [] \<Rightarrow> Some ([], raw)
      | c # rest \<Rightarrow>
          if c \<noteq> CHR '':'' then Some ([], raw)
          else if raw = c # rest then None
          else if \<not> is_letter (hd raw) then Some ([], raw)
          else Some (takeWhile scheme_char raw, rest))"

definition contains_ctl :: "string \<Rightarrow> bool" where
  "contains_ctl s \<longleftrightarrow> list_ex (\<lambda>c. (of_char c :: nat) < 32 \<or> (of_char c :: nat) = 127) s"

definition parse_path :: "string \<Rightarrow> string \<Rightarrow> bool \<Rightarrow> string \<Rightarrow> string \<Rightarrow> url option" where
  "parse_path scheme query user host path =
     map_option (\<lambda>p. \<lparr> url_Scheme = scheme, url_Opaque = [], url_User = user, url_Host = host, url_Path = p,
                       url_RawQuery = query, url_Fragment = [] \<rparr>) (url_unescape EncodePath path)"

definition parse_rest :: "string \<Rightarrow> string \<Rightarrow> string \<Rightarrow> url option" where
  "parse_rest scheme query rest =
     (if \<not> has_prefix rest ''/'' \<and> scheme \<noteq> [] then
        Some \<lparr> url_Scheme = scheme, url_Opaque = rest, url_User = False, url_Host = [], url_Path = [],
               url_RawQuery = query, url_Fragment = [] \<rparr>
      else if \<not> has_prefix rest ''/'' \<and> CHR '':'' \<in> set (fst (cut (CHR ''/'') rest)) then None
      else if (scheme \<noteq> [] \<or> \<not> has_prefix rest ''///'') \<and> has_prefix rest ''//'' then
        (let authority = takeWhile (\<lambda>c. c \<noteq> CHR ''/'') (drop 2 rest);
             path = dropWhile (\<lambda>c. c \<noteq> CHR ''/'') (drop 2 rest)
         in
           case parse_authority authority of
             None \<Rightarrow> None
           | Some (user, host) \<Rightarrow> parse_path scheme query user host path)
      else parse_path scheme query False [] rest)"

definition parse_url :: "string \<Rightarrow> url option" where
  "parse_url raw =
     (case cut (CHR ''#'') raw of (u, frag) \<Rightarrow>
        if contains_ctl u then None
        else
          (let parsed =
             (if u = ''*'' then
                Some \<lparr> url_Scheme = [], url_Opaque = [], url_User = False, url_Host = [], url_Path = ''*'',
                       url_RawQuery = [], url_Fragment = [] \<rparr>
              else
                (case get_scheme u of
                   None \<Rightarrow> None
                 | Some (scheme, rest) \<Rightarrow>
                     (case cut (CHR ''?'') rest of (rest', query) \<Rightarrow> parse_rest (map to_lower scheme) query rest')))
           in
             case (parsed, url_unescape EncodeFragment frag) of
               (Some v, Some f) \<Rightarrow> Some (v\<lparr> url_Fragment := f \<rparr>)
             | _ \<Rightarrow> None))"

section \<open>Facts\<close>

lemma url_unescape_query: "url_unescape EncodeQueryComponent s = query_unescape s"
  by (induction s rule: query_unescape.induct)
    (auto simp: unescape_pair_def unescape_plain_def split: option.splits list.splits)

lemma url_unescape_plain:
  "\<forall>c \<in> set s. c \<noteq> CHR ''%'' \<and> unescape_plain m c = Some c \<Longrightarrow> url_unescape m s = Some s"
  by (induction s) auto

text \<open>
  A URL of a lower-case scheme, a host that is a plain name with an optional port, and a path and a
  query that need no escaping parses into its parts.
\<close>

definition url_plain :: "char \<Rightarrow> bool" where
  "url_plain c \<longleftrightarrow> unreserved c \<or> c = CHR ''/'' \<or> c = CHR ''=''"

lemma unreserved_chars:
  "unreserved c \<Longrightarrow> c \<notin> set ''/=:?#%@[+'' \<and> \<not> ((of_char c :: nat) < 32 \<or> (of_char c :: nat) = 127)"
  by (auto simp: unreserved_def)

lemma is_digit_unreserved: "is_digit c \<Longrightarrow> unreserved c"
  by (simp add: is_digit_def unreserved_def)

lemma lower_letter_unreserved: "is_letter c \<Longrightarrow> unreserved c"
  by (auto simp: is_letter_def unreserved_def Let_def)

lemma unescape_plain_unreserved: "unreserved c \<Longrightarrow> unescape_plain m c = Some c"
  using unreserved_chars [of c] by (auto simp: unescape_plain_def should_escape_def)

lemma url_plain_chars:
  "url_plain c \<Longrightarrow> c \<notin> set '':?#%@[+'' \<and> \<not> ((of_char c :: nat) < 32 \<or> (of_char c :: nat) = 127)"
  using unreserved_chars [of c] by (auto simp: url_plain_def)

lemma port_chars: "valid_optional_port p \<Longrightarrow> c \<in> set p \<Longrightarrow> c = CHR '':'' \<or> unreserved c"
  by (auto simp: valid_optional_port_def list_all_iff is_digit_unreserved split: list.splits)

lemma parse_host_name:
  assumes "list_all unreserved name" and "valid_optional_port port"
  shows "parse_host (name @ port) = Some (name @ port)"
proof -
  have chars: "c = CHR '':'' \<or> unreserved c" if "c \<in> set (name @ port)" for c
    using that assms port_chars by (auto simp: list_all_iff)
  have "CHR ''['' \<notin> set (name @ port)"
    using chars unreserved_chars [of "CHR ''[''"] by force
  then have "CHR ''['' \<notin> set (drop 1 (name @ port))" using in_set_dropD by fastforce
  moreover have "\<not> has_prefix (name @ port) ''[''"
    using \<open>CHR ''['' \<notin> set (name @ port)\<close> by (cases "name @ port") (auto simp: has_prefix_def)
  moreover have "dropWhile (\<lambda>c. c \<noteq> CHR '':'') (name @ port) = port"
  proof -
    have "\<forall>c \<in> set name. c \<noteq> CHR '':''" using assms(1) unreserved_chars by (auto simp: list_all_iff)
    moreover have "dropWhile (\<lambda>c. c \<noteq> CHR '':'') port = port"
      using assms(2) by (auto simp: valid_optional_port_def split: list.splits)
    ultimately show ?thesis by (simp add: dropWhile_append2)
  qed
  moreover have "url_unescape EncodeHost (name @ port) = Some (name @ port)"
  proof (rule url_unescape_plain, intro ballI)
    fix c assume "c \<in> set (name @ port)"
    then consider "c = CHR '':''" | "unreserved c" using chars by blast
    then show "c \<noteq> CHR ''%'' \<and> unescape_plain EncodeHost c = Some c"
    proof cases
      case 1
      then show ?thesis by (simp add: unescape_plain_def should_escape_def unreserved_def)
    next
      case 2
      then show ?thesis using unreserved_chars [of c] by (auto simp: unescape_plain_unreserved)
    qed
  qed
  ultimately show ?thesis using assms(2) by (simp add: parse_host_def)
qed

lemma get_scheme_text:
  assumes "list_all is_letter scheme" and "scheme \<noteq> []"
  shows "get_scheme (scheme @ '':'' @ rest) = Some (scheme, rest)"
proof -
  have sc: "\<forall>c \<in> set scheme. scheme_char c" using assms(1) by (auto simp: list_all_iff scheme_char_def)
  have colon: "\<not> scheme_char (CHR '':'')" by (simp add: scheme_char_def is_letter_def is_digit_def)
  have d: "dropWhile scheme_char (scheme @ '':'' @ rest) = '':'' @ rest"
    and tk: "takeWhile scheme_char (scheme @ '':'' @ rest) = scheme"
    using sc colon by (simp_all add: dropWhile_append2 takeWhile_append2)
  have "is_letter (hd (scheme @ '':'' @ rest))" using assms by (cases scheme) auto
  moreover have "scheme @ '':'' @ rest \<noteq> '':'' @ rest" using assms(2) by simp
  ultimately show ?thesis by (simp add: get_scheme_def d [simplified] tk [simplified])
qed

lemma cut_absent: "c \<notin> set s \<Longrightarrow> cut c s = (s, [])"
  by (induction s) (auto simp: cut_def)

lemma parse_rest_text:
  assumes "list_all unreserved name" and "valid_optional_port port" and "scheme \<noteq> []"
    and "list_all url_plain path" and "path \<noteq> []" and "hd path = CHR ''/''"
  shows "parse_rest scheme query (''//'' @ name @ port @ path) =
    Some \<lparr> url_Scheme = scheme, url_Opaque = [], url_User = False, url_Host = name @ port, url_Path = path,
           url_RawQuery = query, url_Fragment = [] \<rparr>"
proof -
  obtain p where p: "path = CHR ''/'' # p" using assms(5,6) by (cases path) auto
  have chars: "c = CHR '':'' \<or> unreserved c" if "c \<in> set (name @ port)" for c
    using that assms(1,2) port_chars by (auto simp: list_all_iff)
  have ns: "\<forall>c \<in> set (name @ port). c \<noteq> CHR ''/'' \<and> c \<noteq> CHR ''@''"
    using chars unreserved_chars by fastforce
  then have "takeWhile (\<lambda>c. c \<noteq> CHR ''/'') ((name @ port) @ path) = name @ port"
    "dropWhile (\<lambda>c. c \<noteq> CHR ''/'') ((name @ port) @ path) = path"
    unfolding p by (simp_all add: takeWhile_append2 dropWhile_append2)
  moreover have "parse_authority (name @ port) = Some (False, name @ port)"
    using ns parse_host_name [OF assms(1,2)] by (auto simp: parse_authority_def)
  moreover have "url_unescape EncodePath path = Some path"
    using assms(4) url_plain_chars
    by (intro url_unescape_plain) (fastforce simp: list_all_iff unescape_plain_def)
  ultimately show ?thesis
    using assms(3) by (simp add: parse_rest_def parse_path_def has_prefix_def)
qed

lemma parse_url_text:
  assumes "list_all is_letter scheme" and "scheme \<noteq> []" and "map to_lower scheme = scheme"
    and "list_all unreserved name" and "valid_optional_port port"
    and "list_all url_plain path" and "path \<noteq> []" and "hd path = CHR ''/''" and "list_all url_plain query"
  shows "parse_url (scheme @ ''://'' @ name @ port @ path @ ''?'' @ query) =
    Some \<lparr> url_Scheme = scheme, url_Opaque = [], url_User = False, url_Host = name @ port, url_Path = path,
           url_RawQuery = query, url_Fragment = [] \<rparr>"
proof -
  let ?t = "scheme @ ''://'' @ name @ port @ path @ ''?'' @ query"
  have chars: "c \<in> set '':?/'' \<or> url_plain c" if "c \<in> set ?t" for c
    using that assms port_chars [OF assms(5), of c] lower_letter_unreserved by (auto simp: list_all_iff url_plain_def)
  have ok: "c \<noteq> CHR ''#'' \<and> \<not> ((of_char c :: nat) < 32 \<or> (of_char c :: nat) = 127)" if "c \<in> set ?t" for c
    using chars [OF that] url_plain_chars [of c] by auto
  have hash: "cut (CHR ''#'') ?t = (?t, [])" using ok by (intro cut_absent) blast
  have ctl: "\<not> contains_ctl ?t" using ok by (auto simp only: contains_ctl_def list_ex_iff)
  have star: "?t \<noteq> ''*''" using assms(2) by (cases scheme) auto
  have nq: "CHR ''?'' \<notin> set (''//'' @ name @ port @ path)"
    using assms(4,5,6) port_chars unreserved_chars url_plain_chars by (fastforce simp: list_all_iff)
  have sch: "get_scheme ?t = Some (scheme, ''//'' @ name @ port @ path @ ''?'' @ query)"
    using get_scheme_text [OF assms(1,2), of "''//'' @ name @ port @ path @ ''?'' @ query"] by simp
  have q: "cut (CHR ''?'') (''//'' @ name @ port @ path @ ''?'' @ query) = (''//'' @ name @ port @ path, query)"
    using cut_first [OF nq, of query] by simp
  show ?thesis
    unfolding parse_url_def hash prod.case sch if_not_P [OF ctl] if_not_P [OF star] Let_def option.case q assms(3)
      parse_rest_text [OF assms(4,5,2,6,7,8)]
    by simp
qed

lemma url_escape_host:
  assumes "list_all unreserved name" and "\<And>c. c \<in> set port \<Longrightarrow> c = CHR '':'' \<or> unreserved c"
  shows "url_escape EncodeHost (name @ port) = name @ port"
proof -
  have colon: "should_escape EncodeHost (CHR '':'') = False" by code_simp
  have "escape_char EncodeHost c = [c]" if "c \<in> set (name @ port)" for c
  proof -
    have "c = CHR '':'' \<or> unreserved c" using that assms by (auto simp: list_all_iff)
    then have "\<not> should_escape EncodeHost c" using colon by (auto simp: should_escape_def)
    then show ?thesis by (simp add: escape_char_def)
  qed
  then have "map (escape_char EncodeHost) (name @ port) = map (\<lambda>c. [c]) (name @ port)"
    by (intro map_cong refl)
  then have "url_escape EncodeHost (name @ port) = concat (map (\<lambda>c. [c]) (name @ port))"
    by (simp only: url_escape_def)
  then show ?thesis by (simp only: concat_map_singleton map_ident)
qed

end
