(* ===== verification/Config.thy ===== *)
theory Config
  imports UrlParse Json
begin

text \<open>
  \<open>internal/config/config.go\<close>: \<open>Load\<close> and its helpers, with what they use of \<open>strings\<close>, \<open>strconv\<close>, \<open>time\<close> and
  \<open>net\<close>. The operating system is the argument \<open>host\<close>: the environment, the files, and \<open>h_Fraction\<close>, the
  truncated double-precision product \<open>time.ParseDuration\<close> computes for the digits behind a decimal
  point. The loops of \<open>Load\<close> that range over Go maps take their order from \<open>range_orders\<close>.
\<close>

section \<open>Environment\<close>

record host =
  h_Getenv :: "string \<Rightarrow> string"
  h_ReadFile :: "string \<Rightarrow> bytes result"
  h_Fraction :: "nat \<Rightarrow> nat \<Rightarrow> nat \<Rightarrow> nat"

record config =
  cf_HTTPAddr :: string
  cf_GRPCAddr :: string
  cf_PublicWSBaseURL :: "url option"
  cf_AllowedOrigins :: "(string, unit) gomap"
  cf_StoreMode :: string
  cf_RedisURL :: string
  cf_TicketKeyFile :: string
  cf_TicketKey :: bytes
  cf_TicketTTL :: duration
  cf_SessionMaxDuration :: duration
  cf_IdempotencyTTL :: duration
  cf_MaxActiveSessions :: int
  cf_MaxActivePerSubject :: int
  cf_WSMaxMessageBytes :: int
  cf_WSHandshakeTimeout :: duration
  cf_RuntimeRequestTimeout :: duration
  cf_WSIdleTimeout :: duration
  cf_ShutdownGracePeriod :: duration
  cf_OTelServiceName :: string
  cf_OTelExporterEndpoint :: string

definition env :: "host \<Rightarrow> string \<Rightarrow> string \<Rightarrow> string" where
  "env h name fallback = (if h_Getenv h name \<noteq> [] then h_Getenv h name else fallback)"

section \<open>Texts\<close>

text \<open>\<open>strings.TrimSpace\<close>: \<open>go_spaces\<close> are the UTF-8 encodings of the runes of \<open>unicode.IsSpace\<close>.\<close>

definition go_spaces :: "string list" where
  "go_spaces =
    [[CHR 0x09], [CHR 0x0A], [CHR 0x0B], [CHR 0x0C], [CHR 0x0D], [CHR 0x20], [CHR 0xC2, CHR 0x85],
     [CHR 0xC2, CHR 0xA0], [CHR 0xE1, CHR 0x9A, CHR 0x80], [CHR 0xE2, CHR 0x80, CHR 0x80],
     [CHR 0xE2, CHR 0x80, CHR 0x81], [CHR 0xE2, CHR 0x80, CHR 0x82], [CHR 0xE2, CHR 0x80, CHR 0x83],
     [CHR 0xE2, CHR 0x80, CHR 0x84], [CHR 0xE2, CHR 0x80, CHR 0x85], [CHR 0xE2, CHR 0x80, CHR 0x86],
     [CHR 0xE2, CHR 0x80, CHR 0x87], [CHR 0xE2, CHR 0x80, CHR 0x88], [CHR 0xE2, CHR 0x80, CHR 0x89],
     [CHR 0xE2, CHR 0x80, CHR 0x8A], [CHR 0xE2, CHR 0x80, CHR 0xA8], [CHR 0xE2, CHR 0x80, CHR 0xA9],
     [CHR 0xE2, CHR 0x80, CHR 0xAF], [CHR 0xE2, CHR 0x81, CHR 0x9F], [CHR 0xE3, CHR 0x80, CHR 0x80]]"

lemma go_spaces_runes:
  "go_spaces = map encode_rune
     [9, 10, 11, 12, 13, 32, 0x85, 0xA0, 0x1680, 0x2000, 0x2001, 0x2002, 0x2003, 0x2004, 0x2005, 0x2006, 0x2007,
      0x2008, 0x2009, 0x200A, 0x2028, 0x2029, 0x202F, 0x205F, 0x3000]"
  by (simp add: go_spaces_def encode_rune_def rune_bytes_def valid_rune_def surrogate_def between_def
      char_of_def bit_0)

function trim_prefixes :: "string list \<Rightarrow> string \<Rightarrow> string" where
  "trim_prefixes ps s =
     (case filter (\<lambda>p. p \<noteq> [] \<and> has_prefix s p) ps of
        [] \<Rightarrow> s
      | p # _ \<Rightarrow> trim_prefixes ps (drop (length p) s))"
  by pat_completeness auto

termination trim_prefixes
proof (relation "measure (\<lambda>(ps, s). length s)", goal_cases)
  case (2 ps s p rest)
  then have "p \<in> set (filter (\<lambda>p. p \<noteq> [] \<and> has_prefix s p) ps)" by simp
  then have "p \<noteq> []" "has_prefix s p" by simp_all
  then show ?case by (cases s) (auto simp: has_prefix_def)
qed simp

definition trim_space :: "string \<Rightarrow> string" where
  "trim_space s = rev (trim_prefixes (map rev go_spaces) (rev (trim_prefixes go_spaces s)))"

text \<open>\<open>net.SplitHostPort\<close>, of which only the error is used.\<close>

definition split_host_port_ok :: "string \<Rightarrow> bool" where
  "split_host_port_ok hp \<longleftrightarrow>
     CHR '':'' \<in> set hp \<and>
     (let name = fst (last_cut (CHR '':'') hp) in
      if has_prefix hp ''['' then
        CHR '']'' \<in> set hp \<and> fst (cut (CHR '']'') hp) @ '']'' = name \<and>
        CHR ''['' \<notin> set (drop 1 hp) \<and> CHR '']'' \<notin> set (snd (cut (CHR '']'') hp))
      else CHR '':'' \<notin> set name \<and> CHR ''['' \<notin> set hp \<and> CHR '']'' \<notin> set hp)"

definition validate_addr :: "string \<Rightarrow> string \<Rightarrow> error option" where
  "validate_addr name addr =
     (if split_host_port_ok addr then None else Some (Wrap (ErrText ''invalid address'') name))"

text \<open>\<open>strconv.Atoi\<close> on 64 bits.\<close>

definition atoi :: "string \<Rightarrow> int option" where
  "atoi s =
     (let (neg, ds) = (case s of
          [] \<Rightarrow> (False, [])
        | c # t \<Rightarrow> if c = CHR ''-'' then (True, t) else if c = CHR ''+'' then (False, t) else (False, s))
      in
        case parse_nat ds of
          None \<Rightarrow> None
        | Some n \<Rightarrow>
            (let v = (if neg then - int n else int n) in
             if - (2 ^ 63) \<le> v \<and> v < 2 ^ 63 then Some v else None))"

section \<open>Durations\<close>

definition unit_nanos :: "string \<Rightarrow> nat option" where
  "unit_nanos = map_of
     [(''ns'', 1), (''us'', 1000), ([CHR 0xC2, CHR 0xB5, CHR ''s''], 1000), ([CHR 0xCE, CHR 0xBC, CHR ''s''], 1000),
      (''ms'', 1000000), (''s'', 1000000000), (''m'', 60000000000), (''h'', 3600000000000)]"

text \<open>\<open>leadingFraction\<close>: the digits that fit, and the power of ten they are divided by.\<close>

fun leading_fraction :: "string \<Rightarrow> nat \<Rightarrow> nat \<Rightarrow> bool \<Rightarrow> nat \<times> nat" where
  "leading_fraction [] x scale overflow = (x, scale)"
| "leading_fraction (c # cs) x scale overflow =
     (if overflow \<or> x > (2 ^ 63 - 1) div 10 \<or> x * 10 + (of_char c - 48) > 2 ^ 63
      then leading_fraction cs x scale True
      else leading_fraction cs (x * 10 + (of_char c - 48)) (scale * 10) False)"

text \<open>One component of a duration: its value in nanoseconds, and the text behind it.\<close>

definition unit_end :: "char \<Rightarrow> bool" where
  "unit_end c \<longleftrightarrow> c = CHR ''.'' \<or> is_digit c"

definition duration_part :: "host \<Rightarrow> string \<Rightarrow> (nat \<times> string) option" where
  "duration_part h s =
     (let whole = takeWhile is_digit s; s1 = dropWhile is_digit s;
          dot = has_prefix s1 ''.'';
          frac = (if dot then takeWhile is_digit (drop 1 s1) else []);
          s2 = (if dot then dropWhile is_digit (drop 1 s1) else s1);
          u = takeWhile (\<lambda>c. \<not> unit_end c) s2
      in
        if \<not> unit_end (hd s) \<or> digits_value whole > 2 ^ 63 \<or> (whole = [] \<and> frac = []) \<or> u = [] then None
        else
          (case unit_nanos u of
             None \<Rightarrow> None
           | Some unit \<Rightarrow>
               if digits_value whole > 2 ^ 63 div unit then None
               else
                 (let (f, scale) = leading_fraction frac 0 1 False;
                      v = (digits_value whole * unit + (if f > 0 then h_Fraction h f unit scale else 0)) mod 2 ^ 64
                  in
                    if v > 2 ^ 63 then None
                    else Some (v, dropWhile (\<lambda>c. \<not> unit_end c) s2))))"

lemma duration_part_shorter: "duration_part h s = Some (v, s') \<Longrightarrow> length s' < length s"
proof -
  assume a: "duration_part h s = Some (v, s')"
  define s2 where "s2 = (if has_prefix (dropWhile is_digit s) ''.'' then dropWhile is_digit (drop 1 (dropWhile is_digit s))
    else dropWhile is_digit s)"
  from a have u: "takeWhile (\<lambda>c. \<not> unit_end c) s2 \<noteq> []" and s': "s' = dropWhile (\<lambda>c. \<not> unit_end c) s2"
    by (auto simp: duration_part_def Let_def s2_def split: if_splits option.splits prod.splits)
  have "length s2 \<le> length s"
    using length_dropWhile_le [of is_digit s] length_dropWhile_le [of is_digit "drop 1 (dropWhile is_digit s)"]
    by (auto simp: s2_def)
  moreover have "length s' + length (takeWhile (\<lambda>c. \<not> unit_end c) s2) = length s2"
    by (metis s' add.commute length_append takeWhile_dropWhile_id)
  ultimately show ?thesis using u by (cases "takeWhile (\<lambda>c. \<not> unit_end c) s2") auto
qed

function duration_sum :: "host \<Rightarrow> nat \<Rightarrow> string \<Rightarrow> nat option" where
  "duration_sum h d s =
     (if s = [] then Some d
      else
        (case duration_part h s of
           None \<Rightarrow> None
         | Some (v, s') \<Rightarrow>
             (let d' = (d + v) mod 2 ^ 64 in if d' > 2 ^ 63 then None else duration_sum h d' s')))"
  by pat_completeness auto

termination duration_sum
  by (relation "measure (\<lambda>(h, d, s). length s)") (auto dest: duration_part_shorter)

definition parse_duration :: "host \<Rightarrow> string \<Rightarrow> duration option" where
  "parse_duration h raw =
     (let neg = has_prefix raw ''-'';
          s = (if neg \<or> has_prefix raw ''+'' then drop 1 raw else raw)
      in
        if s = ''0'' then Some 0
        else if s = [] then None
        else
          (case duration_sum h 0 s of
             None \<Rightarrow> None
           | Some d \<Rightarrow> if neg then Some (- int d) else if d > 2 ^ 63 - 1 then None else Some (int d)))"

definition duration :: "host \<Rightarrow> string \<Rightarrow> duration \<Rightarrow> duration result" where
  "duration h name fallback =
     (let raw = h_Getenv h name in
      if raw = [] then Inr fallback
      else
        (case parse_duration h raw of
           None \<Rightarrow> Inl (ErrText (name @ '' must be a positive duration''))
         | Some v \<Rightarrow> if v \<le> 0 then Inl (ErrText (name @ '' must be a positive duration'')) else Inr v))"

definition positive_int :: "host \<Rightarrow> string \<Rightarrow> int \<Rightarrow> int result" where
  "positive_int h name fallback =
     (let raw = h_Getenv h name in
      if raw = [] then Inr fallback
      else
        (case atoi raw of
           None \<Rightarrow> Inl (ErrText (name @ '' must be a positive integer''))
         | Some v \<Rightarrow> if v \<le> 0 then Inl (ErrText (name @ '' must be a positive integer'')) else Inr v))"

section \<open>Load\<close>

text \<open>The condition all the endpoints share: no error, a scheme, a host, nothing to hide in it.\<close>

definition plain_url :: "string list \<Rightarrow> url \<Rightarrow> bool" where
  "plain_url schemes u \<longleftrightarrow>
     url_Scheme u \<in> set schemes \<and> url_Host u \<noteq> [] \<and> \<not> url_User u \<and> url_RawQuery u = [] \<and> url_Fragment u = []"

definition parse_public_url :: "string \<Rightarrow> url result" where
  "parse_public_url raw =
     (if raw = [] then Inl (ErrText ''PUBLIC_WS_BASE_URL is required'')
      else
        (case parse_url raw of
           None \<Rightarrow> Inl (ErrText ''PUBLIC_WS_BASE_URL must be a ws/wss URL without userinfo, query, or fragment'')
         | Some u \<Rightarrow>
             if \<not> plain_url [''ws'', ''wss''] u
             then Inl (ErrText ''PUBLIC_WS_BASE_URL must be a ws/wss URL without userinfo, query, or fragment'')
             else if trim_suffix (url_Path u) ''/'' \<noteq> ''/api/v1/realtime''
             then Inl (ErrText ''PUBLIC_WS_BASE_URL path must end with /api/v1/realtime'')
             else Inr (u\<lparr> url_Path := trim_suffix (url_Path u) ''/'' \<rparr>)))"

fun parse_origin_items :: "string list \<Rightarrow> (string, unit) gomap \<Rightarrow> (string, unit) gomap result" where
  "parse_origin_items [] acc = Inr acc"
| "parse_origin_items (item # items) acc =
     (let origin = trim_space item in
      if origin = [] \<or> origin = ''*'' then Inl (ErrText ''ALLOWED_ORIGINS must contain explicit origins'')
      else
        (case parse_url origin of
           None \<Rightarrow> Inl (ErrText ''invalid origin in ALLOWED_ORIGINS'')
         | Some u \<Rightarrow>
             if \<not> plain_url [''http'', ''https''] u \<or> (url_Path u \<noteq> [] \<and> url_Path u \<noteq> ''/'')
             then Inl (ErrText ''invalid origin in ALLOWED_ORIGINS'')
             else parse_origin_items items (mput (trim_suffix origin ''/'') () acc)))"

definition parse_origins :: "string \<Rightarrow> (string, unit) gomap result" where
  "parse_origins raw =
     (if raw = [] then Inl (ErrText ''ALLOWED_ORIGINS is required'')
      else parse_origin_items (split_on (CHR '','') raw) [])"

text \<open>A variable of the configuration: its name, how it is read and how it is written.\<close>

type_synonym 'a var = "string \<times> (config \<Rightarrow> 'a) \<times> ('a \<Rightarrow> config \<Rightarrow> config)"

definition duration_vars :: "duration var list" where
  "duration_vars =
     [(''TICKET_TTL'', cf_TicketTTL, \<lambda>v. cf_TicketTTL_update (\<lambda>_. v)),
      (''SESSION_MAX_DURATION'', cf_SessionMaxDuration, \<lambda>v. cf_SessionMaxDuration_update (\<lambda>_. v)),
      (''IDEMPOTENCY_TTL'', cf_IdempotencyTTL, \<lambda>v. cf_IdempotencyTTL_update (\<lambda>_. v)),
      (''WS_HANDSHAKE_TIMEOUT'', cf_WSHandshakeTimeout, \<lambda>v. cf_WSHandshakeTimeout_update (\<lambda>_. v)),
      (''RUNTIME_REQUEST_TIMEOUT'', cf_RuntimeRequestTimeout, \<lambda>v. cf_RuntimeRequestTimeout_update (\<lambda>_. v)),
      (''WS_IDLE_TIMEOUT'', cf_WSIdleTimeout, \<lambda>v. cf_WSIdleTimeout_update (\<lambda>_. v)),
      (''SHUTDOWN_GRACE_PERIOD'', cf_ShutdownGracePeriod, \<lambda>v. cf_ShutdownGracePeriod_update (\<lambda>_. v))]"

definition int_vars :: "int var list" where
  "int_vars =
     [(''MAX_ACTIVE_SESSIONS'', cf_MaxActiveSessions, \<lambda>v. cf_MaxActiveSessions_update (\<lambda>_. v)),
      (''MAX_ACTIVE_PER_SUBJECT'', cf_MaxActivePerSubject, \<lambda>v. cf_MaxActivePerSubject_update (\<lambda>_. v))]"

fun load_vars :: "(string \<Rightarrow> 'a \<Rightarrow> 'a result) \<Rightarrow> 'a var list \<Rightarrow> config \<Rightarrow> config result" where
  "load_vars rd [] c = Inr c"
| "load_vars rd ((name, get, put) # vars) c =
     (case rd name (get c) of Inl e \<Rightarrow> Inl e | Inr v \<Rightarrow> load_vars rd vars (put v c))"

definition default_config :: "host \<Rightarrow> config" where
  "default_config h =
     \<lparr> cf_HTTPAddr = env h ''HTTP_ADDR'' '':8080'', cf_GRPCAddr = env h ''GRPC_ADDR'' '':9090'',
       cf_PublicWSBaseURL = None, cf_AllowedOrigins = [],
       cf_StoreMode = env h ''STORE_MODE'' ''redis'', cf_RedisURL = h_Getenv h ''REDIS_URL'',
       cf_TicketKeyFile = h_Getenv h ''TICKET_ENCRYPTION_KEY_FILE'', cf_TicketKey = replicate 32 0,
       cf_TicketTTL = 60 * 10 ^ 9, cf_SessionMaxDuration = 15 * 60 * 10 ^ 9, cf_IdempotencyTTL = 15 * 60 * 10 ^ 9,
       cf_MaxActiveSessions = 100, cf_MaxActivePerSubject = 5, cf_WSMaxMessageBytes = 65536,
       cf_WSHandshakeTimeout = 10 * 10 ^ 9, cf_RuntimeRequestTimeout = 30 * 10 ^ 9,
       cf_WSIdleTimeout = 10 * 60 * 10 ^ 9, cf_ShutdownGracePeriod = 25 * 10 ^ 9,
       cf_OTelServiceName = env h ''OTEL_SERVICE_NAME'' ''ani-session-gateway'',
       cf_OTelExporterEndpoint = h_Getenv h ''OTEL_EXPORTER_OTLP_ENDPOINT'' \<rparr>"

definition require :: "bool \<Rightarrow> string \<Rightarrow> unit result" where
  "require b msg = (if b then Inr () else Inl (ErrText msg))"

definition read_key :: "host \<Rightarrow> config \<Rightarrow> config result" where
  "read_key h c =
     result_bind (require (cf_TicketKeyFile c \<noteq> []) ''TICKET_ENCRYPTION_KEY_FILE is required'') (\<lambda>_.
       case h_ReadFile h (cf_TicketKeyFile c) of
         Inl e \<Rightarrow> Inl (Wrap e ''read TICKET_ENCRYPTION_KEY_FILE'')
       | Inr key \<Rightarrow>
           if length key \<noteq> 32 then Inl (ErrText ''TICKET_ENCRYPTION_KEY_FILE must contain exactly 32 raw bytes'')
           else Inr (c\<lparr> cf_TicketKey := key \<rparr>))"

definition check_endpoints :: "config \<Rightarrow> unit result" where
  "check_endpoints c =
     (case validate_addr ''HTTP_ADDR'' (cf_HTTPAddr c) of Some e \<Rightarrow> Inl e | None \<Rightarrow>
     (case validate_addr ''GRPC_ADDR'' (cf_GRPCAddr c) of Some e \<Rightarrow> Inl e | None \<Rightarrow>
     result_bind (require (cf_HTTPAddr c \<noteq> cf_GRPCAddr c) ''HTTP_ADDR and GRPC_ADDR must differ'') (\<lambda>_.
     result_bind (require (cf_StoreMode c = ''memory'' \<or> cf_StoreMode c = ''redis'') ''STORE_MODE must be redis or memory'') (\<lambda>_.
     result_bind (require (\<not> (cf_StoreMode c = ''redis'' \<and> cf_RedisURL c = [])) ''REDIS_URL is required in redis mode'') (\<lambda>_.
     result_bind (require (cf_OTelServiceName c \<noteq> []) ''OTEL_SERVICE_NAME must not be empty'') (\<lambda>_.
     if cf_OTelExporterEndpoint c = [] then Inr ()
     else
       require (case parse_url (cf_OTelExporterEndpoint c) of None \<Rightarrow> False | Some u \<Rightarrow> plain_url [''http'', ''https''] u)
         ''OTEL_EXPORTER_OTLP_ENDPOINT must be an http/https URL without userinfo, query, or fragment''))))))"

text \<open>The orders in which the three loops over maps visit their entries.\<close>

record range_orders =
  ro_durations :: "duration var list"
  ro_ints :: "int var list"
  ro_origins :: "string list \<Rightarrow> string list"

definition is_range_order :: "range_orders \<Rightarrow> bool" where
  "is_range_order ord \<longleftrightarrow>
     mset (ro_durations ord) = mset duration_vars \<and> mset (ro_ints ord) = mset int_vars \<and>
     (\<forall>xs. mset (ro_origins ord xs) = mset xs)"

definition source_order :: range_orders where
  "source_order = \<lparr> ro_durations = duration_vars, ro_ints = int_vars, ro_origins = id \<rparr>"

fun check_origins :: "config \<Rightarrow> string list \<Rightarrow> unit result" where
  "check_origins c [] = Inr ()"
| "check_origins c (origin # origins) =
     (if has_prefix origin ''https://'' \<and> map_option url_Scheme (cf_PublicWSBaseURL c) \<noteq> Some ''wss''
      then Inl (ErrText ''HTTPS origins require a wss PUBLIC_WS_BASE_URL'')
      else check_origins c origins)"

definition load_config :: "host \<Rightarrow> range_orders \<Rightarrow> config result" where
  "load_config h ord =
     result_bind (parse_public_url (h_Getenv h ''PUBLIC_WS_BASE_URL'')) (\<lambda>base.
     result_bind (parse_origins (h_Getenv h ''ALLOWED_ORIGINS'')) (\<lambda>origins.
     result_bind (read_key h ((default_config h)\<lparr> cf_PublicWSBaseURL := Some base, cf_AllowedOrigins := origins \<rparr>)) (\<lambda>c0.
     result_bind (check_endpoints c0) (\<lambda>_.
     result_bind (load_vars (duration h) (ro_durations ord) c0) (\<lambda>c1.
     result_bind (load_vars (positive_int h) (ro_ints ord) c1) (\<lambda>c2.
     result_bind (positive_int h ''WS_MAX_MESSAGE_BYTES'' (cf_WSMaxMessageBytes c2)) (\<lambda>n.
     let c3 = c2\<lparr> cf_WSMaxMessageBytes := n \<rparr> in
     result_bind (require (cf_TicketTTL c3 < cf_SessionMaxDuration c3)
       ''TICKET_TTL must be shorter than SESSION_MAX_DURATION'') (\<lambda>_.
     result_bind (check_origins c3 (ro_origins ord (map fst (cf_AllowedOrigins c3)))) (\<lambda>_.
     Inr c3)))))))))"

end
