(* ===== verification/ConfigFacts.thy ===== *)
theory ConfigFacts
  imports Config
begin

text \<open>
  What a configuration that \<open>Load\<close> returns promises to the components built from it, and that the order
  of Go's map iteration decides at most which error is reported.
\<close>

section \<open>The loops over variables\<close>

text \<open>Distinct variables do not disturb each other.\<close>

definition undisturbed :: "'a var \<Rightarrow> 'a var \<Rightarrow> bool" where
  "undisturbed x y \<longleftrightarrow>
     (\<forall>v w c. fst (snd x) (snd (snd y) w c) = fst (snd x) c \<and>
        snd (snd x) v (snd (snd y) w c) = snd (snd y) w (snd (snd x) v c))"

definition independent :: "'a var list \<Rightarrow> bool" where
  "independent vars \<longleftrightarrow>
     distinct (map fst vars) \<and> (\<forall>x \<in> set vars. \<forall>y \<in> set vars. fst x \<noteq> fst y \<longrightarrow> undisturbed x y)"

lemma independent_duration_vars: "independent duration_vars"
  by (simp add: independent_def undisturbed_def duration_vars_def)

lemma independent_int_vars: "independent int_vars"
  by (simp add: independent_def undisturbed_def int_vars_def)

lemma independent_perm:
  assumes "mset vars = mset vars'" and "independent vars'"
  shows "independent vars"
proof -
  have "mset (map fst vars) = mset (map fst vars')" using assms(1) by simp
  then have "distinct (map fst vars) = distinct (map fst vars')" by (rule mset_eq_imp_distinct_iff)
  with assms(2) mset_eq_setD [OF assms(1)] show ?thesis by (simp add: independent_def)
qed

definition readable :: "(string \<Rightarrow> 'a \<Rightarrow> 'a result) \<Rightarrow> config \<Rightarrow> 'a var \<Rightarrow> bool" where
  "readable rd c x \<longleftrightarrow> (\<exists>v. rd (fst x) (fst (snd x) c) = Inr v)"

definition write_var :: "(string \<Rightarrow> 'a \<Rightarrow> 'a result) \<Rightarrow> config \<Rightarrow> 'a var \<Rightarrow> config \<Rightarrow> config" where
  "write_var rd c x = snd (snd x) (projr (rd (fst x) (fst (snd x) c)))"

lemma load_vars_Cons [simp]:
  "load_vars rd (x # vars) c =
     (case rd (fst x) (fst (snd x) c) of Inl e \<Rightarrow> Inl e | Inr v \<Rightarrow> load_vars rd vars (snd (snd x) v c))"
  by (cases x) (auto split: sum.split)

declare load_vars.simps(2) [simp del]

lemma independent_ConsD:
  assumes "independent (x # vars)"
  shows "independent vars" and "y \<in> set vars \<Longrightarrow> undisturbed y x"
  using assms by (auto simp: independent_def) (metis image_eqI)

lemma undisturbed_reads:
  assumes "undisturbed y x"
  shows "readable rd (snd (snd x) v c) y = readable rd c y"
    and "write_var rd (snd (snd x) v c) y = write_var rd c y"
  using assms by (simp_all add: undisturbed_def readable_def write_var_def)

lemma load_vars_fold:
  "independent vars \<Longrightarrow> \<forall>x \<in> set vars. readable rd c x \<Longrightarrow> load_vars rd vars c = Inr (fold (write_var rd c) vars c)"
proof (induction vars arbitrary: c)
  case (Cons x vars)
  note d = independent_ConsD [OF Cons.prems(1)]
  obtain v where v: "rd (fst x) (fst (snd x) c) = Inr v"
    using Cons.prems(2) by (auto simp: readable_def)
  let ?c = "snd (snd x) v c"
  have "\<forall>y \<in> set vars. readable rd ?c y"
    using Cons.prems(2) d(2) undisturbed_reads(1) by (metis list.set_intros(2))
  then have "load_vars rd vars ?c = Inr (fold (write_var rd ?c) vars ?c)"
    by (rule Cons.IH [OF d(1)])
  moreover have "fold (write_var rd ?c) vars ?c = fold (write_var rd c) vars ?c"
    using d(2) by (intro fold_cong) (simp_all add: undisturbed_reads(2))
  moreover have "write_var rd c x c = ?c" by (simp add: v write_var_def)
  ultimately show ?case by (simp add: v)
qed simp

lemma load_vars_readable:
  "independent vars \<Longrightarrow> load_vars rd vars c = Inr c' \<Longrightarrow> \<forall>x \<in> set vars. readable rd c x"
proof (induction vars arbitrary: c)
  case (Cons x vars)
  note d = independent_ConsD [OF Cons.prems(1)]
  obtain v where v: "rd (fst x) (fst (snd x) c) = Inr v" "load_vars rd vars (snd (snd x) v c) = Inr c'"
    using Cons.prems(2) by (auto split: sum.splits)
  then have "\<forall>y \<in> set vars. readable rd c y"
    using Cons.IH [OF d(1)] d(2) undisturbed_reads(1) by metis
  with v(1) show ?case by (simp add: readable_def)
qed simp

lemma write_var_commute:
  assumes "independent vars" and "x \<in> set vars" and "y \<in> set vars"
  shows "write_var rd c x \<circ> write_var rd c y = write_var rd c y \<circ> write_var rd c x"
proof (cases "fst x = fst y")
  case True
  then have "x = y" using assms by (auto simp: independent_def inj_on_def distinct_map)
  then show ?thesis by simp
next
  case False
  with assms have "undisturbed x y" by (simp add: independent_def)
  then show ?thesis by (simp add: undisturbed_def write_var_def fun_eq_iff)
qed

text \<open>Any two orders agree on success and on the result.\<close>

lemma load_vars_perm:
  assumes "independent vars'" and "mset vars = mset vars'"
  shows "load_vars rd vars c = Inr c' \<longleftrightarrow> load_vars rd vars' c = Inr c'"
proof -
  have ind: "independent vars" and st: "set vars = set vars'"
    using independent_perm [OF assms(2,1)] mset_eq_setD [OF assms(2)] by simp_all
  have same: "fold (write_var rd c) vars = fold (write_var rd c) vars'"
    by (rule fold_multiset_equiv) (simp_all add: write_var_commute [OF ind] assms(2))
  show ?thesis
  proof (cases "\<forall>x \<in> set vars. readable rd c x")
    case True
    then show ?thesis using load_vars_fold [OF ind] load_vars_fold [OF assms(1)] st same by simp
  next
    case False
    then show ?thesis using load_vars_readable [OF ind] load_vars_readable [OF assms(1)] st by blast
  qed
qed

lemma check_origins_iff:
  "check_origins c os = Inr () \<longleftrightarrow>
     (\<forall>origin \<in> set os. has_prefix origin ''https://'' \<longrightarrow> map_option url_Scheme (cf_PublicWSBaseURL c) = Some ''wss'')"
  by (induction os) auto

lemma result_bind_Inr [simp]: "result_bind r f = Inr y \<longleftrightarrow> (\<exists>x. r = Inr x \<and> f x = Inr y)"
  by (auto simp: result_bind_def split: sum.splits)

lemma require_Inr [simp]: "require b msg = Inr u \<longleftrightarrow> b"
  by (simp add: require_def)

lemma load_config_source_order:
  assumes "is_range_order ord"
  shows "load_config h ord = Inr c \<longleftrightarrow> load_config h source_order = Inr c"
proof -
  have d: "load_vars (duration h) (ro_durations ord) c0 = Inr c1 \<longleftrightarrow>
      load_vars (duration h) duration_vars c0 = Inr c1" for c0 c1
    using assms by (intro load_vars_perm independent_duration_vars) (simp add: is_range_order_def)
  have i: "load_vars (positive_int h) (ro_ints ord) c0 = Inr c1 \<longleftrightarrow>
      load_vars (positive_int h) int_vars c0 = Inr c1" for c0 c1
    using assms by (intro load_vars_perm independent_int_vars) (simp add: is_range_order_def)
  have "set (ro_origins ord xs) = set xs" for xs
    using assms mset_eq_setD by (auto simp: is_range_order_def)
  then have o: "check_origins c (ro_origins ord xs) = Inr () \<longleftrightarrow> check_origins c xs = Inr ()" for c xs
    by (simp add: check_origins_iff)
  show ?thesis
    by (simp add: load_config_def Let_def d i o source_order_def)
qed

section \<open>What is checked\<close>

lemma duration_positive: "duration h name d = Inr v \<Longrightarrow> 0 < d \<Longrightarrow> 0 < v"
  by (auto simp: duration_def Let_def split: if_splits option.splits)

lemma positive_int_bounds: "positive_int h name d = Inr v \<Longrightarrow> 0 < d \<and> d < 2 ^ 63 \<Longrightarrow> 0 < v \<and> v < 2 ^ 63"
  by (auto simp: positive_int_def atoi_def Let_def split: if_splits option.splits prod.splits)

text \<open>An origin is a scheme and an authority, and what it is listed under is its text without a final slash.\<close>

definition origin_text :: "string \<Rightarrow> string \<Rightarrow> bool" where
  "origin_text key origin \<longleftrightarrow>
     key = trim_suffix origin ''/'' \<and> origin \<noteq> ''*'' \<and>
     (case parse_url origin of None \<Rightarrow> False
      | Some u \<Rightarrow> plain_url [''http'', ''https''] u \<and> url_Path u \<in> {[], ''/''})"

lemma keys_mput: "fst ` set (mput k v m) = insert k (fst ` set m)"
  by (simp add: mput_def dom_update)

lemma parse_origin_items_sound:
  "parse_origin_items items acc = Inr m \<Longrightarrow>
     (items \<noteq> [] \<or> acc \<noteq> [] \<longrightarrow> m \<noteq> []) \<and>
     (\<forall>key \<in> set (map fst m). key \<in> set (map fst acc) \<or> (\<exists>item \<in> set items. origin_text key (trim_space item)))"
proof (induction items arbitrary: acc)
  case (Cons item items)
  obtain u where u: "parse_url (trim_space item) = Some u" "plain_url [''http'', ''https''] u"
      "url_Path u \<in> {[], ''/''}" "trim_space item \<noteq> ''*''"
    and rest: "parse_origin_items items (mput (trim_suffix (trim_space item) ''/'') () acc) = Inr m"
    using Cons.prems by (auto simp: Let_def split: if_splits option.splits)
  have "origin_text (trim_suffix (trim_space item) ''/'') (trim_space item)"
    using u by (simp add: origin_text_def)
  moreover have "mput (trim_suffix (trim_space item) ''/'') () acc \<noteq> []"
    by (cases acc) (auto simp: mput_def)
  ultimately show ?case
    using Cons.IH [OF rest] by (auto simp: keys_mput)
qed simp

text \<open>
  What the components rely on. The base URL has the path under which the router serves the sessions;
  every listed origin is explicit; both listeners have an address of their own; every duration and limit
  is positive, and a ticket ends before the session it opens could.
\<close>

definition sound_config :: "config \<Rightarrow> bool" where
  "sound_config c \<longleftrightarrow>
     (case cf_PublicWSBaseURL c of None \<Rightarrow> False
      | Some u \<Rightarrow> plain_url [''ws'', ''wss''] u \<and> url_Path u = ''/api/v1/realtime'' \<and>
          (list_ex (\<lambda>(origin, _). has_prefix origin ''https://'') (cf_AllowedOrigins c) \<longrightarrow> url_Scheme u = ''wss'')) \<and>
     cf_AllowedOrigins c \<noteq> [] \<and>
     list_all (\<lambda>(key, _). origin_text key key \<or> origin_text key (key @ ''/'')) (cf_AllowedOrigins c) \<and>
     length (cf_TicketKey c) = 32 \<and>
     split_host_port_ok (cf_HTTPAddr c) \<and> split_host_port_ok (cf_GRPCAddr c) \<and> cf_HTTPAddr c \<noteq> cf_GRPCAddr c \<and>
     (cf_StoreMode c = ''memory'' \<or> cf_StoreMode c = ''redis'' \<and> cf_RedisURL c \<noteq> []) \<and>
     cf_OTelServiceName c \<noteq> [] \<and>
     (cf_OTelExporterEndpoint c \<noteq> [] \<longrightarrow>
        (case parse_url (cf_OTelExporterEndpoint c) of None \<Rightarrow> False | Some u \<Rightarrow> plain_url [''http'', ''https''] u)) \<and>
     0 < cf_TicketTTL c \<and> cf_TicketTTL c < cf_SessionMaxDuration c \<and> 0 < cf_IdempotencyTTL c \<and>
     0 < cf_WSHandshakeTimeout c \<and> 0 < cf_RuntimeRequestTimeout c \<and> 0 < cf_WSIdleTimeout c \<and>
     0 < cf_ShutdownGracePeriod c \<and>
     0 < cf_MaxActiveSessions c \<and> cf_MaxActiveSessions c < 2 ^ 63 \<and>
     0 < cf_MaxActivePerSubject c \<and> cf_MaxActivePerSubject c < 2 ^ 63 \<and>
     0 < cf_WSMaxMessageBytes c \<and> cf_WSMaxMessageBytes c < 2 ^ 63"

lemma trim_slash_cases: "trim_suffix s ''/'' = k \<Longrightarrow> s = k \<or> s = k @ ''/''"
  by (auto simp: trim_suffix_def split: if_splits) (metis append_take_drop_id)

lemma origin_text_listed: "origin_text key origin \<Longrightarrow> origin_text key key \<or> origin_text key (key @ ''/'')"
  using trim_slash_cases [of origin key] by (auto simp: origin_text_def)

lemma parse_origins_sound:
  assumes "parse_origins raw = Inr m"
  shows "m \<noteq> []" and "list_all (\<lambda>(key, _). origin_text key key \<or> origin_text key (key @ ''/'')) m"
proof -
  from assms have p: "parse_origin_items (split_on (CHR '','') raw) [] = Inr m"
    by (auto simp: parse_origins_def split: if_splits)
  have "split_on (CHR '','') raw \<noteq> []"
    by (induction raw) (auto split: list.splits)
  with parse_origin_items_sound [OF p] show "m \<noteq> []" by simp
  from parse_origin_items_sound [OF p]
  show "list_all (\<lambda>(key, _). origin_text key key \<or> origin_text key (key @ ''/'')) m"
    using origin_text_listed by (fastforce simp: list_all_iff)
qed

lemma parse_public_url_sound:
  "parse_public_url raw = Inr u \<Longrightarrow> plain_url [''ws'', ''wss''] u \<and> url_Path u = ''/api/v1/realtime''"
  by (auto simp: parse_public_url_def plain_url_def split: if_splits option.splits)

lemma read_key_sound:
  "read_key h c = Inr c' \<Longrightarrow> length (cf_TicketKey c') = 32 \<and> c' = c\<lparr> cf_TicketKey := cf_TicketKey c' \<rparr>"
  by (auto simp: read_key_def split: sum.splits if_splits)

lemma load_vars_Inr:
  "load_vars rd (x # vars) c = Inr c' \<longleftrightarrow>
     (\<exists>v. rd (fst x) (fst (snd x) c) = Inr v \<and> load_vars rd vars (snd (snd x) v c) = Inr c')"
  by (auto split: sum.splits)

lemma load_durations_sound:
  assumes "load_vars (duration h) duration_vars c = Inr c'"
    and "0 < cf_TicketTTL c" "0 < cf_IdempotencyTTL c" "0 < cf_WSHandshakeTimeout c" "0 < cf_RuntimeRequestTimeout c"
      "0 < cf_WSIdleTimeout c" "0 < cf_ShutdownGracePeriod c"
  obtains t s i hs r w g where "0 < t" "0 < i" "0 < hs" "0 < r" "0 < w" "0 < g"
    "c' = c\<lparr> cf_TicketTTL := t, cf_SessionMaxDuration := s, cf_IdempotencyTTL := i, cf_WSHandshakeTimeout := hs,
            cf_RuntimeRequestTimeout := r, cf_WSIdleTimeout := w, cf_ShutdownGracePeriod := g \<rparr>"
proof -
  obtain t s i hs r w g where
    "duration h ''TICKET_TTL'' (cf_TicketTTL c) = Inr t" "duration h ''IDEMPOTENCY_TTL'' (cf_IdempotencyTTL c) = Inr i"
    "duration h ''WS_HANDSHAKE_TIMEOUT'' (cf_WSHandshakeTimeout c) = Inr hs"
    "duration h ''RUNTIME_REQUEST_TIMEOUT'' (cf_RuntimeRequestTimeout c) = Inr r"
    "duration h ''WS_IDLE_TIMEOUT'' (cf_WSIdleTimeout c) = Inr w"
    "duration h ''SHUTDOWN_GRACE_PERIOD'' (cf_ShutdownGracePeriod c) = Inr g"
    and c': "c' = c\<lparr> cf_TicketTTL := t, cf_SessionMaxDuration := s, cf_IdempotencyTTL := i, cf_WSHandshakeTimeout := hs,
            cf_RuntimeRequestTimeout := r, cf_WSIdleTimeout := w, cf_ShutdownGracePeriod := g \<rparr>"
    using assms(1) unfolding duration_vars_def load_vars_Inr by simp blast
  then show thesis
    using assms(2-) by (intro that [OF _ _ _ _ _ _ c']) (auto dest: duration_positive)
qed

lemma load_ints_sound:
  assumes "load_vars (positive_int h) int_vars c = Inr c'"
    and "0 < cf_MaxActiveSessions c \<and> cf_MaxActiveSessions c < 2 ^ 63"
      "0 < cf_MaxActivePerSubject c \<and> cf_MaxActivePerSubject c < 2 ^ 63"
  shows "\<exists>a b. 0 < a \<and> a < 2 ^ 63 \<and> 0 < b \<and> b < 2 ^ 63 \<and>
    c' = c\<lparr> cf_MaxActiveSessions := a, cf_MaxActivePerSubject := b \<rparr>"
  using assms(1) positive_int_bounds [OF _ assms(2)] positive_int_bounds [OF _ assms(3)]
  by (simp add: int_vars_def split: sum.splits) blast

lemma check_endpoints_sound:
  "check_endpoints c = Inr () \<Longrightarrow>
     split_host_port_ok (cf_HTTPAddr c) \<and> split_host_port_ok (cf_GRPCAddr c) \<and> cf_HTTPAddr c \<noteq> cf_GRPCAddr c \<and>
     (cf_StoreMode c = ''memory'' \<or> cf_StoreMode c = ''redis'' \<and> cf_RedisURL c \<noteq> []) \<and>
     cf_OTelServiceName c \<noteq> [] \<and>
     (cf_OTelExporterEndpoint c \<noteq> [] \<longrightarrow>
        (case parse_url (cf_OTelExporterEndpoint c) of None \<Rightarrow> False | Some u \<Rightarrow> plain_url [''http'', ''https''] u))"
  by (auto simp: check_endpoints_def validate_addr_def split: if_splits option.splits)

lemma load_config_sound:
  assumes "is_range_order ord" and "load_config h ord = Inr c"
  shows "sound_config c"
proof -
  from assms have "load_config h source_order = Inr c" by (simp add: load_config_source_order)
  then obtain base origins c0 c1 c2 n where
    u: "parse_public_url (h_Getenv h ''PUBLIC_WS_BASE_URL'') = Inr base"
    and og: "parse_origins (h_Getenv h ''ALLOWED_ORIGINS'') = Inr origins"
    and k: "read_key h ((default_config h)\<lparr> cf_PublicWSBaseURL := Some base, cf_AllowedOrigins := origins \<rparr>) = Inr c0"
    and e: "check_endpoints c0 = Inr ()"
    and d: "load_vars (duration h) duration_vars c0 = Inr c1"
    and i: "load_vars (positive_int h) int_vars c1 = Inr c2"
    and m: "positive_int h ''WS_MAX_MESSAGE_BYTES'' (cf_WSMaxMessageBytes c2) = Inr n"
    and c: "c = c2\<lparr> cf_WSMaxMessageBytes := n \<rparr>"
    and t: "cf_TicketTTL c2 < cf_SessionMaxDuration c2"
    and co: "check_origins c (map fst (cf_AllowedOrigins c)) = Inr ()"
    by (auto simp: load_config_def Let_def source_order_def)
  from read_key_sound [OF k] obtain key where key: "length key = 32"
    and c0: "c0 = (default_config h)\<lparr> cf_PublicWSBaseURL := Some base, cf_AllowedOrigins := origins, cf_TicketKey := key \<rparr>"
    by auto
  obtain tt s ii hs r w g where pos: "0 < tt" "0 < ii" "0 < hs" "0 < r" "0 < w" "0 < g"
    and c1: "c1 = c0\<lparr> cf_TicketTTL := tt, cf_SessionMaxDuration := s, cf_IdempotencyTTL := ii, cf_WSHandshakeTimeout := hs,
            cf_RuntimeRequestTimeout := r, cf_WSIdleTimeout := w, cf_ShutdownGracePeriod := g \<rparr>"
    by (rule load_durations_sound [OF d]) (simp_all add: c0 default_config_def)
  obtain a b where ab: "0 < a" "a < 2 ^ 63" "0 < b" "b < 2 ^ 63"
    and c2: "c2 = c1\<lparr> cf_MaxActiveSessions := a, cf_MaxActivePerSubject := b \<rparr>"
    using load_ints_sound [OF i] by (auto simp: c1 c0 default_config_def)
  have "0 < n \<and> n < 2 ^ 63"
    by (rule positive_int_bounds [OF m]) (simp add: c2 c1 c0 default_config_def)
  moreover have "list_ex (\<lambda>(origin, _). has_prefix origin ''https://'') origins \<longrightarrow> url_Scheme base = ''wss''"
    using co by (fastforce simp: c c2 c1 c0 check_origins_iff list_ex_iff)
  ultimately show ?thesis
    using parse_public_url_sound [OF u] parse_origins_sound [OF og] check_endpoints_sound [OF e] pos ab t key
    by (simp add: sound_config_def c c2 c1 c0)
qed

text \<open>The store variables of a loaded configuration are those of the environment.\<close>

lemma load_vars_keeps:
  assumes "\<forall>x \<in> set vars. \<forall>v c. f (snd (snd x) v c) = f c"
  shows "load_vars rd vars c = Inr c' \<Longrightarrow> f c' = f c"
  using assms by (induction vars arbitrary: c) (auto simp: load_vars_Inr simp del: load_vars_Cons)

lemma load_config_store:
  assumes "is_range_order ord" and "load_config h ord = Inr c"
  shows "cf_StoreMode c = env h ''STORE_MODE'' ''redis'' \<and> cf_RedisURL c = h_Getenv h ''REDIS_URL''"
proof -
  let ?f = "\<lambda>c. (cf_StoreMode c, cf_RedisURL c)"
  from assms have "load_config h source_order = Inr c" by (simp add: load_config_source_order)
  then obtain c0 c1 c2 base origins n where
    k: "read_key h ((default_config h)\<lparr> cf_PublicWSBaseURL := Some base, cf_AllowedOrigins := origins \<rparr>) = Inr c0"
    and d: "load_vars (duration h) duration_vars c0 = Inr c1"
    and i: "load_vars (positive_int h) int_vars c1 = Inr c2" and c: "c = c2\<lparr> cf_WSMaxMessageBytes := n \<rparr>"
    by (auto simp: load_config_def Let_def source_order_def)
  have "?f c1 = ?f c0" by (rule load_vars_keeps [OF _ d]) (simp add: duration_vars_def)
  moreover have "?f c2 = ?f c1" by (rule load_vars_keeps [OF _ i]) (simp add: int_vars_def)
  moreover have "?f c0 = ?f (default_config h)"
    using k by (auto simp: read_key_def split: sum.splits if_splits)
  ultimately show ?thesis by (simp add: c default_config_def)
qed

section \<open>Properties\<close>

definition table_host :: "(string \<times> string) list \<Rightarrow> host" where
  "table_host vars =
     \<lparr> h_Getenv = (\<lambda>name. case map_of vars name of None \<Rightarrow> [] | Some v \<Rightarrow> v),
       h_ReadFile = (\<lambda>file. if file = ''/key'' then Inr (replicate 32 7) else Inl (ErrText ''no such file'')),
       h_Fraction = (\<lambda>f u scale. f * u div scale) \<rparr>"

definition managed_vars :: "(string \<times> string) list" where
  "managed_vars =
     [(''RESOURCE_INSTANCE_ADDR'', ''resource:9443''), (''RESOURCE_INSTANCE_SERVER_NAME'', ''resource''),
      (''RESOURCE_INSTANCE_CA_FILE'', ''/key''), (''INSTANCE_CONTROL_CA_FILE'', ''/key''),
      (''RESOURCE_INSTANCE_CLUSTER_ID'', ''c1'')]"

definition demo_host :: "bool \<Rightarrow> string \<Rightarrow> string \<Rightarrow> host" where
  "demo_host managed base origins = table_host
     ([(''PUBLIC_WS_BASE_URL'', base), (''ALLOWED_ORIGINS'', origins), (''TICKET_ENCRYPTION_KEY_FILE'', ''/key''),
       (''STORE_MODE'', ''memory'')] @ (if managed then managed_vars else []))"

definition demo_default :: config where
  "demo_default = default_config (demo_host False [] [])"

definition demo_loaded :: "url \<Rightarrow> string \<Rightarrow> config" where
  "demo_loaded base origin = demo_default
     \<lparr> cf_PublicWSBaseURL := Some base, cf_AllowedOrigins := [(origin, ())], cf_TicketKey := replicate 32 7 \<rparr>"

lemma demo_host_simps [simp]:
  "h_Getenv (demo_host m b os) ''PUBLIC_WS_BASE_URL'' = b"
  "h_Getenv (demo_host m b os) ''ALLOWED_ORIGINS'' = os"
  "h_Getenv (demo_host m b os) ''TICKET_ENCRYPTION_KEY_FILE'' = ''/key''"
  "h_Getenv (demo_host m b os) ''WS_MAX_MESSAGE_BYTES'' = []"
  "h_ReadFile (demo_host m b os) ''/key'' = Inr (replicate 32 7)"
  "default_config (demo_host m b os) = demo_default"
  by (simp_all add: demo_default_def demo_host_def managed_vars_def table_host_def default_config_def env_def)

lemma demo_vars [simp]:
  "load_vars (duration (demo_host m b os)) duration_vars c = Inr c"
  "load_vars (positive_int (demo_host m b os)) int_vars c = Inr c"
  by (simp_all add: duration_vars_def int_vars_def duration_def positive_int_def demo_host_def managed_vars_def table_host_def)

lemma demo_endpoints: "check_endpoints (demo_loaded base origin) = Inr ()"
proof -
  have "split_host_port_ok '':8080''" "split_host_port_ok '':9090''" by code_simp+
  then show ?thesis
    by (simp add: check_endpoints_def demo_loaded_def demo_default_def demo_host_def table_host_def env_def default_config_def
        validate_addr_def require_def result_bind_def)
qed

lemma demo_load:
  assumes "parse_public_url b = Inr u" and "parse_origins os = Inr [(origin, ())]"
  shows "load_config (demo_host m b os) source_order =
    (if has_prefix origin ''https://'' \<and> url_Scheme u \<noteq> ''wss''
     then Inl (ErrText ''HTTPS origins require a wss PUBLIC_WS_BASE_URL'') else Inr (demo_loaded u origin))"
proof -
  have key: "read_key (demo_host m b os)
      (demo_default\<lparr> cf_PublicWSBaseURL := Some u, cf_AllowedOrigins := [(origin, ())] \<rparr>) =
      Inr (demo_loaded u origin)"
    by (simp add: read_key_def demo_loaded_def demo_default_def demo_host_def table_host_def default_config_def
        require_def result_bind_def)
  moreover have "cf_TicketTTL (demo_loaded u origin) < cf_SessionMaxDuration (demo_loaded u origin)"
    by (simp add: demo_loaded_def demo_default_def demo_host_def table_host_def env_def default_config_def)
  moreover have "cf_AllowedOrigins (demo_loaded u origin) = [(origin, ())]"
    "cf_PublicWSBaseURL (demo_loaded u origin) = Some u"
    "(demo_loaded u origin)\<lparr> cf_WSMaxMessageBytes := cf_WSMaxMessageBytes (demo_loaded u origin) \<rparr> = demo_loaded u origin"
    by (simp_all add: demo_loaded_def)
  ultimately show ?thesis
    by (simp add: load_config_def assms demo_endpoints source_order_def require_def result_bind_def
        positive_int_def Let_def)
qed

definition demo_url :: "string \<Rightarrow> url" where
  "demo_url scheme = \<lparr> url_Scheme = scheme, url_Opaque = [], url_User = False, url_Host = ''gw:30081'',
     url_Path = ''/api/v1/realtime'', url_RawQuery = [], url_Fragment = [] \<rparr>"

lemma demo_parsed:
  "parse_public_url ''ws://gw:30081/api/v1/realtime/'' = Inr (demo_url ''ws'')"
  "parse_public_url ''wss://gw:30081/api/v1/realtime/'' = Inr (demo_url ''wss'')"
  "parse_origins '' https://a.test/'' = Inr [(''https://a.test'', ())]"
  "parse_origins ''HTTPS://a.test'' = Inr [(''HTTPS://a.test'', ())]"
  by code_simp+

text \<open>
  C36: a configuration that loads is sound. For every environment and every order of Go's map
  iteration, a loaded configuration has a WebSocket base URL with the served path and nothing to hide
  in it, explicit origins only, a 32-byte key, two different addresses, a known store, positive
  durations and limits within 64 bits, a ticket lifetime below the session's, and a wss base URL when
  an origin starts with https; and the order decides neither whether loading succeeds nor what is loaded.
\<close>

theorem config_sound_in_any_order:
  assumes "is_range_order ord"
  shows "(load_config h ord = Inr c \<longleftrightarrow> load_config h source_order = Inr c) \<and>
    (load_config h ord = Inr c \<longrightarrow> sound_config c)"
  using load_config_source_order [OF assms] load_config_sound [OF assms] by blast

lemma is_range_order_source: "is_range_order source_order"
  by (simp add: is_range_order_def source_order_def)

theorem config_sound_in_any_order_witness:
  "\<exists>c. load_config (demo_host False ''wss://gw:30081/api/v1/realtime/'' '' https://a.test/'')
      (source_order\<lparr> ro_ints := rev int_vars \<rparr>) = Inr c \<and> sound_config c"
proof -
  let ?ord = "source_order\<lparr> ro_ints := rev int_vars \<rparr>"
  let ?h = "demo_host False ''wss://gw:30081/api/v1/realtime/'' '' https://a.test/''"
  have "is_range_order ?ord" using is_range_order_source by (simp add: is_range_order_def)
  moreover have "load_config ?h source_order = Inr (demo_loaded (demo_url ''wss'') ''https://a.test'')"
    by (simp add: demo_load [OF demo_parsed(2,3)] demo_url_def)
  ultimately show ?thesis using config_sound_in_any_order by blast
qed

text \<open>
  The check that secure pages get secure sockets reads the text of the origin, not its parsed scheme:
  the same origin is refused with a plain base URL when it is written in lower case and accepted when
  it is written in upper case, although both have the scheme https.
\<close>

lemma upper_case_origin_skips_wss_check:
  "load_config (demo_host False ''ws://gw:30081/api/v1/realtime/'' '' https://a.test/'') source_order =
     Inl (ErrText ''HTTPS origins require a wss PUBLIC_WS_BASE_URL'') \<and>
   load_config (demo_host False ''ws://gw:30081/api/v1/realtime/'' ''HTTPS://a.test'') source_order =
     Inr (demo_loaded (demo_url ''ws'') ''HTTPS://a.test'') \<and>
   map_option url_Scheme (parse_url ''HTTPS://a.test'') = Some ''https''"
proof (intro conjI)
  show "load_config (demo_host False ''ws://gw:30081/api/v1/realtime/'' '' https://a.test/'') source_order =
     Inl (ErrText ''HTTPS origins require a wss PUBLIC_WS_BASE_URL'')"
    by (simp add: demo_load [OF demo_parsed(1,3)] demo_url_def has_prefix_def)
  show "load_config (demo_host False ''ws://gw:30081/api/v1/realtime/'' ''HTTPS://a.test'') source_order =
     Inr (demo_loaded (demo_url ''ws'') ''HTTPS://a.test'')"
    by (simp add: demo_load [OF demo_parsed(1,4)] has_prefix_def)
  show "map_option url_Scheme (parse_url ''HTTPS://a.test'') = Some ''https''" by code_simp
qed

end
