(* ===== verification/KubeVirtConsole.thy ===== *)
theory KubeVirtConsole
  imports KubernetesExec SessionManager
begin

text \<open>
  \<open>internal/runtime/kubevirt/adapter.go\<close> and \<open>internal/runtime/resource/validator.go\<close>: opening serial
  and VNC consoles of virtual machines, with the identity checks of managed targets, and the client of
  the resource service that confirms a binding.

  The cluster and the resource service change while the code runs, so every call to them takes the
  state of the world and returns the next one. An API read fails as not found or otherwise, or its
  body does not decode (\<open>None\<close>). \<open>dns_label\<close> and \<open>dns_subdomain\<close> are the Kubernetes validators without
  complaints.
\<close>

section \<open>Cluster objects\<close>

datatype api_error = ApiNotFound | ApiOther

record owner_ref =
  ow_APIVersion :: string
  ow_Kind :: string
  ow_Name :: string
  ow_UID :: string
  ow_Controller :: "bool option"

record vmi_state =
  vs_namespace :: string
  vs_name :: string
  vs_phase :: string
  vs_apiVersion :: string
  vs_kind :: string
  vs_uid :: string
  vs_owners :: "owner_ref list"
  vs_labels :: "(string, string) gomap"
  vs_deleting :: bool

record ns_object =
  no_UID :: string
  no_Deleting :: bool

record vm_object =
  vo_APIVersion :: string
  vo_Kind :: string
  vo_Namespace :: string
  vo_Name :: string
  vo_UID :: string
  vo_Deleting :: bool

datatype console = ConsoleSerial | ConsoleVNC

text \<open>The answer of a connection attempt: an error, no stream, or a stream that may lack a connection.\<close>

datatype connection = ConnError | ConnNil | ConnStream nat bool

record 'w cluster =
  kc_Namespace :: "string \<Rightarrow> 'w \<Rightarrow> (api_error + ns_object) \<times> 'w"
  kc_VM :: "string \<Rightarrow> string \<Rightarrow> 'w \<Rightarrow> (api_error + vm_object option) \<times> 'w"
  kc_VMI :: "string \<Rightarrow> string \<Rightarrow> 'w \<Rightarrow> (api_error + vmi_state option) \<times> 'w"
  kc_Connect :: "console \<Rightarrow> string \<Rightarrow> string \<Rightarrow> 'w \<Rightarrow> connection \<times> 'w"

record 'w vm_adapter =
  va_Validator :: "(vm_binding \<Rightarrow> 'w \<Rightarrow> error option \<times> 'w) option"
  va_ClusterID :: string

section \<open>Identity\<close>

text \<open>The provider's \<open>Get\<close>: a body that does not decode is an error that is not a not-found.\<close>

definition provider_get ::
  "'w cluster \<Rightarrow> string \<Rightarrow> string \<Rightarrow> 'w \<Rightarrow> (api_error + vmi_state) \<times> 'w" where
  "provider_get k namespace name w =
     (case kc_VMI k namespace name w of
        (Inl e, w') \<Rightarrow> (Inl e, w')
      | (Inr None, w') \<Rightarrow> (Inl ApiOther, w')
      | (Inr (Some v), w') \<Rightarrow> (Inr v, w'))"

definition identity_read_error :: "api_error \<Rightarrow> error" where
  "identity_read_error e = (if e = ApiNotFound then Sentinel RtTargetChanged else Sentinel RtUnavailable)"

definition validate_vm_identity :: "'w cluster \<Rightarrow> vm_binding \<Rightarrow> 'w \<Rightarrow> error option \<times> 'w" where
  "validate_vm_identity k b w =
     (case kc_Namespace k (vb_Namespace b) w of
        (Inl e, w1) \<Rightarrow> (Some (identity_read_error e), w1)
      | (Inr ns, w1) \<Rightarrow>
          if no_UID ns \<noteq> vb_NamespaceUID b \<or> no_Deleting ns then (Some (Sentinel RtTargetChanged), w1)
          else
            (case kc_VM k (vb_Namespace b) (vb_VMName b) w1 of
               (Inl e, w2) \<Rightarrow> (Some (identity_read_error e), w2)
             | (Inr None, w2) \<Rightarrow> (Some (Sentinel RtUnavailable), w2)
             | (Inr (Some vm), w2) \<Rightarrow>
                 if vo_APIVersion vm \<noteq> ''kubevirt.io/v1'' \<or> vo_Kind vm \<noteq> ''VirtualMachine'' \<or>
                    vo_Namespace vm \<noteq> vb_Namespace b \<or> vo_Name vm \<noteq> vb_VMName b \<or>
                    vo_UID vm \<noteq> vb_VMUID b \<or> vo_Deleting vm
                 then (Some (Sentinel RtTargetChanged), w2)
                 else (None, w2)))"

fun owned_by :: "vm_binding \<Rightarrow> owner_ref list \<Rightarrow> bool" where
  "owned_by b [] = False"
| "owned_by b (ow # owners) =
     (if ow_APIVersion ow = ''kubevirt.io/v1'' \<and> ow_Kind ow = ''VirtualMachine'' \<and>
         ow_Name ow = vb_VMName b \<and> ow_UID ow = vb_VMUID b \<and> ow_Controller ow = Some True
      then True else owned_by b owners)"

definition matches_vmi :: "vmi_state \<Rightarrow> vm_binding \<Rightarrow> bool" where
  "matches_vmi v b =
     (if vs_apiVersion v \<noteq> ''kubevirt.io/v1'' \<or> vs_kind v \<noteq> ''VirtualMachineInstance'' \<or>
         vs_namespace v \<noteq> vb_Namespace b \<or> vs_name v \<noteq> vb_VMIName b \<or> vs_uid v \<noteq> vb_VMIUID b \<or>
         vs_deleting v \<or> vs_phase v \<noteq> ''Running''
      then False else owned_by b (vs_owners v))"

text \<open>\<open>validateManaged\<close>; \<open>open\<close> calls it only when the validator is present.\<close>

definition validate_managed ::
  "'w cluster \<Rightarrow> 'w vm_adapter \<Rightarrow> vm_binding \<Rightarrow> 'w \<Rightarrow> error option \<times> 'w" where
  "validate_managed k a b w =
     (case validate_vm_identity k b w of
        (Some e, w1) \<Rightarrow> (Some e, w1)
      | (None, w1) \<Rightarrow>
          (case provider_get k (vb_Namespace b) (vb_VMIName b) w1 of
             (Inl e, w2) \<Rightarrow> (Some (identity_read_error e), w2)
           | (Inr v, w2) \<Rightarrow>
               if \<not> matches_vmi v b then (Some (Sentinel RtTargetChanged), w2)
               else
                 (case va_Validator a of
                    None \<Rightarrow> (Some (Sentinel RtUnavailable), w2)
                  | Some validate \<Rightarrow>
                      (case validate b w2 of
                         (None, w3) \<Rightarrow> (None, w3)
                       | (Some e, w3) \<Rightarrow>
                           (Some (Sentinel (if errors_is e ErrFailedPrecondition
                                            then RtTargetChanged else RtUnavailable)), w3)))))"

section \<open>Open\<close>

text \<open>
  How the connect phase meets its deadline: the waiting side gives up first with the error of its
  context, or it receives the connection and then finds the context ended (with its error) or not.
\<close>

datatype deadline = GaveUp sentinel | Received "sentinel option"

definition refuse_binding ::
  "(string \<Rightarrow> bool) \<Rightarrow> (string \<Rightarrow> bool) \<Rightarrow> 'w vm_adapter \<Rightarrow> vm_target \<Rightarrow> bool" where
  "refuse_binding dns_label dns_subdomain a t =
     (let b = vt_Binding t in
      \<not> valid_vm_binding b \<or> vt_TenantID t \<noteq> vb_TenantID b \<or> vt_InstanceID t \<noteq> vb_VMID b \<or>
      vt_WorkloadName t \<noteq> vb_VMName b \<or> va_Validator a = None \<or> va_ClusterID a = [] \<or>
      va_ClusterID a \<noteq> vb_ClusterID b \<or> \<not> dns_label (vb_Namespace b) \<or>
      \<not> dns_subdomain (vb_VMName b) \<or> \<not> dns_subdomain (vb_VMIName b))"

text \<open>The preflight: the namespace and name to connect to, after all checks on the running instance.\<close>

definition preflight ::
  "(string \<Rightarrow> bool) \<Rightarrow> (string \<Rightarrow> bool) \<Rightarrow> 'w cluster \<Rightarrow> 'w vm_adapter \<Rightarrow> vm_target \<Rightarrow> 'w
     \<Rightarrow> (string \<times> string) result \<times> 'w" where
  "preflight dns_label dns_subdomain k a t w =
     (let b = vt_Binding t in
      if vb_Enabled b \<and> refuse_binding dns_label dns_subdomain a t
      then (Inl (Sentinel RtInvalidTarget), w)
      else
        (case (if vb_Enabled b then validate_managed k a b w else (None, w)) of
           (Some e, w1) \<Rightarrow> (Inl e, w1)
         | (None, w1) \<Rightarrow>
             (case (if vb_Enabled b then Inr (vb_Namespace b)
                    else namespace_for_tenant dns_label (vt_TenantID t)) of
                Inl _ \<Rightarrow> (Inl (Sentinel RtInvalidTarget), w1)
              | Inr namespace \<Rightarrow>
                  let name = (if vb_Enabled b then vb_VMIName b else vt_WorkloadName t) in
                  if name = [] \<or> \<not> dns_subdomain name \<or> \<not> dns_label namespace
                  then (Inl (Sentinel RtInvalidTarget), w1)
                  else
                    (case provider_get k namespace name w1 of
                       (Inl e, w2) \<Rightarrow>
                         (Inl (Sentinel (if e = ApiNotFound then RtTargetNotFound else RtUnavailable)), w2)
                     | (Inr v, w2) \<Rightarrow>
                         if \<not> vb_Enabled b \<and>
                            (vs_namespace v \<noteq> namespace \<or> vs_name v \<noteq> vt_WorkloadName t \<or>
                             label_value (vs_labels v) tenantLabel \<noteq> vt_TenantID t \<or>
                             label_value (vs_labels v) instanceLabel \<noteq> vt_WorkloadName t)
                         then (Inl (Sentinel RtTargetNotFound), w2)
                         else if vb_Enabled b \<and> \<not> matches_vmi v b
                         then (Inl (Sentinel RtTargetChanged), w2)
                         else if vs_deleting v \<or> vs_phase v \<noteq> ''Running''
                         then (Inl (Sentinel RtTargetNotReady), w2)
                         else (Inr (namespace, name), w2)))))"

text \<open>
  \<open>open\<close>: the stream it returns and the provider streams it disposes of. When it gives up, the
  connection belongs to the connecting goroutine (\<open>handoff_step\<close> below).
\<close>

definition open_console ::
  "(string \<Rightarrow> bool) \<Rightarrow> (string \<Rightarrow> bool) \<Rightarrow> 'w cluster \<Rightarrow> 'w vm_adapter \<Rightarrow> console \<Rightarrow> deadline \<Rightarrow> vm_target
     \<Rightarrow> 'w \<Rightarrow> nat result \<times> nat list \<times> 'w" where
  "open_console dns_label dns_subdomain k a c d t w =
     (case preflight dns_label dns_subdomain k a t w of
        (Inl e, w1) \<Rightarrow> (Inl e, [], w1)
      | (Inr (namespace, name), w1) \<Rightarrow>
          (case kc_Connect k c namespace name w1 of
             (conn, w2) \<Rightarrow>
               (case d of
                  GaveUp ctx_err \<Rightarrow> (Inl (Sentinel ctx_err), [], w2)
                | Received ctx_err \<Rightarrow>
                    (case conn of
                       ConnError \<Rightarrow> (Inl (Sentinel RtUnavailable), [], w2)
                     | ConnNil \<Rightarrow> (Inl (Sentinel RtUnavailable), [], w2)
                     | ConnStream sid has_conn \<Rightarrow>
                         if \<not> has_conn then (Inl (Sentinel RtUnavailable), [sid], w2)
                         else if ctx_err \<noteq> None then (Inl (Sentinel (the ctx_err)), [sid], w2)
                         else if vb_Enabled (vt_Binding t) then
                           (case validate_managed k a (vt_Binding t) w2 of
                              (Some e, w3) \<Rightarrow> (Inl e, [sid], w3)
                            | (None, w3) \<Rightarrow> (Inr sid, [], w3))
                         else (Inr sid, [], w2)))))"

definition open_serial where
  "open_serial dns_label dns_subdomain k a d t w =
     (if vb_Enabled (vt_Binding t) then (Inl (Sentinel RtInvalidTarget), [], w)
      else open_console dns_label dns_subdomain k a ConsoleSerial d t w)"

definition open_vnc where
  "open_vnc dns_label dns_subdomain k a d t w =
     (if va_Validator a \<noteq> None \<and> \<not> vb_Enabled (vt_Binding t) then (Inl (Sentinel RtInvalidTarget), [], w)
      else open_console dns_label dns_subdomain k a ConsoleVNC d t w)"

section \<open>The resource service\<close>

text \<open>
  The reply of a validation call: a status code, or a message that is absent or says whether the
  target is valid. The client is an option, as the nil client is.
\<close>

datatype status_code = CodeFailedPrecondition | CodeNotFound | CodePermissionDenied | CodeOther

type_synonym validation_reply = "status_code + bool option"

definition validate_vm :: "(vm_binding \<Rightarrow> validation_reply) option \<Rightarrow> duration \<Rightarrow> vm_binding \<Rightarrow> error option" where
  "validate_vm client timeout b =
     (case client of
        None \<Rightarrow> Some (Sentinel ErrUnavailable)
      | Some call \<Rightarrow>
          if timeout \<le> 0 \<or> \<not> valid_vm_binding b then Some (Sentinel ErrUnavailable)
          else
            (case call b of
               Inl code \<Rightarrow>
                 if code = CodeFailedPrecondition \<or> code = CodeNotFound \<or> code = CodePermissionDenied
                 then Some (Sentinel ErrFailedPrecondition) else Some (Sentinel ErrUnavailable)
             | Inr reply \<Rightarrow>
                 if reply = None \<or> reply = Some False then Some (Sentinel ErrFailedPrecondition) else None))"

definition validate_instance ::
  "(string \<Rightarrow> string \<Rightarrow> instance_binding \<Rightarrow> validation_reply) option \<Rightarrow> duration
     \<Rightarrow> string \<Rightarrow> string \<Rightarrow> instance_binding \<Rightarrow> error option" where
  "validate_instance client timeout tenant iid b =
     (case client of
        None \<Rightarrow> Some (Sentinel ErrUnavailable)
      | Some call \<Rightarrow>
          if timeout \<le> 0 \<or> \<not> ib_Enabled b then Some (Sentinel ErrUnavailable)
          else
            (case call tenant iid b of
               Inl code \<Rightarrow>
                 if code = CodeFailedPrecondition \<or> code = CodeNotFound
                 then Some (Sentinel ErrFailedPrecondition) else Some (Sentinel ErrUnavailable)
             | Inr reply \<Rightarrow>
                 if reply = None \<or> reply = Some False then Some (Sentinel ErrFailedPrecondition) else None))"

text \<open>\<open>VerifyConnection\<close>: exactly the configured name, among the DNS names of a verified peer.\<close>

fun exact_dns :: "string \<Rightarrow> string list \<Rightarrow> bool" where
  "exact_dns name [] = False"
| "exact_dns name (v # vs) = (if v = name \<and> CHR ''*'' \<notin> set v then True else exact_dns name vs)"

definition verify_resource_peer :: "string \<Rightarrow> nat \<Rightarrow> string list list \<Rightarrow> error option" where
  "verify_resource_peer name verified certs =
     (if verified = 0 \<or> certs = [] then Some (ErrText ''Resource peer unverified'')
      else if exact_dns name (hd certs) then None
      else Some (ErrText ''Resource peer exact DNS mismatch''))"

section \<open>The hand-over of a connection\<close>

text \<open>
  The connecting goroutine and the waiting caller of \<open>open\<close> share a channel with one slot and the
  deadline. Each step is one atomic action of one of them; a select with several ready cases takes
  any of them.
\<close>

datatype worker = Connecting | Selecting | WorkerDone
datatype waiter = Waiting | HasStream | WaiterGaveUp

record handoff =
  hf_Expired :: bool
  hf_Worker :: worker
  hf_Waiter :: waiter
  hf_Channel :: bool
  hf_Disposed :: bool

definition new_handoff :: handoff where
  "new_handoff = \<lparr> hf_Expired = False, hf_Worker = Connecting, hf_Waiter = Waiting, hf_Channel = False,
     hf_Disposed = False \<rparr>"

inductive handoff_step :: "handoff \<Rightarrow> handoff \<Rightarrow> bool" where
  expire: "handoff_step h (h\<lparr> hf_Expired := True \<rparr>)"
| connected: "hf_Worker h = Connecting \<Longrightarrow>
    handoff_step h (if hf_Expired h then h\<lparr> hf_Worker := WorkerDone, hf_Disposed := True \<rparr>
                    else h\<lparr> hf_Worker := Selecting \<rparr>)"
| send: "hf_Worker h = Selecting \<Longrightarrow> \<not> hf_Channel h \<Longrightarrow>
    handoff_step h (h\<lparr> hf_Worker := WorkerDone, hf_Channel := True \<rparr>)"
| late: "hf_Worker h = Selecting \<Longrightarrow> hf_Expired h \<Longrightarrow>
    handoff_step h (h\<lparr> hf_Worker := WorkerDone, hf_Disposed := True \<rparr>)"
| give_up: "hf_Waiter h = Waiting \<Longrightarrow> hf_Expired h \<Longrightarrow> handoff_step h (h\<lparr> hf_Waiter := WaiterGaveUp \<rparr>)"
| receive: "hf_Waiter h = Waiting \<Longrightarrow> hf_Channel h \<Longrightarrow>
    handoff_step h (h\<lparr> hf_Waiter := HasStream, hf_Channel := False \<rparr>)"

abbreviation handoff_reach :: "handoff \<Rightarrow> bool" where
  "handoff_reach h \<equiv> handoff_step\<^sup>*\<^sup>* new_handoff h"

text \<open>Where the one provider stream is: with the worker, in the channel, disposed of or received.\<close>

definition handoff_inv :: "handoff \<Rightarrow> bool" where
  "handoff_inv h \<longleftrightarrow>
     (if hf_Worker h = WorkerDone
      then (hf_Channel h, hf_Disposed h, hf_Waiter h = HasStream) \<in>
             {(True, False, False), (False, True, False), (False, False, True)}
      else \<not> hf_Channel h \<and> \<not> hf_Disposed h \<and> hf_Waiter h \<noteq> HasStream)"

lemma handoff_reach_inv: "handoff_reach h \<Longrightarrow> handoff_inv h"
proof (induction rule: rtranclp_induct)
  case base
  then show ?case by (simp add: handoff_inv_def new_handoff_def)
next
  case (step y z)
  from step(2,3) show ?case
    by cases (auto simp: handoff_inv_def split: if_splits)
qed

section \<open>What the checks establish\<close>

lemma owned_by_iff:
  "owned_by b os \<longleftrightarrow> (\<exists>ow \<in> set os. ow_APIVersion ow = ''kubevirt.io/v1'' \<and> ow_Kind ow = ''VirtualMachine'' \<and>
     ow_Name ow = vb_VMName b \<and> ow_UID ow = vb_VMUID b \<and> ow_Controller ow = Some True)"
  by (induction os) auto

lemma provider_get_ok: "provider_get k ns n w = (Inr v, w') \<Longrightarrow> kc_VMI k ns n w = (Inr (Some v), w')"
  by (auto simp: provider_get_def split: prod.splits sum.splits option.splits)

lemma validate_managed_ok:
  assumes "validate_managed k a b w = (None, w')"
  obtains w1 w2 v validate where "validate_vm_identity k b w = (None, w1)"
    "kc_VMI k (vb_Namespace b) (vb_VMIName b) w1 = (Inr (Some v), w2)" "matches_vmi v b"
    "va_Validator a = Some validate" "validate b w2 = (None, w')"
proof -
  obtain e1 w1 where i: "validate_vm_identity k b w = (e1, w1)" by fastforce
  have e1: "e1 = None"
    using assms i by (cases e1) (simp_all add: validate_managed_def)
  obtain g w2 where g: "provider_get k (vb_Namespace b) (vb_VMIName b) w1 = (g, w2)" by fastforce
  obtain v where v: "g = Inr v"
    using assms i e1 g by (cases g) (simp_all add: validate_managed_def)
  have m: "matches_vmi v b"
    using assms i e1 g v by (cases "matches_vmi v b") (simp_all add: validate_managed_def)
  obtain validate where val: "va_Validator a = Some validate"
    using assms i e1 g v m by (cases "va_Validator a") (simp_all add: validate_managed_def)
  obtain e3 w3 where e3: "validate b w2 = (e3, w3)" by fastforce
  have "e3 = None" "w3 = w'"
    using assms i e1 g v m val e3 by (cases e3, simp_all add: validate_managed_def)+
  with i e1 g v m val e3 provider_get_ok [of k "vb_Namespace b" "vb_VMIName b" w1 v w2] show ?thesis
    by (intro that [of w1 v w2 validate]) simp_all
qed

lemma preflight_ok:
  assumes "preflight dns_label dns_subdomain k a t w = (Inr (ns, name), w')"
  obtains v w1 where "kc_VMI k ns name w1 = (Inr (Some v), w')" "\<not> vs_deleting v" "vs_phase v = ''Running''"
    "vb_Enabled (vt_Binding t) \<Longrightarrow> \<not> refuse_binding dns_label dns_subdomain a t \<and> matches_vmi v (vt_Binding t) \<and>
       validate_managed k a (vt_Binding t) w = (None, w1) \<and>
       ns = vb_Namespace (vt_Binding t) \<and> name = vb_VMIName (vt_Binding t)"
    "\<not> vb_Enabled (vt_Binding t) \<Longrightarrow> ns = ''ani-tenant-'' @ vt_TenantID t \<and> name = vt_WorkloadName t \<and>
       vs_namespace v = ns \<and> vs_name v = name \<and> label_value (vs_labels v) tenantLabel = vt_TenantID t \<and>
       label_value (vs_labels v) instanceLabel = vt_WorkloadName t"
proof (cases "vb_Enabled (vt_Binding t)")
  case True
  note en = this
  have acc: "\<not> refuse_binding dns_label dns_subdomain a t"
    using assms en by (cases "refuse_binding dns_label dns_subdomain a t") (simp_all add: preflight_def Let_def)
  obtain e1 w1 where m: "validate_managed k a (vt_Binding t) w = (e1, w1)" by fastforce
  have e1: "e1 = None"
    using assms en acc m by (cases e1) (simp_all add: preflight_def Let_def)
  have n: "ns = vb_Namespace (vt_Binding t)" "name = vb_VMIName (vt_Binding t)"
    using assms en acc m e1
    by (auto simp: preflight_def Let_def split: if_split_asm prod.split_asm sum.split_asm)
  obtain g w2 where g: "provider_get k ns name w1 = (g, w2)" by fastforce
  obtain v where v: "g = Inr v"
    using assms en acc m e1 g n by (cases g) (auto simp: preflight_def Let_def split: if_split_asm)
  have "matches_vmi v (vt_Binding t)" "\<not> vs_deleting v" "vs_phase v = ''Running''" "w2 = w'"
    using assms en acc m e1 g n v by (auto simp: preflight_def Let_def split: if_split_asm)
  with provider_get_ok [of k ns name w1 v w'] g v m e1 acc n en show ?thesis
    by (intro that [of w1 v]) simp_all
next
  case False
  note en = this
  have n: "ns = ''ani-tenant-'' @ vt_TenantID t" "name = vt_WorkloadName t"
    using assms en
    by (auto simp: preflight_def Let_def namespace_for_tenant_def split: if_split_asm prod.split_asm sum.split_asm)
  have ns: "namespace_for_tenant dns_label (vt_TenantID t) = Inr ns"
    using assms en n by (auto simp: preflight_def Let_def namespace_for_tenant_def split: if_split_asm)
  obtain g w2 where g: "provider_get k ns name w = (g, w2)" by fastforce
  obtain v where v: "g = Inr v"
    using assms en g ns n(2) by (cases g) (auto simp: preflight_def Let_def split: if_split_asm)
  have "vs_namespace v = ns" "vs_name v = name" "label_value (vs_labels v) tenantLabel = vt_TenantID t"
      "label_value (vs_labels v) instanceLabel = vt_WorkloadName t" "\<not> vs_deleting v" "vs_phase v = ''Running''" "w2 = w'"
    using assms en g ns n(2) v by (auto simp: preflight_def Let_def split: if_split_asm)
  with provider_get_ok [of k ns name w v w'] g v n en show ?thesis
    by (intro that [of w v]) simp_all
qed

lemma open_console_ok:
  assumes "open_console dns_label dns_subdomain k a c d t w = (Inr sid, disposed, w')"
  obtains ns name w1 w2 where "preflight dns_label dns_subdomain k a t w = (Inr (ns, name), w1)"
    "kc_Connect k c ns name w1 = (ConnStream sid True, w2)" "disposed = []" "d = Received None"
    "if vb_Enabled (vt_Binding t) then validate_managed k a (vt_Binding t) w2 = (None, w') else w' = w2"
  using assms
  by (auto simp: open_console_def split: prod.splits sum.splits deadline.splits connection.splits
      if_splits option.splits)

section \<open>A concrete cluster\<close>

text \<open>The world counts the calls; the cluster always shows the bound machine running.\<close>

definition demo_vm_binding :: vm_binding where
  "demo_vm_binding = \<lparr> vb_Enabled = True, vb_TenantID = ''a'', vb_VMID = ''i'', vb_Version = 1,
     vb_ClusterID = ''c'', vb_Namespace = ''ns'', vb_VMName = ''vm'', vb_VMUID = ''vu'', vb_VMIName = ''vmi'',
     vb_VMIUID = ''iu'', vb_NamespaceUID = ''nu'' \<rparr>"

definition demo_vmi :: vmi_state where
  "demo_vmi = \<lparr> vs_namespace = ''ns'', vs_name = ''vmi'', vs_phase = ''Running'',
     vs_apiVersion = ''kubevirt.io/v1'', vs_kind = ''VirtualMachineInstance'', vs_uid = ''iu'',
     vs_owners = [\<lparr> ow_APIVersion = ''kubevirt.io/v1'', ow_Kind = ''VirtualMachine'', ow_Name = ''vm'',
                    ow_UID = ''vu'', ow_Controller = Some True \<rparr>],
     vs_labels = [], vs_deleting = False \<rparr>"

definition demo_cluster :: "nat cluster" where
  "demo_cluster = \<lparr> kc_Namespace = (\<lambda>ns w. (Inr \<lparr> no_UID = ''nu'', no_Deleting = False \<rparr>, w + 1)),
     kc_VM = (\<lambda>ns n w. (Inr (Some \<lparr> vo_APIVersion = ''kubevirt.io/v1'', vo_Kind = ''VirtualMachine'',
        vo_Namespace = ''ns'', vo_Name = ''vm'', vo_UID = ''vu'', vo_Deleting = False \<rparr>), w + 1)),
     kc_VMI = (\<lambda>ns n w. (Inr (Some demo_vmi), w + 1)),
     kc_Connect = (\<lambda>c ns n w. (ConnStream 7 True, w + 1)) \<rparr>"

definition demo_vm_adapter :: "nat vm_adapter" where
  "demo_vm_adapter = \<lparr> va_Validator = Some (\<lambda>b w. (None, w + 1)), va_ClusterID = ''c'' \<rparr>"

definition demo_vm_target :: vm_target where
  "demo_vm_target = \<lparr> vt_TenantID = ''a'', vt_InstanceID = ''i'', vt_WorkloadName = ''vm'',
     vt_Binding = demo_vm_binding \<rparr>"

lemma demo_vnc_opened:
  "open_vnc (\<lambda>_. True) (\<lambda>_. True) demo_cluster demo_vm_adapter (Received None) demo_vm_target 0 = (Inr 7, [], 10)"
  by (simp add: open_vnc_def open_console_def preflight_def refuse_binding_def validate_managed_def
      validate_vm_identity_def provider_get_def matches_vmi_def valid_vm_binding_def Let_def
      demo_cluster_def demo_vm_adapter_def demo_vm_target_def demo_vm_binding_def demo_vmi_def)

section \<open>Properties\<close>

text \<open>
  C24: a managed VNC console is checked before and after it is connected. When it opens, the binding
  names the target's tenant, instance and workload and the adapter's cluster; the whole identity check
  (namespace, machine, running instance owned by the machine, business authority) passed before the
  connection was made, and passed again on the world the connection left, as the last thing that
  happened before the stream was handed out.
\<close>

theorem managed_vnc_checked_twice:
  assumes "open_vnc dns_label dns_subdomain k a d t w = (Inr sid, disposed, w')"
    and "vb_Enabled (vt_Binding t)"
  shows "vb_TenantID (vt_Binding t) = vt_TenantID t \<and> vb_VMID (vt_Binding t) = vt_InstanceID t \<and>
    vb_VMName (vt_Binding t) = vt_WorkloadName t \<and> vb_ClusterID (vt_Binding t) = va_ClusterID a \<and>
    (\<exists>w1 w2 w3. validate_managed k a (vt_Binding t) w = (None, w1) \<and>
      kc_Connect k ConsoleVNC (vb_Namespace (vt_Binding t)) (vb_VMIName (vt_Binding t)) w2 =
        (ConnStream sid True, w3) \<and>
      validate_managed k a (vt_Binding t) w3 = (None, w'))"
proof -
  have o: "open_console dns_label dns_subdomain k a ConsoleVNC d t w = (Inr sid, disposed, w')"
    using assms by (simp add: open_vnc_def)
  obtain ns name w2 w3 where p: "preflight dns_label dns_subdomain k a t w = (Inr (ns, name), w2)"
    and c: "kc_Connect k ConsoleVNC ns name w2 = (ConnStream sid True, w3)"
    and "if vb_Enabled (vt_Binding t) then validate_managed k a (vt_Binding t) w3 = (None, w') else w' = w3"
    by (rule open_console_ok [OF o])
  then have again: "validate_managed k a (vt_Binding t) w3 = (None, w')" using assms(2) by simp
  obtain w1 where
    "\<not> refuse_binding dns_label dns_subdomain a t" "validate_managed k a (vt_Binding t) w = (None, w1)"
    "ns = vb_Namespace (vt_Binding t)" "name = vb_VMIName (vt_Binding t)"
    by (rule preflight_ok [OF p]) (use assms(2) in blast)
  then show ?thesis
    using c again by (auto simp: refuse_binding_def Let_def)
qed

theorem managed_vnc_checked_twice_witness:
  "vb_ClusterID (vt_Binding demo_vm_target) = va_ClusterID demo_vm_adapter \<and>
   (\<exists>w3. validate_managed demo_cluster demo_vm_adapter demo_vm_binding w3 = (None, 10))"
proof -
  have "vb_Enabled (vt_Binding demo_vm_target)" by (simp add: demo_vm_target_def demo_vm_binding_def)
  from managed_vnc_checked_twice [OF demo_vnc_opened this] show ?thesis
    by (auto simp: demo_vm_target_def)
qed

text \<open>
  An unmanaged console stays with its tenant. A serial console, or a VNC console without a
  binding, opens only on a running, undeleted instance of the target's name in the tenant's own
  namespace that carries the tenant's and the workload's labels; and with VM authority configured no
  unbound VNC console opens at all.
\<close>

lemma unmanaged_console_stays_with_tenant:
  assumes "(c = ConsoleSerial \<and> open_serial dns_label dns_subdomain k a d t w = (Inr sid, disposed, w')) \<or>
      (c = ConsoleVNC \<and> \<not> vb_Enabled (vt_Binding t) \<and>
       open_vnc dns_label dns_subdomain k a d t w = (Inr sid, disposed, w'))"
  shows "(c = ConsoleSerial \<or> va_Validator a = None) \<and>
    (\<exists>v w0 w1. kc_VMI k (''ani-tenant-'' @ vt_TenantID t) (vt_WorkloadName t) w0 = (Inr (Some v), w1) \<and>
      vs_phase v = ''Running'' \<and> \<not> vs_deleting v \<and> vs_name v = vt_WorkloadName t \<and>
      vs_namespace v = ''ani-tenant-'' @ vt_TenantID t \<and> label_value (vs_labels v) tenantLabel = vt_TenantID t \<and>
      label_value (vs_labels v) instanceLabel = vt_WorkloadName t \<and>
      kc_Connect k c (''ani-tenant-'' @ vt_TenantID t) (vt_WorkloadName t) w1 = (ConnStream sid True, w'))"
proof -
  have en: "\<not> vb_Enabled (vt_Binding t)" and auth: "c = ConsoleSerial \<or> va_Validator a = None"
    and o: "open_console dns_label dns_subdomain k a c d t w = (Inr sid, disposed, w')"
    using assms by (auto simp: open_serial_def open_vnc_def split: if_splits)
  obtain ns name w1 w2 where p: "preflight dns_label dns_subdomain k a t w = (Inr (ns, name), w1)"
    and c: "kc_Connect k c ns name w1 = (ConnStream sid True, w2)"
    and "if vb_Enabled (vt_Binding t) then validate_managed k a (vt_Binding t) w2 = (None, w') else w' = w2"
    by (rule open_console_ok [OF o])
  then have "w' = w2" using en by simp
  obtain v w0 where "kc_VMI k ns name w0 = (Inr (Some v), w1)" "\<not> vs_deleting v" "vs_phase v = ''Running''"
    "ns = ''ani-tenant-'' @ vt_TenantID t \<and> name = vt_WorkloadName t \<and>
       vs_namespace v = ns \<and> vs_name v = name \<and> label_value (vs_labels v) tenantLabel = vt_TenantID t \<and>
       label_value (vs_labels v) instanceLabel = vt_WorkloadName t"
    by (rule preflight_ok [OF p]) (use en in blast)
  with c auth \<open>w' = w2\<close> show ?thesis by blast
qed

text \<open>
  C25: the hand-over of a console connection accounts for the provider stream except in one race. In
  every final state the caller received it, or the connecting goroutine disposed of it, or the caller
  gave up while the stream lies in the channel, where nothing will ever close it; and that last state
  is reachable, because the goroutine's select may still choose the free channel slot after the
  deadline.
\<close>

theorem handoff_loses_stream_in_one_race:
  "(\<forall>h. handoff_reach h \<and> hf_Worker h = WorkerDone \<and> hf_Waiter h \<noteq> Waiting \<longrightarrow>
      (hf_Waiter h = HasStream \<and> \<not> hf_Disposed h \<and> \<not> hf_Channel h) \<or>
      (hf_Waiter h = WaiterGaveUp \<and> hf_Disposed h \<and> \<not> hf_Channel h) \<or>
      (hf_Waiter h = WaiterGaveUp \<and> \<not> hf_Disposed h \<and> hf_Channel h)) \<and>
   (\<exists>h. handoff_reach h \<and> hf_Worker h = WorkerDone \<and> hf_Waiter h = WaiterGaveUp \<and>
      \<not> hf_Disposed h \<and> hf_Channel h)"
proof
  have "(hf_Waiter h = HasStream \<and> \<not> hf_Disposed h \<and> \<not> hf_Channel h) \<or>
      (hf_Waiter h = WaiterGaveUp \<and> hf_Disposed h \<and> \<not> hf_Channel h) \<or>
      (hf_Waiter h = WaiterGaveUp \<and> \<not> hf_Disposed h \<and> hf_Channel h)"
    if "handoff_reach h" "hf_Worker h = WorkerDone" "hf_Waiter h \<noteq> Waiting" for h
    using handoff_reach_inv [OF that(1)] that(2,3)
    by (cases "hf_Waiter h") (auto simp: handoff_inv_def)
  then show "\<forall>h. handoff_reach h \<and> hf_Worker h = WorkerDone \<and> hf_Waiter h \<noteq> Waiting \<longrightarrow>
      (hf_Waiter h = HasStream \<and> \<not> hf_Disposed h \<and> \<not> hf_Channel h) \<or>
      (hf_Waiter h = WaiterGaveUp \<and> hf_Disposed h \<and> \<not> hf_Channel h) \<or>
      (hf_Waiter h = WaiterGaveUp \<and> \<not> hf_Disposed h \<and> hf_Channel h)"
    by blast
  let ?h1 = "new_handoff\<lparr> hf_Worker := Selecting \<rparr>"
  let ?h2 = "?h1\<lparr> hf_Expired := True \<rparr>"
  let ?h3 = "?h2\<lparr> hf_Waiter := WaiterGaveUp \<rparr>"
  let ?h4 = "?h3\<lparr> hf_Worker := WorkerDone, hf_Channel := True \<rparr>"
  have "handoff_step new_handoff ?h1"
    using handoff_step.connected [of new_handoff] by (simp add: new_handoff_def)
  moreover have "handoff_step ?h1 ?h2" by (rule handoff_step.expire)
  moreover have "handoff_step ?h2 ?h3" by (rule handoff_step.give_up) (simp_all add: new_handoff_def)
  moreover have "handoff_step ?h3 ?h4" by (rule handoff_step.send) (simp_all add: new_handoff_def)
  ultimately have "handoff_reach ?h4"
    by (meson converse_rtranclp_into_rtranclp rtranclp.rtrancl_refl)
  then show "\<exists>h. handoff_reach h \<and> hf_Worker h = WorkerDone \<and> hf_Waiter h = WaiterGaveUp \<and>
      \<not> hf_Disposed h \<and> hf_Channel h"
    by (intro exI [of _ ?h4]) (simp add: new_handoff_def)
qed

theorem handoff_loses_stream_in_one_race_witness:
  "\<exists>h. handoff_reach h \<and> hf_Waiter h = WaiterGaveUp \<and> \<not> hf_Disposed h \<and> hf_Channel h"
  using handoff_loses_stream_in_one_race by blast

text \<open>
  The resource service's word is needed and enough. Both validators accept exactly when a client
  is configured with a positive timeout, the binding is usable, and the service answers that the
  target is valid; every error, every absent reply and every refusal is a rejection.
\<close>

lemma validators_fail_closed:
  "(validate_vm vm_client timeout b = None \<longleftrightarrow>
     (\<exists>call. vm_client = Some call \<and> 0 < timeout \<and> valid_vm_binding b \<and> call b = Inr (Some True))) \<and>
   (validate_instance client timeout tenant iid ib = None \<longleftrightarrow>
     (\<exists>call. client = Some call \<and> 0 < timeout \<and> ib_Enabled ib \<and> call tenant iid ib = Inr (Some True)))"
  by (auto simp: validate_vm_def validate_instance_def split: option.splits sum.splits if_splits)

end
