(* ===== verification/Startup.thy ===== *)
theory Startup
  imports ConfigFacts KubeVirtConsole WebsocketAdmission
begin

text \<open>
  The life of the process: \<open>internal/store/select.go\<close>, the constructor of the resource client in
  \<open>internal/runtime/resource/validator.go\<close>, \<open>internal/observability/tracing.go\<close> and \<open>cmd/session-gateway\<close>.
  What the process asks of the outside world is the argument \<open>world\<close>: the host with its environment and
  files, and one field per constructor of a library that may fail. A run is the error it ends with and
  the list of its events; \<open>ending\<close> tells what ends the serving phase.
\<close>

section \<open>The outside world\<close>

record kube_config =
  kc_Insecure :: bool
  kc_Host :: string
  kc_ExecProvider :: bool
  kc_AuthProvider :: bool

record world =
  w_Host :: host
  w_Orders :: range_orders
  w_Exporter :: "string \<Rightarrow> error option"
  w_TracingShutdown :: "error option"
  w_ParseRedisURL :: "string \<Rightarrow> error option"
  w_RedisReady :: "unit result"
  w_RedisClose :: "error option"
  w_CertsFromPEM :: "bytes \<Rightarrow> bool"
  w_LoadKeyPair :: "string \<Rightarrow> string \<Rightarrow> error option"
  w_NewClient :: "string \<Rightarrow> error option"
  w_TerminalService :: "string \<Rightarrow> string \<Rightarrow> instance_binding \<Rightarrow> validation_reply"
  w_ConsoleService :: "vm_binding \<Rightarrow> validation_reply"
  w_InClusterConfig :: "kube_config result"
  w_BuildConfigFromFlags :: "string \<Rightarrow> kube_config result"
  w_KubernetesClient :: "kube_config \<Rightarrow> error option"
  w_KubeVirtProvider :: "kube_config \<Rightarrow> error option"
  w_Listen :: "string \<Rightarrow> error option"

abbreviation getenv :: "world \<Rightarrow> string \<Rightarrow> string" where
  "getenv w \<equiv> h_Getenv (w_Host w)"

datatype resource =
  TracingProvider | RedisClient | ResourceConn | SignalContext | HttpListener | GrpcListener | ShutdownContext

section \<open>Tracing\<close>

definition init_tracing :: "world \<Rightarrow> string \<Rightarrow> string \<Rightarrow> error option" where
  "init_tracing w service endpoint =
     (if service = [] then Some (ErrText ''OpenTelemetry service name is required'')
      else if endpoint = [] then None
      else
        (case parse_url endpoint of
           None \<Rightarrow> Some (ErrText ''invalid OTLP exporter endpoint'')
         | Some u \<Rightarrow>
             if \<not> plain_url [''http'', ''https''] u then Some (ErrText ''invalid OTLP exporter endpoint'')
             else w_Exporter w endpoint))"

record tracing =
  tr_Provider :: bool
  tr_Once :: bool
  tr_ShutdownErr :: "error option"

text \<open>\<open>Shutdown\<close> on a possibly absent value, given what the provider answers now.\<close>

definition tracing_shutdown :: "error option \<Rightarrow> tracing option \<Rightarrow> error option \<times> tracing option" where
  "tracing_shutdown answer t =
     (case t of
        None \<Rightarrow> (None, t)
      | Some tr \<Rightarrow>
          if \<not> tr_Provider tr then (None, t)
          else
            (let tr' = (if tr_Once tr then tr else tr\<lparr> tr_Once := True, tr_ShutdownErr := answer \<rparr>)
             in (tr_ShutdownErr tr', Some tr')))"

section \<open>The gateway that is built\<close>

datatype client_auth = NoClientCert | RequireAndVerifyClientCert

text \<open>The server options of the control listener: none, or TLS 1.3 with this client authentication.\<close>

type_synonym control_options = "client_auth option"

record validator =
  rv_Client :: "string \<Rightarrow> string \<Rightarrow> instance_binding \<Rightarrow> validation_reply"
  rv_VMClient :: "vm_binding \<Rightarrow> validation_reply"
  rv_RequestTimeout :: duration

datatype selected_store = ChosenMemory | ChosenRedis string

record selection =
  sl_Store :: selected_store
  sl_Degraded :: bool

record gateway =
  gw_Selection :: selection
  gw_Manager :: manager_config
  gw_ExecAdapter :: exec_adapter
  gw_VMValidator :: "(vm_binding \<Rightarrow> error option) option"
  gw_VMCluster :: string
  gw_Policy :: policy
  gw_AllowedOrigins :: "(string, unit) gomap"
  gw_CleanupTimeout :: duration
  gw_HTTPAddr :: string
  gw_GRPCAddr :: string
  gw_Control :: control_options

datatype event =
  Acquired resource | Released resource | Serving gateway | ReadySet bool

section \<open>Store selection\<close>

definition select_store :: "world \<Rightarrow> config \<Rightarrow> selection result \<times> event list" where
  "select_store w cfg =
     (if cf_StoreMode cfg = ''memory'' then (Inr \<lparr> sl_Store = ChosenMemory, sl_Degraded = True \<rparr>, [])
      else if cf_StoreMode cfg \<noteq> ''redis'' then (Inl (ErrText ''STORE_MODE must be redis or memory''), [])
      else if cf_RedisURL cfg = [] then (Inl (ErrText ''redis mode requires REDIS_URL''), [])
      else
        (case w_ParseRedisURL w (cf_RedisURL cfg) of
           Some e \<Rightarrow> (Inl (Wrap e ''parse REDIS_URL''), [])
         | None \<Rightarrow>
             (case w_RedisReady w of
                Inl e \<Rightarrow> (Inl e, [Acquired RedisClient, Released RedisClient])
              | Inr _ \<Rightarrow>
                  (Inr \<lparr> sl_Store = ChosenRedis (cf_RedisURL cfg), sl_Degraded = False \<rparr>, [Acquired RedisClient]))))"

section \<open>The resource service and the control plane\<close>

text \<open>\<open>NewFromEnv\<close>: no validator without an address.\<close>

definition new_from_env :: "world \<Rightarrow> duration \<Rightarrow> validator option result" where
  "new_from_env w timeout =
     (if timeout \<le> 0 then Inl (ErrText ''Resource request timeout must be positive'')
      else if getenv w ''RESOURCE_INSTANCE_ADDR'' = [] then Inr None
      else
        (let name = getenv w ''RESOURCE_INSTANCE_SERVER_NAME'' in
         if name = [] \<or> list_ex (\<lambda>c. c \<in> set ''*:/'') name
         then Inl (ErrText ''exact Resource instance server name required'')
         else
           (case h_ReadFile (w_Host w) (getenv w ''RESOURCE_INSTANCE_CA_FILE'') of
              Inl _ \<Rightarrow> Inl (ErrText ''Resource instance CA unavailable'')
            | Inr ca \<Rightarrow>
                if \<not> w_CertsFromPEM w ca then Inl (ErrText ''Resource instance CA invalid'')
                else
                  (case w_LoadKeyPair w (getenv w ''RESOURCE_INSTANCE_CERT_FILE'') (getenv w ''RESOURCE_INSTANCE_KEY_FILE'') of
                     Some _ \<Rightarrow> Inl (ErrText ''SG Resource identity unavailable'')
                   | None \<Rightarrow>
                       (case w_NewClient w (getenv w ''RESOURCE_INSTANCE_ADDR'') of
                          Some e \<Rightarrow> Inl e
                        | None \<Rightarrow>
                            Inr (Some \<lparr> rv_Client = w_TerminalService w, rv_VMClient = w_ConsoleService w,
                                        rv_RequestTimeout = timeout \<rparr>))))))"

definition instance_control_options :: "world \<Rightarrow> bool \<Rightarrow> control_options result" where
  "instance_control_options w enabled =
     (if \<not> enabled \<and> getenv w ''INSTANCE_CONTROL_CA_FILE'' = [] \<and> getenv w ''INSTANCE_CONTROL_CERT_FILE'' = [] \<and>
         getenv w ''INSTANCE_CONTROL_KEY_FILE'' = []
      then Inr None
      else
        (case h_ReadFile (w_Host w) (getenv w ''INSTANCE_CONTROL_CA_FILE'') of
           Inl _ \<Rightarrow> Inl (ErrText ''managed instance control CA required'')
         | Inr ca \<Rightarrow>
             if \<not> w_CertsFromPEM w ca then Inl (ErrText ''managed instance control CA invalid'')
             else
               (case w_LoadKeyPair w (getenv w ''INSTANCE_CONTROL_CERT_FILE'') (getenv w ''INSTANCE_CONTROL_KEY_FILE'') of
                  Some _ \<Rightarrow> Inl (ErrText ''managed instance control identity required'')
                | None \<Rightarrow> Inr (Some RequireAndVerifyClientCert))))"

definition load_kubernetes_config :: "world \<Rightarrow> kube_config result" where
  "load_kubernetes_config w =
     (let path = getenv w ''KUBECONFIG'' in
      if path = [] then w_InClusterConfig w
      else if \<not> has_prefix path ''/'' then Inl (ErrText ''KUBECONFIG requires an absolute managed path'')
      else
        (case w_BuildConfigFromFlags w path of
           Inl e \<Rightarrow> Inl e
         | Inr cfg \<Rightarrow>
             if kc_Insecure cfg \<or> \<not> has_prefix (kc_Host cfg) ''https://'' \<or> kc_ExecProvider cfg \<or> kc_AuthProvider cfg
             then Inl (ErrText ''KUBECONFIG requires verified HTTPS and static managed credentials'')
             else Inr cfg))"

section \<open>The run\<close>

datatype ending = Signalled "error option" | ServeFailed error

type_synonym run = "error option \<times> event list"

text \<open>
  \<open>owning r c run\<close> holds a resource during \<open>run\<close> and releases it by \<open>defer\<close>; the error \<open>c\<close> of the release
  is reported when the run itself has none.
\<close>

definition owning :: "resource \<Rightarrow> error option \<Rightarrow> run \<Rightarrow> run" where
  "owning r close_err rn =
     (case rn of (err, ev) \<Rightarrow> (if err = None then close_err else err, Acquired r # ev @ [Released r]))"

definition failed :: "error \<Rightarrow> run" where
  "failed e = (Some e, [])"

definition serve_phase :: "gateway \<Rightarrow> ending \<Rightarrow> run" where
  "serve_phase gw ending =
     (case ending of
        ServeFailed e \<Rightarrow> (Some e, [Serving gw, ReadySet True])
      | Signalled e \<Rightarrow>
          (case owning ShutdownContext None (e, []) of
             (err, ev) \<Rightarrow> (err, Serving gw # ReadySet True # ReadySet False # ev)))"

definition listen_phase :: "world \<Rightarrow> gateway \<Rightarrow> ending \<Rightarrow> run" where
  "listen_phase w gw ending =
     owning SignalContext None
       (case w_Listen w (gw_HTTPAddr gw) of
          Some e \<Rightarrow> failed (Wrap e ''listen HTTP'')
        | None \<Rightarrow>
            owning HttpListener None
              (case w_Listen w (gw_GRPCAddr gw) of
                 Some e \<Rightarrow> failed (Wrap e ''listen gRPC'')
               | None \<Rightarrow> owning GrpcListener None (serve_phase gw ending)))"

definition base_url_of :: "url \<Rightarrow> base_url" where
  "base_url_of u =
     \<lparr> bu_Scheme = url_Scheme u, bu_Host = url_Host u, bu_Path = url_Path u, bu_Query = parse_query (url_RawQuery u) \<rparr>"

definition instance_authority :: "validator option \<Rightarrow> (string \<Rightarrow> string \<Rightarrow> instance_binding \<Rightarrow> error option) option" where
  "instance_authority = map_option (\<lambda>v. validate_instance (Some (rv_Client v)) (rv_RequestTimeout v))"

definition vm_authority :: "validator option \<Rightarrow> (vm_binding \<Rightarrow> error option) option" where
  "vm_authority = map_option (\<lambda>v. validate_vm (Some (rv_VMClient v)) (rv_RequestTimeout v))"

definition manager_config_of :: "config \<Rightarrow> validator option \<Rightarrow> manager_config" where
  "manager_config_of cfg v =
     \<lparr> mc_InstanceValidator = instance_authority v, mc_VMValidator = vm_authority v,
       mc_PublicWSBaseURL = map_option base_url_of (cf_PublicWSBaseURL cfg), mc_TicketKey = cf_TicketKey cfg,
       mc_TicketTTL = cf_TicketTTL cfg, mc_SessionMaxDuration = cf_SessionMaxDuration cfg,
       mc_IdempotencyTTL = cf_IdempotencyTTL cfg, mc_MaxActive = cf_MaxActiveSessions cfg,
       mc_MaxActivePerSubject = cf_MaxActivePerSubject cfg \<rparr>"

definition policy_of :: "config \<Rightarrow> policy" where
  "policy_of cfg =
     \<lparr> pl_MaxMessageBytes = cf_WSMaxMessageBytes cfg, pl_IdleTimeout = cf_WSIdleTimeout cfg,
       pl_WriteTimeout = cf_WSHandshakeTimeout cfg, pl_InboundQueue = 32, pl_OutboundQueue = 32 \<rparr>"

text \<open>From the manager to the WebSocket handler: the constructors that hold no resource.\<close>

definition build_gateway :: "world \<Rightarrow> config \<Rightarrow> selection \<Rightarrow> validator option \<Rightarrow> control_options \<Rightarrow> gateway result" where
  "build_gateway w cfg sel v control =
     (case new_manager True (manager_config_of cfg v) of
        Inl e \<Rightarrow> Inl (Wrap e ''initialize session manager'')
      | Inr manager \<Rightarrow>
     (case load_kubernetes_config w of
        Inl e \<Rightarrow> Inl (Wrap e ''load Kubernetes config'')
      | Inr kc \<Rightarrow>
     (case w_KubernetesClient w kc of
        Some e \<Rightarrow> Inl (Wrap e ''initialize Kubernetes client'')
      | None \<Rightarrow>
     (let cluster = getenv w ''RESOURCE_INSTANCE_CLUSTER_ID'' in
      if v \<noteq> None \<and> cluster = [] then Inl (ErrText ''managed instance cluster binding required'')
      else if cf_RuntimeRequestTimeout cfg \<le> 0 then Inl (Wrap (Sentinel RtInvalidTarget) ''initialize KubeVirt client'')
      else
     (case w_KubeVirtProvider w kc of
        Some e \<Rightarrow> Inl (Wrap e ''initialize KubeVirt client'')
      | None \<Rightarrow>
     (case new_module True (policy_of cfg) of
        Inl e \<Rightarrow> Inl (Wrap e ''initialize Connected Session module'')
      | Inr policy \<Rightarrow>
     (case new_handler True (cf_AllowedOrigins cfg) (cf_WSHandshakeTimeout cfg) of
        Inl e \<Rightarrow> Inl (Wrap e ''initialize WebSocket admission'')
      | Inr _ \<Rightarrow>
          Inr \<lparr> gw_Selection = sel, gw_Manager = manager,
                gw_ExecAdapter = \<lparr> ea_InstanceValidator = instance_authority v,
                  ea_ClusterID = (if v = None then [] else cluster), ea_RequestTimeout = cf_RuntimeRequestTimeout cfg \<rparr>,
                gw_VMValidator = vm_authority v, gw_VMCluster = (if v = None then [] else cluster),
                gw_Policy = policy, gw_AllowedOrigins = cf_AllowedOrigins cfg,
                gw_CleanupTimeout = cf_WSHandshakeTimeout cfg, gw_HTTPAddr = cf_HTTPAddr cfg,
                gw_GRPCAddr = cf_GRPCAddr cfg, gw_Control = control \<rparr>)))))))"

definition validator_phase :: "world \<Rightarrow> config \<Rightarrow> selection \<Rightarrow> ending \<Rightarrow> run" where
  "validator_phase w cfg sel ending =
     (case new_from_env w (cf_RuntimeRequestTimeout cfg) of
        Inl e \<Rightarrow> failed e
      | Inr v \<Rightarrow>
          (if v = None then (\<lambda>rn. rn) else owning ResourceConn None)
            (case instance_control_options w (v \<noteq> None) of
               Inl e \<Rightarrow> failed e
             | Inr control \<Rightarrow>
                 (case build_gateway w cfg sel v control of
                    Inl e \<Rightarrow> failed e
                  | Inr gw \<Rightarrow> listen_phase w gw ending)))"

text \<open>The client of a selected Redis store is owned from its selection on.\<close>

definition store_phase :: "world \<Rightarrow> config \<Rightarrow> ending \<Rightarrow> run" where
  "store_phase w cfg ending =
     (case select_store w cfg of
        (Inl e, ev) \<Rightarrow> (Some (Wrap e ''select session store''), ev)
      | (Inr sel, ev) \<Rightarrow>
          if sl_Degraded sel then validator_phase w cfg sel ending
          else owning RedisClient (map_option (\<lambda>e. Wrap e ''shutdown session store'') (w_RedisClose w))
                 (validator_phase w cfg sel ending))"

definition run_gateway :: "world \<Rightarrow> ending \<Rightarrow> run" where
  "run_gateway w ending =
     (case load_config (w_Host w) (w_Orders w) of
        Inl e \<Rightarrow> failed (Wrap e ''load config'')
      | Inr cfg \<Rightarrow>
          (case init_tracing w (cf_OTelServiceName cfg) (cf_OTelExporterEndpoint cfg) of
             Some e \<Rightarrow> failed (Wrap e ''initialize tracing'')
           | None \<Rightarrow>
               owning TracingProvider
                 (map_option (\<lambda>e. Wrap e ''shutdown tracing'')
                   (fst (tracing_shutdown (w_TracingShutdown w)
                     (Some \<lparr> tr_Provider = True, tr_Once = False, tr_ShutdownErr = None \<rparr>))))
                 (store_phase w cfg ending)))"

end
