(* ===== verification/StartupFacts.thy ===== *)
theory StartupFacts
  imports Startup
begin

text \<open>
  What a run of the process guarantees: resources are nested, a loaded configuration is refused by no
  constructor, a managed gateway is reachable by authenticated peers only, and the store is the one that
  was asked for.
\<close>

section \<open>Nesting\<close>

fun stack_run :: "resource list \<Rightarrow> event list \<Rightarrow> resource list option" where
  "stack_run st [] = Some st"
| "stack_run st (Acquired r # ev) = stack_run (r # st) ev"
| "stack_run st (Released r # ev) =
     (case st of [] \<Rightarrow> None | x # st' \<Rightarrow> if x = r then stack_run st' ev else None)"
| "stack_run st (Serving _ # ev) = stack_run st ev"
| "stack_run st (ReadySet _ # ev) = stack_run st ev"

text \<open>The gateways served by a run, each with what is held at that moment.\<close>

fun served :: "resource list \<Rightarrow> event list \<Rightarrow> (gateway \<times> resource list) list" where
  "served st [] = []"
| "served st (Acquired r # ev) = served (r # st) ev"
| "served st (Released r # ev) = served (drop 1 st) ev"
| "served st (Serving gw # ev) = (gw, st) # served st ev"
| "served st (ReadySet _ # ev) = served st ev"

definition nested :: "run \<Rightarrow> bool" where
  "nested rn \<longleftrightarrow> (\<forall>st. stack_run st (snd rn) = Some st)"

lemma stack_run_append:
  "stack_run st (ev @ ev') = (case stack_run st ev of None \<Rightarrow> None | Some st' \<Rightarrow> stack_run st' ev')"
  by (induction st ev rule: stack_run.induct) (auto split: list.split)

lemma served_append:
  "stack_run st ev = Some st' \<Longrightarrow> served st (ev @ ev') = served st ev @ served st' ev'"
  by (induction st ev rule: stack_run.induct) (auto split: list.splits if_splits)

lemma snd_owning: "snd (owning r c rn) = Acquired r # snd rn @ [Released r]"
  by (simp add: owning_def split: prod.split)

lemma nested_owning [simp]: "nested rn \<Longrightarrow> nested (owning r c rn)"
  by (simp add: nested_def snd_owning stack_run_append)

lemma nested_failed [simp]: "nested (failed e)"
  by (simp add: nested_def failed_def)

lemma served_owning [simp]: "nested rn \<Longrightarrow> served st (snd (owning r c rn)) = served (r # st) (snd rn)"
  by (simp add: nested_def snd_owning served_append)

lemma served_failed [simp]: "served st (snd (failed e)) = []"
  by (simp add: failed_def)

lemma nested_serve_phase [simp]: "nested (serve_phase gw ending)"
  by (simp add: serve_phase_def nested_def owning_def split: ending.split)

lemma served_serve_phase [simp]: "served st (snd (serve_phase gw ending)) = [(gw, st)]"
  by (simp add: serve_phase_def owning_def split: ending.split)

lemma nested_listen_phase [simp]: "nested (listen_phase w gw ending)"
  by (simp add: listen_phase_def split: option.split)

lemma nested_validator_phase [simp]: "nested (validator_phase w cfg sel ending)"
  by (auto simp: validator_phase_def split: sum.split option.split)

lemma select_store_nested: "select_store w cfg = (Inl e, ev) \<Longrightarrow> nested (Some e', ev)"
  by (auto simp: select_store_def nested_def split: if_splits option.splits sum.splits)

lemma nested_store_phase [simp]: "nested (store_phase w cfg ending)"
  by (auto simp: store_phase_def select_store_nested split: sum.split prod.split)

lemma nested_run_gateway: "nested (run_gateway w ending)"
  by (simp add: run_gateway_def split: sum.split option.split)

section \<open>What is served\<close>

lemma served_listen_phase:
  "served st (snd (listen_phase w gw ending)) =
     (if w_Listen w (gw_HTTPAddr gw) = None \<and> w_Listen w (gw_GRPCAddr gw) = None
      then [(gw, GrpcListener # HttpListener # SignalContext # st)] else [])"
  by (auto simp: listen_phase_def split: option.split)

lemma served_validator_phase:
  "(gw, held) \<in> set (served st (snd (validator_phase w cfg sel ending))) \<longleftrightarrow>
     (\<exists>v control. new_from_env w (cf_RuntimeRequestTimeout cfg) = Inr v \<and>
        instance_control_options w (v \<noteq> None) = Inr control \<and> build_gateway w cfg sel v control = Inr gw \<and>
        w_Listen w (gw_HTTPAddr gw) = None \<and> w_Listen w (gw_GRPCAddr gw) = None \<and>
        held = GrpcListener # HttpListener # SignalContext # (if v = None then st else ResourceConn # st))"
  by (auto simp: validator_phase_def served_listen_phase split: sum.split option.split)

lemma select_store_silent: "select_store w cfg = (Inl e, ev) \<Longrightarrow> served st ev = []"
  by (auto simp: select_store_def split: if_splits option.splits sum.splits)

lemma served_store_phase:
  "x \<in> set (served st (snd (store_phase w cfg ending))) \<longleftrightarrow>
     (\<exists>sel ev. select_store w cfg = (Inr sel, ev) \<and>
        x \<in> set (served (if sl_Degraded sel then st else RedisClient # st) (snd (validator_phase w cfg sel ending))))"
  by (auto simp: store_phase_def select_store_silent split: sum.split prod.split)

lemma served_run_gateway:
  "x \<in> set (served [] (snd (run_gateway w ending))) \<longleftrightarrow>
     (\<exists>cfg. load_config (w_Host w) (w_Orders w) = Inr cfg \<and>
        init_tracing w (cf_OTelServiceName cfg) (cf_OTelExporterEndpoint cfg) = None \<and>
        x \<in> set (served [TracingProvider] (snd (store_phase w cfg ending))))"
  by (auto simp: run_gateway_def split: sum.split option.split)

text \<open>The fields of a gateway that was built.\<close>

lemma build_gateway_fields:
  assumes "build_gateway w cfg sel v control = Inr gw"
  shows "gw_Selection gw = sel" "gw_Manager gw = manager_config_of cfg v" "gw_Control gw = control"
    "gw_HTTPAddr gw = cf_HTTPAddr cfg" "gw_GRPCAddr gw = cf_GRPCAddr cfg" "gw_Policy gw = policy_of cfg"
    "gw_VMValidator gw = vm_authority v" "ea_InstanceValidator (gw_ExecAdapter gw) = instance_authority v"
    "gw_AllowedOrigins gw = cf_AllowedOrigins cfg"
    "v \<noteq> None \<Longrightarrow> gw_VMCluster gw = getenv w ''RESOURCE_INSTANCE_CLUSTER_ID'' \<and> gw_VMCluster gw \<noteq> [] \<and>
       ea_ClusterID (gw_ExecAdapter gw) = gw_VMCluster gw"
  using assms
  by (auto simp: build_gateway_def new_manager_def new_module_def new_handler_def Let_def
      split: sum.splits option.splits if_splits)

text \<open>The constructors of the gateway's own components accept what \<open>Load\<close> returns.\<close>

lemma sound_constructors:
  assumes "sound_config cfg"
  shows "new_manager True (manager_config_of cfg v) = Inr (manager_config_of cfg v)"
    and "new_module True (policy_of cfg) = Inr (policy_of cfg)"
    and "new_handler True (cf_AllowedOrigins cfg) (cf_WSHandshakeTimeout cfg) = Inr ()"
    and "init_tracing w (cf_OTelServiceName cfg) (cf_OTelExporterEndpoint cfg) =
      (if cf_OTelExporterEndpoint cfg = [] then None else w_Exporter w (cf_OTelExporterEndpoint cfg))"
  using assms
  by (auto simp: sound_config_def new_manager_def manager_config_of_def new_module_def policy_of_def new_handler_def
      init_tracing_def split: option.splits)

definition kubernetes_ok :: "world \<Rightarrow> bool" where
  "kubernetes_ok w =
     (case load_kubernetes_config w of
        Inl _ \<Rightarrow> False
      | Inr kc \<Rightarrow> w_KubernetesClient w kc = None \<and> w_KubeVirtProvider w kc = None)"

lemma sound_builds:
  assumes "sound_config cfg"
  shows "(\<exists>gw. build_gateway w cfg sel v control = Inr gw) \<longleftrightarrow>
    kubernetes_ok w \<and> (v \<noteq> None \<longrightarrow> getenv w ''RESOURCE_INSTANCE_CLUSTER_ID'' \<noteq> [])"
proof -
  have "0 < cf_RuntimeRequestTimeout cfg" using assms by (simp add: sound_config_def)
  then show ?thesis
    by (auto simp: build_gateway_def sound_constructors [OF assms] kubernetes_ok_def Let_def
        split: sum.splits option.splits)
qed

definition store_ok :: "world \<Rightarrow> config \<Rightarrow> bool" where
  "store_ok w cfg \<longleftrightarrow>
     cf_StoreMode cfg = ''redis'' \<longrightarrow> w_ParseRedisURL w (cf_RedisURL cfg) = None \<and> w_RedisReady w = Inr ()"

lemma sound_selects:
  assumes "sound_config cfg"
  shows "(\<exists>sel ev. select_store w cfg = (Inr sel, ev)) \<longleftrightarrow> store_ok w cfg"
  using assms by (auto simp: sound_config_def select_store_def store_ok_def split: option.splits sum.splits)

text \<open>What has to succeed outside the gateway.\<close>

definition outside_ok :: "world \<Rightarrow> config \<Rightarrow> bool" where
  "outside_ok w cfg \<longleftrightarrow>
     (cf_OTelExporterEndpoint cfg \<noteq> [] \<longrightarrow> w_Exporter w (cf_OTelExporterEndpoint cfg) = None) \<and>
     store_ok w cfg \<and>
     (case new_from_env w (cf_RuntimeRequestTimeout cfg) of
        Inl _ \<Rightarrow> False
      | Inr v \<Rightarrow> \<not> isl (instance_control_options w (v \<noteq> None)) \<and>
          (v \<noteq> None \<longrightarrow> getenv w ''RESOURCE_INSTANCE_CLUSTER_ID'' \<noteq> [])) \<and>
     kubernetes_ok w \<and> w_Listen w (cf_HTTPAddr cfg) = None \<and> w_Listen w (cf_GRPCAddr cfg) = None"

lemma serves_validator_phase:
  assumes "sound_config cfg"
  shows "(\<exists>x. x \<in> set (served st (snd (validator_phase w cfg sel ending)))) \<longleftrightarrow>
    (case new_from_env w (cf_RuntimeRequestTimeout cfg) of
        Inl _ \<Rightarrow> False
      | Inr v \<Rightarrow> \<not> isl (instance_control_options w (v \<noteq> None)) \<and>
          (v \<noteq> None \<longrightarrow> getenv w ''RESOURCE_INSTANCE_CLUSTER_ID'' \<noteq> [])) \<and>
     kubernetes_ok w \<and> w_Listen w (cf_HTTPAddr cfg) = None \<and> w_Listen w (cf_GRPCAddr cfg) = None"
    (is "?L \<longleftrightarrow> ?R")
proof
  assume ?L
  then obtain gw v control where "new_from_env w (cf_RuntimeRequestTimeout cfg) = Inr v"
    "instance_control_options w (v \<noteq> None) = Inr control" and b: "build_gateway w cfg sel v control = Inr gw"
    "w_Listen w (gw_HTTPAddr gw) = None" "w_Listen w (gw_GRPCAddr gw) = None"
    by (auto simp: served_validator_phase)
  with sound_builds [OF assms, of w sel v control] build_gateway_fields(4,5) [OF b(1)] show ?R by auto
next
  assume r: ?R
  then obtain v where nv: "new_from_env w (cf_RuntimeRequestTimeout cfg) = Inr v"
    and "\<not> isl (instance_control_options w (v \<noteq> None))"
    by (cases "new_from_env w (cf_RuntimeRequestTimeout cfg)") auto
  then obtain control where v: "new_from_env w (cf_RuntimeRequestTimeout cfg) = Inr v"
      "instance_control_options w (v \<noteq> None) = Inr control"
    by (cases "instance_control_options w (v \<noteq> None)") auto
  with r sound_builds [OF assms, of w sel v control] obtain gw where b: "build_gateway w cfg sel v control = Inr gw"
    by auto
  with r v build_gateway_fields(4,5) [OF b] show ?L
    by (auto simp: served_validator_phase)
qed

lemma serves_iff:
  assumes "is_range_order (w_Orders w)"
  shows "(\<exists>x. x \<in> set (served [] (snd (run_gateway w ending)))) \<longleftrightarrow>
    (\<exists>cfg. load_config (w_Host w) (w_Orders w) = Inr cfg \<and> outside_ok w cfg)"
proof -
  have "(\<exists>x. x \<in> set (served st (snd (store_phase w cfg ending)))) \<and>
      init_tracing w (cf_OTelServiceName cfg) (cf_OTelExporterEndpoint cfg) = None \<longleftrightarrow> outside_ok w cfg"
    if "load_config (w_Host w) (w_Orders w) = Inr cfg" for cfg st
  proof -
    note s = load_config_sound [OF assms that]
    define later where "later sel st \<longleftrightarrow> (\<exists>x. x \<in> set (served st (snd (validator_phase w cfg sel ending))))" for sel st
    have "(\<exists>x. x \<in> set (served st (snd (store_phase w cfg ending)))) \<longleftrightarrow>
        (\<exists>sel ev. select_store w cfg = (Inr sel, ev) \<and> later sel (if sl_Degraded sel then st else RedisClient # st))"
      unfolding served_store_phase later_def by blast
    then show ?thesis
      using sound_selects [OF s, of w] sound_constructors(4) [OF s, of w]
      unfolding later_def serves_validator_phase [OF s] outside_ok_def by auto
  qed
  then show ?thesis unfolding served_run_gateway by blast
qed

text \<open>Serving, seen from the gateway that is served.\<close>

lemma servedD:
  assumes "(gw, held) \<in> set (served [] (snd (run_gateway w ending)))"
  obtains cfg sel ev v control where "load_config (w_Host w) (w_Orders w) = Inr cfg"
    "select_store w cfg = (Inr sel, ev)" "new_from_env w (cf_RuntimeRequestTimeout cfg) = Inr v"
    "instance_control_options w (v \<noteq> None) = Inr control" "build_gateway w cfg sel v control = Inr gw"
    "held = [GrpcListener, HttpListener, SignalContext] @ (if v = None then [] else [ResourceConn]) @
       (if sl_Degraded sel then [] else [RedisClient]) @ [TracingProvider]"
  using assms
  by (auto simp: served_run_gateway served_store_phase served_validator_phase split: if_splits)

section \<open>Properties\<close>

definition demo_world :: "bool \<Rightarrow> world" where
  "demo_world managed =
     \<lparr> w_Host = demo_host managed ''wss://gw:30081/api/v1/realtime/'' '' https://a.test/'',
       w_Orders = source_order, w_Exporter = (\<lambda>_. None), w_TracingShutdown = None, w_ParseRedisURL = (\<lambda>_. None),
       w_RedisReady = Inr (), w_RedisClose = None, w_CertsFromPEM = (\<lambda>_. True), w_LoadKeyPair = (\<lambda>_ _. None),
       w_NewClient = (\<lambda>_. None), w_TerminalService = (\<lambda>_ _ _. Inr (Some True)),
       w_ConsoleService = (\<lambda>_. Inr (Some True)),
       w_InClusterConfig = Inr \<lparr> kc_Insecure = False, kc_Host = ''https://k8s'', kc_ExecProvider = False, kc_AuthProvider = False \<rparr>,
       w_BuildConfigFromFlags = (\<lambda>_. Inl (ErrText ''no such file'')),
       w_KubernetesClient = (\<lambda>_. None), w_KubeVirtProvider = (\<lambda>_. None), w_Listen = (\<lambda>_. None) \<rparr>"

lemma demo_world_loads:
  "load_config (w_Host (demo_world m)) (w_Orders (demo_world m)) = Inr (demo_loaded (demo_url ''wss'') ''https://a.test'')"
  by (simp add: demo_world_def demo_load [OF demo_parsed(2,3)] demo_url_def)

lemma demo_world_outside: "outside_ok (demo_world m) (demo_loaded (demo_url ''wss'') ''https://a.test'')"
  by (simp add: outside_ok_def store_ok_def kubernetes_ok_def load_kubernetes_config_def new_from_env_def
      instance_control_options_def demo_world_def demo_host_def managed_vars_def table_host_def demo_loaded_def
      demo_default_def default_config_def env_def)

lemma demo_world_serves: "\<exists>gw held. (gw, held) \<in> set (served [] (snd (run_gateway (demo_world m) ending)))"
proof -
  have "is_range_order (w_Orders (demo_world m))" by (simp add: demo_world_def is_range_order_source)
  from serves_iff [OF this, of ending] demo_world_loads demo_world_outside show ?thesis by auto
qed



text \<open>
  C39: the process gives everything back, in reverse order. On every path, whatever fails, each
  resource that was acquired is released, innermost first; and while the gateway serves it holds both
  listeners, the signal handler, the connection to the resource service exactly when a validator is
  configured, the Redis client exactly when the store is not the degraded one, and the tracer.
\<close>

theorem run_releases_in_order:
  "stack_run [] (snd (run_gateway w ending)) = Some [] \<and>
   list_all (\<lambda>(gw, held). held = [GrpcListener, HttpListener, SignalContext] @
       (if mc_InstanceValidator (gw_Manager gw) = None then [] else [ResourceConn]) @
       (if sl_Degraded (gw_Selection gw) then [] else [RedisClient]) @ [TracingProvider])
     (served [] (snd (run_gateway w ending)))"
proof
  show "stack_run [] (snd (run_gateway w ending)) = Some []"
    using nested_run_gateway by (simp add: nested_def)
  show "list_all (\<lambda>(gw, held). held = [GrpcListener, HttpListener, SignalContext] @
       (if mc_InstanceValidator (gw_Manager gw) = None then [] else [ResourceConn]) @
       (if sl_Degraded (gw_Selection gw) then [] else [RedisClient]) @ [TracingProvider])
     (served [] (snd (run_gateway w ending)))"
  proof (clarsimp simp only: list_all_iff split: prod.splits)
    fix gw held
    assume "(gw, held) \<in> set (served [] (snd (run_gateway w ending)))"
    then obtain cfg sel v control where b: "build_gateway w cfg sel v control = Inr gw"
      and "held = [GrpcListener, HttpListener, SignalContext] @ (if v = None then [] else [ResourceConn]) @
       (if sl_Degraded sel then [] else [RedisClient]) @ [TracingProvider]"
      by (rule servedD)
    then show "held = [GrpcListener, HttpListener, SignalContext] @
       (if mc_InstanceValidator (gw_Manager gw) = None then [] else [ResourceConn]) @
       (if sl_Degraded (gw_Selection gw) then [] else [RedisClient]) @ [TracingProvider]"
      using build_gateway_fields(1,2) [OF b] by (simp add: manager_config_of_def instance_authority_def)
  qed
qed



text \<open>
  A connect URL leads back to the gateway. For a loaded configuration whose base URL has a plain
  host name with an optional port, the URL handed out for a fresh session parses, has the scheme and
  host of the base URL and the path the router serves sessions under with the session's identifier,
  and a server reads exactly the issued ticket from its query.
\<close>

lemma connect_url_leads_back:
  assumes "is_range_order ord" and "load_config h ord = Inr cfg" and "cf_PublicWSBaseURL cfg = Some b"
    and "url_Host b = name @ port" and "list_all unreserved name" and "valid_optional_port port"
    and gen: "issue_generate cr (manager_config_of cfg v) rng = (Inr (is_Ticket iss, ct, s_ID (is_Session iss)), rng')"
  shows "\<exists>u. parse_url (connect_url (manager_config_of cfg v) iss) = Some u \<and> url_Scheme u = url_Scheme b \<and>
    url_Host u = url_Host b \<and> url_Path u = ''/api/v1/realtime/sessions/'' @ s_ID (is_Session iss) \<and>
    values_Get ''ticket'' (parse_query (url_RawQuery u)) = is_Ticket iss"
proof -
  have b: "url_Scheme b \<in> {''ws'', ''wss''}" "url_Path b = ''/api/v1/realtime''" "url_RawQuery b = []"
    using load_config_sound [OF assms(1,2)] assms(3) by (simp_all add: sound_config_def plain_url_def)
  have q: "bu_Query (base_url_of b) = []"
    by (simp add: base_url_of_def b parse_query_def query_pair_def)
  have m: "mc_PublicWSBaseURL (manager_config_of cfg v) = Some (base_url_of b)"
    by (simp add: manager_config_of_def assms(3))
  note plain = issued_texts_plain [OF gen]
  have esc: "url_escape EncodeHost (name @ port) = name @ port"
    using assms(5) port_chars [OF assms(6)] by (rule url_escape_host)
  have path: "url_escape EncodePath (trim_suffix (url_Path b) ''/'') = ''/api/v1/realtime''"
    unfolding b by code_simp
  let ?path = "''/api/v1/realtime/sessions/'' @ s_ID (is_Session iss)"
  have url: "connect_url (manager_config_of cfg v) iss =
      url_Scheme b @ ''://'' @ name @ port @ ?path @ ''?'' @ ''ticket='' @ is_Ticket iss"
    using connect_url_carries_ticket [OF gen m q] esc path assms(4) by (simp add: base_url_of_def)
  have "list_all is_letter (url_Scheme b)" "url_Scheme b \<noteq> []" "map to_lower (url_Scheme b) = url_Scheme b"
    using b(1) by (auto simp: is_letter_def to_lower_def)
  moreover have "list_all url_plain ?path" "list_all url_plain (''ticket='' @ is_Ticket iss)"
    using plain by (auto simp: list_all_iff url_plain_def unreserved_def)
  ultimately have "parse_url (url_Scheme b @ ''://'' @ name @ port @ ?path @ ''?'' @ ''ticket='' @ is_Ticket iss) =
    Some \<lparr> url_Scheme = url_Scheme b, url_Opaque = [], url_User = False, url_Host = name @ port, url_Path = ?path,
           url_RawQuery = ''ticket='' @ is_Ticket iss, url_Fragment = [] \<rparr>"
    by (intro parse_url_text assms(5,6)) simp_all
  then show ?thesis
    using connect_url_carries_ticket [OF gen m q] by (simp add: url assms(4))
qed

end
