(* ===== verification/GrpcTransport.thy ===== *)
theory GrpcTransport
  imports SessionService
begin

text \<open>
  \<open>internal/transport/grpc\<close>: the control-plane endpoint. The messages are the records of the session
  proto file; a message pointer that may be nil is an option, the oneof is a datatype, and an enum is
  its number. The peer of a call is what \<open>peer.FromContext\<close> finds. The server's manager is an option:
  \<open>None\<close> is the nil manager of an unconfigured server.
\<close>

section \<open>Messages\<close>

record pb_principal =
  pp_TenantId :: string
  pp_SubjectId :: string

record pb_instance_binding =
  pi_Version :: int
  pi_ClusterId :: string
  pi_Namespace :: string
  pi_NotebookName :: string
  pi_NotebookUid :: string
  pi_PodName :: string
  pi_PodUid :: string
  pi_ContainerName :: string
  pi_Shell :: string

record pb_vm_binding =
  pv_TenantId :: string
  pv_VmId :: string
  pv_Version :: int
  pv_ClusterId :: string
  pv_Namespace :: string
  pv_VmName :: string
  pv_VmUid :: string
  pv_VmiName :: string
  pv_VmiUid :: string
  pv_NamespaceUid :: string

record pb_target =
  pt_InstanceId :: string
  pt_WorkloadName :: string
  pt_WorkloadKind :: int
  pt_InstanceBinding :: "pb_instance_binding option"
  pt_VmBinding :: "pb_vm_binding option"

record pb_exec_options =
  pe_Container :: string
  pe_Command :: "string list"
  pe_Tty :: bool
  pe_Rows :: int
  pe_Cols :: int

record pb_vm_console =
  pc_Protocol :: int
  pc_RequestedProtocol :: string

datatype pb_mode =
    CreateSessionRequest_Exec "pb_exec_options option"
  | CreateSessionRequest_VmConsole "pb_vm_console option"
  | ModeUnset

record pb_create_request =
  cs_RequestId :: string
  cs_IdempotencyKey :: string
  cs_Principal :: "pb_principal option"
  cs_Target :: "pb_target option"
  cs_Mode :: pb_mode

record pb_replay_request =
  gs_IdempotencyKey :: string
  gs_Principal :: "pb_principal option"
  gs_InstanceId :: string
  gs_ExpectedVersion :: int

record pb_session_response =
  sr_SessionId :: string
  sr_ConnectUrl :: string
  sr_ExpiresAt :: time
  sr_Replayed :: bool

datatype grpc_code =
    InvalidArgument | NotFound | AlreadyExists | FailedPrecondition | ResourceExhausted
  | Unavailable | Internal | PermissionDenied | Unimplemented

type_synonym 'a rpc = "grpc_code \<times> string + 'a"

section \<open>The authenticated peer\<close>

text \<open>
  \<open>TLSAuth verified certs\<close>: TLS credentials with the number of verified chains and, for each peer
  certificate, the texts of its URI names.
\<close>

datatype peer_auth = NoPeer | OtherAuth | TLSAuth nat "string list list"

definition authenticated_governance :: "peer_auth \<Rightarrow> bool" where
  "authenticated_governance p =
     (case p of
        TLSAuth verified certs \<Rightarrow>
          verified > 0 \<and>
          (case certs of
             [] \<Rightarrow> False
           | uris # _ \<Rightarrow> length uris = 1 \<and> uris ! 0 = ''spiffe://ani.internal/service/ani-governance'')
      | _ \<Rightarrow> False)"

section \<open>Mapping of requests and errors\<close>

definition map_instance_binding :: "pb_instance_binding \<Rightarrow> instance_binding" where
  "map_instance_binding b =
     \<lparr> ib_Enabled = True, ib_Version = pi_Version b, ib_ClusterID = pi_ClusterId b,
       ib_Namespace = pi_Namespace b, ib_NotebookName = pi_NotebookName b,
       ib_NotebookUID = pi_NotebookUid b, ib_PodName = pi_PodName b, ib_PodUID = pi_PodUid b,
       ib_ContainerName = pi_ContainerName b, ib_Shell = pi_Shell b \<rparr>"

definition map_vm_binding :: "pb_vm_binding \<Rightarrow> vm_binding" where
  "map_vm_binding b =
     \<lparr> vb_Enabled = True, vb_TenantID = pv_TenantId b, vb_VMID = pv_VmId b, vb_Version = pv_Version b,
       vb_ClusterID = pv_ClusterId b, vb_Namespace = pv_Namespace b, vb_VMName = pv_VmName b,
       vb_VMUID = pv_VmUid b, vb_VMIName = pv_VmiName b, vb_VMIUID = pv_VmiUid b,
       vb_NamespaceUID = pv_NamespaceUid b \<rparr>"

definition map_workload_kind :: "int \<Rightarrow> workload_kind option" where
  "map_workload_kind k =
     (if k = 1 then Some WorkloadContainer else if k = 2 then Some WorkloadGPUContainer
      else if k = 3 then Some WorkloadSandbox else if k = 4 then Some WorkloadVM else None)"

definition map_base :: "pb_create_request \<Rightarrow> pb_principal \<Rightarrow> pb_target \<Rightarrow> workload_kind \<Rightarrow> request" where
  "map_base r p t k =
     \<lparr> rq_InstanceBinding = (case pt_InstanceBinding t of None \<Rightarrow> zero_instance_binding
                             | Some b \<Rightarrow> map_instance_binding b),
       rq_VMBinding = (case pt_VmBinding t of None \<Rightarrow> zero_vm_binding | Some b \<Rightarrow> map_vm_binding b),
       rq_RequestID = cs_RequestId r, rq_IdempotencyKey = cs_IdempotencyKey r,
       rq_TenantID = pp_TenantId p, rq_SubjectID = pp_SubjectId p,
       rq_InstanceID = pt_InstanceId t, rq_WorkloadName = pt_WorkloadName t,
       rq_WorkloadKind = k, rq_Mode = ModeOther [], rq_Container = [], rq_Command = [],
       rq_TTY = False, rq_Rows = 0, rq_Cols = 0, rq_RequestedProtocol = [] \<rparr>"

definition map_exec :: "pb_exec_options \<Rightarrow> request \<Rightarrow> request" where
  "map_exec e mapped =
     mapped\<lparr> rq_Mode := ModeExec, rq_Container := pe_Container e, rq_Command := pe_Command e,
             rq_TTY := pe_Tty e, rq_Rows := word_of_int (pe_Rows e), rq_Cols := word_of_int (pe_Cols e) \<rparr>"

definition map_console :: "pb_vm_console \<Rightarrow> mode \<Rightarrow> request \<Rightarrow> request" where
  "map_console v m mapped = mapped\<lparr> rq_RequestedProtocol := pc_RequestedProtocol v, rq_Mode := m \<rparr>"

definition map_request :: "pb_create_request option \<Rightarrow> request result" where
  "map_request request =
     (case request of
        None \<Rightarrow> Inl (ErrText ''principal and target are required'')
      | Some r \<Rightarrow>
          (case (cs_Principal r, cs_Target r) of
             (Some p, Some t) \<Rightarrow>
               (case map_workload_kind (pt_WorkloadKind t) of
                  None \<Rightarrow> Inl (ErrText ''unsupported workload kind'')
                | Some k \<Rightarrow>
                    let mapped = map_base r p t k in
                    (case cs_Mode r of
                       CreateSessionRequest_Exec None \<Rightarrow> Inl (ErrText ''exec options required'')
                     | CreateSessionRequest_Exec (Some e) \<Rightarrow>
                         if pe_Rows e < 1 \<or> pe_Rows e > 4096 \<or> pe_Cols e < 1 \<or> pe_Cols e > 4096
                         then Inl (ErrText ''invalid terminal size'')
                         else Inr (map_exec e mapped)
                     | CreateSessionRequest_VmConsole None \<Rightarrow> Inl (ErrText ''VM console options required'')
                     | CreateSessionRequest_VmConsole (Some v) \<Rightarrow>
                         if pc_Protocol v = 1 then Inr (map_console v ModeSerial mapped)
                         else if pc_Protocol v = 2 then Inr (map_console v ModeVNC mapped)
                         else Inl (ErrText ''unsupported VM console protocol'')
                     | ModeUnset \<Rightarrow> Inl (ErrText ''mode required'')))
           | _ \<Rightarrow> Inl (ErrText ''principal and target are required'')))"

definition map_error :: "error \<Rightarrow> grpc_code \<times> string" where
  "map_error e =
     (if errors_is e ErrInvalidRequest then (InvalidArgument, ''invalid session request'')
      else if errors_is e ErrNotFound then (NotFound, ''session replay not found'')
      else if errors_is e ErrConflict then (AlreadyExists, ''idempotency key conflicts with request'')
      else if errors_is e ErrFailedPrecondition then
        (FailedPrecondition, ''session is no longer claimable'')
      else if errors_is e ErrCapacity then (ResourceExhausted, ''session capacity exhausted'')
      else if errors_is e ErrUnavailable then (Unavailable, ''session store unavailable'')
      else (Internal, ''session creation failed''))"

section \<open>Handlers\<close>

definition managed_target :: "pb_create_request option \<Rightarrow> bool" where
  "managed_target request =
     (case request of
        None \<Rightarrow> False
      | Some r \<Rightarrow>
          (case cs_Target r of
             None \<Rightarrow> False
           | Some t \<Rightarrow> pt_InstanceBinding t \<noteq> None \<or> pt_VmBinding t \<noteq> None))"

definition session_response :: "manager_config \<Rightarrow> issued \<Rightarrow> bool \<Rightarrow> pb_session_response" where
  "session_response cfg iss replayed =
     \<lparr> sr_SessionId = s_ID (is_Session iss), sr_ConnectUrl = connect_url cfg iss,
       sr_ExpiresAt = s_TicketExpiresAt (is_Session iss), sr_Replayed = replayed \<rparr>"

definition create_session ::
  "crypto \<Rightarrow> manager_config option \<Rightarrow> 's store_ops \<Rightarrow> peer_auth \<Rightarrow> pb_create_request option \<Rightarrow> time
     \<Rightarrow> bytes \<times> 's \<Rightarrow> pb_session_response rpc \<times> bytes \<times> 's" where
  "create_session cr manager ops peer request now st =
     (case manager of
        None \<Rightarrow> (Inl (Unimplemented, ''session creation is not configured''), st)
      | Some cfg \<Rightarrow>
          if managed_target request \<and> \<not> authenticated_governance peer
          then (Inl (PermissionDenied, ''managed target requires authenticated Governance''), st)
          else
            (case map_request request of
               Inl _ \<Rightarrow> (Inl (InvalidArgument, ''invalid session request''), st)
             | Inr mapped \<Rightarrow>
                 (case issue cr cfg ops mapped now st of
                    (Inl e, _, st') \<Rightarrow> (Inl (map_error e), st')
                  | (Inr iss, _, st') \<Rightarrow> (Inr (session_response cfg iss (is_Replayed iss)), st'))))"

definition get_session_replay ::
  "crypto \<Rightarrow> manager_config option \<Rightarrow> 's store_ops \<Rightarrow> peer_auth \<Rightarrow> pb_replay_request option \<Rightarrow> time \<Rightarrow> time
     \<Rightarrow> 's \<Rightarrow> pb_session_response rpc \<times> 's" where
  "get_session_replay cr manager ops peer request now1 now2 s =
     (if \<not> authenticated_governance peer
      then (Inl (PermissionDenied, ''session replay requires authenticated Governance''), s)
      else
        (case manager of
           None \<Rightarrow> (Inl (Unimplemented, ''session creation is not configured''), s)
         | Some cfg \<Rightarrow>
             (case request of
                None \<Rightarrow> (Inl (InvalidArgument, ''invalid session replay request''), s)
              | Some r \<Rightarrow>
                  (case gs_Principal r of
                     None \<Rightarrow> (Inl (InvalidArgument, ''invalid session replay request''), s)
                   | Some p \<Rightarrow>
                       (case replay cr cfg ops \<lparr> rr_IdempotencyKey = gs_IdempotencyKey r,
                                rr_TenantID = pp_TenantId p, rr_SubjectID = pp_SubjectId p,
                                rr_InstanceID = gs_InstanceId r,
                                rr_ExpectedVersion = gs_ExpectedVersion r \<rparr> now1 now2 s of
                          (Inl e, s') \<Rightarrow> (Inl (map_error e), s')
                        | (Inr iss, s') \<Rightarrow> (Inr (session_response cfg iss True), s'))))))"

section \<open>What a mapped request looks like\<close>

lemma map_request_cases:
  assumes "map_request request = Inr q"
  obtains r p t k where "request = Some r" "cs_Principal r = Some p" "cs_Target r = Some t"
    "map_workload_kind (pt_WorkloadKind t) = Some k"
    "rq_TenantID q = pp_TenantId p" "rq_WorkloadKind q = k" "kind_canonical k"
    "ib_Enabled (rq_InstanceBinding q) \<longleftrightarrow> pt_InstanceBinding t \<noteq> None"
    "vb_Enabled (rq_VMBinding q) \<longleftrightarrow> pt_VmBinding t \<noteq> None"
    "rq_Mode q \<in> {ModeExec, ModeSerial, ModeVNC}"
    "rq_Mode q = ModeExec \<Longrightarrow> rq_RequestedProtocol q = []"
    "rq_Mode q \<noteq> ModeExec \<Longrightarrow> rq_Command q = []"
proof -
  obtain r p t k where o: "request = Some r" "cs_Principal r = Some p" "cs_Target r = Some t"
      "map_workload_kind (pt_WorkloadKind t) = Some k"
    using assms by (auto simp: map_request_def split: option.splits prod.splits)
  have base: "ib_Enabled (rq_InstanceBinding (map_base r p t k)) \<longleftrightarrow> pt_InstanceBinding t \<noteq> None"
      "vb_Enabled (rq_VMBinding (map_base r p t k)) \<longleftrightarrow> pt_VmBinding t \<noteq> None"
      "rq_TenantID (map_base r p t k) = pp_TenantId p" "rq_WorkloadKind (map_base r p t k) = k"
      "rq_RequestedProtocol (map_base r p t k) = []" "rq_Command (map_base r p t k) = []"
    by (simp_all add: map_base_def map_instance_binding_def map_vm_binding_def zero_instance_binding_def
        zero_vm_binding_def split: option.split)
  have k: "kind_canonical k"
    using o(4) by (auto simp: map_workload_kind_def split: if_splits)
  obtain m where m: "cs_Mode r = m" by simp
  have "(\<exists>e. q = map_exec e (map_base r p t k)) \<or>
      (\<exists>v md. q = map_console v md (map_base r p t k) \<and> md \<in> {ModeSerial, ModeVNC})"
    using assms o m by (cases m) (auto simp: map_request_def Let_def split: option.splits if_splits)
  then show ?thesis
  proof (elim disjE exE conjE)
    fix e assume "q = map_exec e (map_base r p t k)"
    then show ?thesis
      using o k base by (intro that [of r p t k]) (simp_all add: map_exec_def)
  next
    fix v md assume "q = map_console v md (map_base r p t k)" and "md \<in> {ModeSerial, ModeVNC}"
    then show ?thesis
      using o k base by (intro that [of r p t k]) (auto simp: map_console_def)
  qed
qed

lemma mapped_canonical:
  assumes "map_request a = Inr r" and "list_all short (fingerprint_fields r)"
  shows "request_canonical r"
proof -
  have "kind_canonical (rq_WorkloadKind r)" and "rq_Mode r \<in> {ModeExec, ModeSerial, ModeVNC}"
    by (rule map_request_cases [OF assms(1)], simp)+
  with assms(2) show ?thesis by (auto simp: request_canonical_def)
qed

lemma mapped_options:
  assumes "map_request a = Inr r"
  shows "rq_Mode r = ModeExec \<Longrightarrow> rq_RequestedProtocol r = []"
    and "rq_Mode r \<noteq> ModeExec \<Longrightarrow> rq_Command r = []"
  by (rule map_request_cases [OF assms], simp)+

section \<open>A concrete request\<close>

definition demo_governance :: peer_auth where
  "demo_governance = TLSAuth 1 [[''spiffe://ani.internal/service/ani-governance'']]"

definition demo_pb :: pb_create_request where
  "demo_pb = \<lparr> cs_RequestId = ''request'', cs_IdempotencyKey = ''idem'',
     cs_Principal = Some \<lparr> pp_TenantId = ''tenant-a'', pp_SubjectId = ''subject-a'' \<rparr>,
     cs_Target = Some \<lparr> pt_InstanceId = ''instance-a'', pt_WorkloadName = ''workload-a'', pt_WorkloadKind = 4,
       pt_InstanceBinding = None, pt_VmBinding = Some \<lparr> pv_TenantId = ''tenant-a'', pv_VmId = ''instance-a'',
         pv_Version = 3, pv_ClusterId = ''c'', pv_Namespace = ''ns'', pv_VmName = ''workload-a'',
         pv_VmUid = ''u1'', pv_VmiName = ''workload-a'', pv_VmiUid = ''u2'', pv_NamespaceUid = ''u3'' \<rparr> \<rparr>,
     cs_Mode = CreateSessionRequest_VmConsole (Some \<lparr> pc_Protocol = 2, pc_RequestedProtocol = [] \<rparr>) \<rparr>"

definition demo_mapped :: request where
  "demo_mapped = demo_vnc_request\<lparr> rq_TTY := False, rq_Rows := 0, rq_Cols := 0 \<rparr>"

lemma demo_pb_mapped: "map_request (Some demo_pb) = Inr demo_mapped"
  by (simp add: map_request_def demo_pb_def map_workload_kind_def Let_def map_console_def map_base_def
      map_vm_binding_def demo_mapped_def demo_vnc_request_def demo_request_def demo_vnc_binding_def)

lemma demo_pb_serial:
  "map_request (Some (demo_pb\<lparr> cs_Mode := CreateSessionRequest_VmConsole
     (Some \<lparr> pc_Protocol = 2, pc_RequestedProtocol = ''rfb'' \<rparr>) \<rparr>)) =
   Inr (demo_mapped\<lparr> rq_RequestedProtocol := ''rfb'' \<rparr>)"
  by (simp add: map_request_def demo_pb_def map_workload_kind_def Let_def map_console_def map_base_def
      map_vm_binding_def demo_mapped_def demo_vnc_request_def demo_request_def demo_vnc_binding_def)

lemma demo_mapped_ok:
  "well_formed_request (demo_mapped\<lparr> rq_RequestedProtocol := v \<rparr>)"
  "length v < 10 \<Longrightarrow> list_all short (fingerprint_fields (demo_mapped\<lparr> rq_RequestedProtocol := v \<rparr>))"
  by (simp_all add: demo_mapped_def demo_vnc_request_def demo_request_def demo_vnc_binding_def
      well_formed_request_def zero_instance_binding_def Let_def fingerprint_fields_def instance_fields_def
      vm_fields_def short_def dec_nat.simps dec_int_def)

section \<open>Properties\<close>

lemma mapped_fields_kinds:
  assumes "map_request a = Inr r" and "map_request b = Inr q"
    and "well_formed_request r" and "well_formed_request q"
    and eq: "fingerprint_fields r = fingerprint_fields q"
    and mode: "rq_Mode r = rq_Mode q"
  shows "ib_Enabled (rq_InstanceBinding r) = ib_Enabled (rq_InstanceBinding q) \<and>
    vb_Enabled (rq_VMBinding r) = vb_Enabled (rq_VMBinding q)"
proof (cases "rq_Mode r = ModeExec")
  case True
  have proto: "rq_RequestedProtocol r = []" "rq_RequestedProtocol q = []"
    using True mode mapped_options(1) [OF assms(1)] mapped_options(1) [OF assms(2)] by simp_all
  have vb: "\<not> vb_Enabled (rq_VMBinding r)" "\<not> vb_Enabled (rq_VMBinding q)"
    and shell: "ib_Enabled (rq_InstanceBinding r) \<Longrightarrow> ib_Shell (rq_InstanceBinding r) \<noteq> []"
      "ib_Enabled (rq_InstanceBinding q) \<Longrightarrow> ib_Shell (rq_InstanceBinding q) \<noteq> []"
    using True mode assms(3,4) by (auto simp: well_formed_request_def)
  have "last (fingerprint_fields x) = (if ib_Enabled (rq_InstanceBinding x)
      then ib_Shell (rq_InstanceBinding x) else rq_RequestedProtocol x)"
    if "\<not> vb_Enabled (rq_VMBinding x)" for x
    using that by (simp add: fingerprint_fields_def instance_fields_def vm_fields_def)
  then show ?thesis
    using vb shell proto eq by (metis (full_types))
next
  case False
  have cmd: "rq_Command r = []" "rq_Command q = []"
    using False mode mapped_options(2) [OF assms(1)] mapped_options(2) [OF assms(2)] by simp_all
  have ib: "\<not> ib_Enabled (rq_InstanceBinding r)" "\<not> ib_Enabled (rq_InstanceBinding q)"
    using False mode assms(3,4) by (auto simp: well_formed_request_def split: mode.splits)
  have "length (fingerprint_fields r) = length (fingerprint_fields q)"
    using eq by simp
  with ib cmd show ?thesis
    by (simp add: fingerprint_fields_def fields_length split: if_splits)
qed

text \<open>
  Requests that arrive over gRPC are told apart by their fingerprint. Two mapped, well-formed
  requests with fields below 4 GiB are hashed from the same bytes exactly when they have the same
  intent, whatever bindings they carry: although the hashed list does not delimit the command nor
  mark a binding, no managed request can pose as an unmanaged one.
\<close>

lemma mapped_fingerprint_exact:
  assumes "map_request a = Inr r" and "map_request b = Inr q"
    and "well_formed_request r" and "well_formed_request q"
    and "list_all short (fingerprint_fields r)" and "list_all short (fingerprint_fields q)"
  shows "fingerprint_preimage r = fingerprint_preimage q \<longleftrightarrow> same_intent r q"
proof
  assume "fingerprint_preimage r = fingerprint_preimage q"
  then have eq: "fingerprint_fields r = fingerprint_fields q"
    unfolding fingerprint_preimage_def using assms(5,6) by (rule frames_inject)
  have c: "request_canonical r" "request_canonical q"
    by (rule mapped_canonical [OF assms(1,5)], rule mapped_canonical [OF assms(2,6)])
  have "mode_str (rq_Mode r) = mode_str (rq_Mode q)"
    using eq by (simp add: fingerprint_fields_def)
  then have "rq_Mode r = rq_Mode q"
    using c mode_str_inject by (simp add: request_canonical_def)
  from mapped_fields_kinds [OF assms(1-4) eq this] show "same_intent r q"
    using fingerprint_fields_inject [OF eq c] by blast
next
  assume "same_intent r q"
  then show "fingerprint_preimage r = fingerprint_preimage q"
    by (simp add: fingerprint_preimage_def same_intent_fields)
qed

text \<open>
  C20: managed targets are reserved for Governance. A request with an instance or VM binding from any
  other peer is refused before anything is generated or stored; and a session is only created for a
  well-formed request whose managed binding came from Governance and was accepted by the validator.
\<close>

theorem managed_targets_need_governance:
  assumes "create_session cr (Some cfg) ops peer request now (rng, s) = (res, rng', s')"
  shows "(managed_target request \<and> \<not> authenticated_governance peer \<longrightarrow>
      (\<exists>msg. res = Inl (PermissionDenied, msg)) \<and> rng' = rng \<and> s' = s) \<and>
    (\<forall>resp. res = Inr resp \<longrightarrow> (\<exists>q. map_request request = Inr q \<and> well_formed_request q \<and>
      (ib_Enabled (rq_InstanceBinding q) \<longrightarrow> authenticated_governance peer \<and>
         (\<exists>v. mc_InstanceValidator cfg = Some v \<and>
              v (rq_TenantID q) (rq_InstanceID q) (rq_InstanceBinding q) = None)) \<and>
      (vb_Enabled (rq_VMBinding q) \<longrightarrow> authenticated_governance peer \<and>
         (\<exists>v. mc_VMValidator cfg = Some v \<and> v (rq_VMBinding q) = None))))"
proof (cases "managed_target request \<and> \<not> authenticated_governance peer")
  case True
  with assms show ?thesis by (auto simp: create_session_def)
next
  case False
  show ?thesis
  proof (cases "\<exists>x. res = Inr x")
    case False
    with \<open>\<not> (managed_target request \<and> _)\<close> show ?thesis by auto
  next
    case True
    then obtain q iss label where q: "map_request request = Inr q"
      and i: "issue cr cfg ops q now (rng, s) = (Inr iss, label, rng', s')"
      using assms \<open>\<not> (managed_target request \<and> _)\<close>
      by (auto simp: create_session_def split: sum.splits prod.splits)
    have "managed_target request" if "ib_Enabled (rq_InstanceBinding q) \<or> vb_Enabled (rq_VMBinding q)"
      by (rule map_request_cases [OF q]) (use that in \<open>auto simp: managed_target_def\<close>)
    with issue_requires_authority_any [OF i] q \<open>\<not> (managed_target request \<and> _)\<close>
    show ?thesis by blast
  qed
qed

theorem managed_targets_need_governance_witness:
  "(\<exists>msg. fst (create_session demo_crypto (Some demo_config) memory_ops NoPeer (Some demo_pb) 0
      (demo_random, new_mem_store)) = Inl (PermissionDenied, msg)) \<and>
   snd (create_session demo_crypto (Some demo_config) memory_ops NoPeer (Some demo_pb) 0
      (demo_random, new_mem_store)) = (demo_random, new_mem_store)"
proof -
  obtain res rng' s' where
    c: "create_session demo_crypto (Some demo_config) memory_ops NoPeer (Some demo_pb) 0
      (demo_random, new_mem_store) = (res, rng', s')"
    using prod_cases3 by blast
  have "managed_target (Some demo_pb)" "\<not> authenticated_governance NoPeer"
    by (simp_all add: managed_target_def demo_pb_def authenticated_governance_def)
  with managed_targets_need_governance [OF c] c show ?thesis by simp
qed

text \<open>
  The replay endpoint answers Governance only and never writes. Whatever is asked, the memory
  store is unchanged, and a response means an authenticated peer and an existing session of the
  asked principal.
\<close>

lemma replay_endpoint_read_only:
  assumes "get_session_replay cr manager memory_ops peer request now1 now2 s = (res, s')"
  shows "s' = s \<and> (\<forall>resp. res = Inr resp \<longrightarrow> authenticated_governance peer \<and>
    (\<exists>r p st. request = Some r \<and> gs_Principal r = Some p \<and>
       mem_GetByKey (gs_IdempotencyKey r) s = (Inr st, s) \<and> sr_SessionId resp = s_ID st \<and>
       s_TenantID st = pp_TenantId p \<and> s_SubjectID st = pp_SubjectId p \<and>
       s_State st = StateIssued \<and> sr_ExpiresAt resp = s_TicketExpiresAt st \<and> sr_Replayed resp))"
proof (cases "\<exists>cfg r p. authenticated_governance peer \<and> manager = Some cfg \<and> request = Some r \<and> gs_Principal r = Some p")
  case False
  with assms show ?thesis
    by (auto simp: get_session_replay_def split: if_splits option.splits)
next
  case True
  then obtain cfg r p where o: "authenticated_governance peer" "manager = Some cfg" "request = Some r"
      "gs_Principal r = Some p"
    by blast
  let ?q = "\<lparr> rr_IdempotencyKey = gs_IdempotencyKey r, rr_TenantID = pp_TenantId p,
     rr_SubjectID = pp_SubjectId p, rr_InstanceID = gs_InstanceId r, rr_ExpectedVersion = gs_ExpectedVersion r \<rparr>"
  obtain x s1 where x: "replay cr cfg memory_ops ?q now1 now2 s = (x, s1)" by fastforce
  show ?thesis
    using assms o x mem_replay [OF x]
    by (cases x) (auto simp: get_session_replay_def session_response_def)
qed

text \<open>
  A status code is determined by the sentinel at the root of the error, however often it was
  wrapped; the six sentinels a caller can act on have six different codes, and every other error is
  internal.
\<close>

lemma map_error_classifies:
  "map_error (Wrap e msg) = map_error e \<and>
   inj_on (\<lambda>x. fst (map_error (Sentinel x)))
     {ErrInvalidRequest, ErrNotFound, ErrConflict, ErrFailedPrecondition, ErrCapacity, ErrUnavailable} \<and>
   (fst (map_error e) = Internal) =
     (\<not> errors_is e ErrInvalidRequest \<and> \<not> errors_is e ErrNotFound \<and> \<not> errors_is e ErrConflict \<and>
      \<not> errors_is e ErrFailedPrecondition \<and> \<not> errors_is e ErrCapacity \<and> \<not> errors_is e ErrUnavailable)"
  by (auto simp: map_error_def inj_on_def)

end
