(* ===== verification/Wiring.thy ===== *)
theory Wiring
  imports HttpFront StartupFacts GrpcTransport
begin

text \<open>
  How \<open>run\<close> of \<open>cmd/session-gateway/main.go\<close> connects the components: the constructors of the runtimes
  and servers, and the readiness probe over the events of a run. \<open>built_by_constructors\<close> shows that the
  gateway of \<open>Startup\<close> is put together with them.
\<close>

section \<open>Constructors\<close>

definition new_exec_adapter :: "duration \<Rightarrow> exec_adapter" where
  "new_exec_adapter timeout = \<lparr> ea_InstanceValidator = None, ea_ClusterID = [], ea_RequestTimeout = timeout \<rparr>"

definition configure_instance_validator ::
  "(string \<Rightarrow> string \<Rightarrow> instance_binding \<Rightarrow> error option) \<Rightarrow> string \<Rightarrow> exec_adapter \<Rightarrow> exec_adapter" where
  "configure_instance_validator validate cluster a = a\<lparr> ea_InstanceValidator := Some validate, ea_ClusterID := cluster \<rparr>"

text \<open>\<open>NewAdapter\<close>: the first argument says whether there is a configuration, the last what the provider's clients answer.\<close>

definition new_vm_adapter :: "bool \<Rightarrow> duration \<Rightarrow> error option \<Rightarrow> 'w vm_adapter result" where
  "new_vm_adapter has_config timeout provider_error =
     (if \<not> has_config \<or> timeout \<le> 0 then Inl (Sentinel RtInvalidTarget)
      else (case provider_error of Some e \<Rightarrow> Inl e | None \<Rightarrow> Inr \<lparr> va_Validator = None, va_ClusterID = [] \<rparr>))"

definition configure_vm_validator ::
  "(vm_binding \<Rightarrow> 'w \<Rightarrow> error option \<times> 'w) \<Rightarrow> string \<Rightarrow> 'w vm_adapter \<Rightarrow> 'w vm_adapter" where
  "configure_vm_validator validate cluster a = a\<lparr> va_Validator := Some validate, va_ClusterID := cluster \<rparr>"

text \<open>
  \<open>New\<close> of the gRPC transport: the manager behind the session service, which an absent server is given
  without, and the serving states of the health service. The name of the service is generated.
\<close>

record grpc_server =
  gr_Manager :: "manager_config option"
  gr_Health :: "(string \<times> bool) list"

definition new_grpc_server :: "string \<Rightarrow> manager_config option option \<Rightarrow> grpc_server" where
  "new_grpc_server service_name session_server =
     (let server = (case session_server of None \<Rightarrow> None | Some manager \<Rightarrow> manager)
      in \<lparr> gr_Manager = server, gr_Health = [([], True), (service_name, True)] \<rparr>)"

text \<open>The probes of a run: the store's mode, whether it is degraded, and what its check answers now.\<close>

definition gateway_probes :: "string \<Rightarrow> selection \<Rightarrow> unit result \<Rightarrow> probe_handler" where
  "gateway_probes m sel answer = set_dependency_check answer (register_store m (sl_Degraded sel) new_probe_handler)"

text \<open>The adapters of \<open>build_gateway\<close> are those the constructors make.\<close>

lemma built_by_constructors:
  assumes "build_gateway w cfg sel v control = Inr gw"
  shows "gw_ExecAdapter gw =
      (case v of
         None \<Rightarrow> new_exec_adapter (cf_RuntimeRequestTimeout cfg)
       | Some val \<Rightarrow> configure_instance_validator (validate_instance (Some (rv_Client val)) (rv_RequestTimeout val))
           (getenv w ''RESOURCE_INSTANCE_CLUSTER_ID'') (new_exec_adapter (cf_RuntimeRequestTimeout cfg)))"
    and "\<exists>kc. is_ok (new_vm_adapter True (cf_RuntimeRequestTimeout cfg) (w_KubeVirtProvider w kc) :: unit vm_adapter result)"
  using assms
  by (auto simp: build_gateway_def new_manager_def new_module_def new_handler_def Let_def new_exec_adapter_def
      configure_instance_validator_def instance_authority_def new_vm_adapter_def
      split: sum.splits option.splits if_splits)

section \<open>Readiness\<close>

definition probe_after :: "event list \<Rightarrow> probe_handler \<Rightarrow> probe_handler" where
  "probe_after ev h = fold (\<lambda>e h. case e of ReadySet b \<Rightarrow> set_ready b h | _ \<Rightarrow> h) ev h"

lemma probe_after_simps [simp]:
  "probe_after [] h = h" "probe_after (ReadySet b # ev) h = probe_after ev (set_ready b h)"
  "probe_after (Acquired r # ev) h = probe_after ev h" "probe_after (Released r # ev) h = probe_after ev h"
  "probe_after (Serving gw # ev) h = probe_after ev h"
  "probe_after (ev @ ev') h = probe_after ev' (probe_after ev h)"
  by (simp_all add: probe_after_def)

fun quiet :: "event \<Rightarrow> bool" where
  "quiet (Serving _) = False"
| "quiet (ReadySet _) = False"
| "quiet _ = True"

definition serving_part :: "gateway \<Rightarrow> ending \<Rightarrow> event list" where
  "serving_part gw ending =
     Serving gw # ReadySet True # (case ending of Signalled _ \<Rightarrow> [ReadySet False] | ServeFailed _ \<Rightarrow> [])"

text \<open>A run is quiet, or quiet before and after its serving part, with nothing released before it.\<close>

definition orderly :: "ending \<Rightarrow> event list \<Rightarrow> bool" where
  "orderly ending ev \<longleftrightarrow> list_all quiet ev \<or>
     (\<exists>a gw b. ev = a @ serving_part gw ending @ b \<and> list_all quiet a \<and> list_all quiet b \<and>
        (\<forall>r. Released r \<notin> set a))"

lemma orderly_owning: "orderly ending (snd rn) \<Longrightarrow> orderly ending (snd (owning r c rn))"
  unfolding orderly_def snd_owning
proof (elim disjE exE conjE)
  fix a gw b
  assume "snd rn = a @ serving_part gw ending @ b" "list_all quiet a" "list_all quiet b" "\<forall>r. Released r \<notin> set a"
  then have "Acquired r # snd rn @ [Released r] = (Acquired r # a) @ serving_part gw ending @ (b @ [Released r]) \<and>
      list_all quiet (Acquired r # a) \<and> list_all quiet (b @ [Released r]) \<and>
      (\<forall>r'. Released r' \<notin> set (Acquired r # a))"
    by simp
  then show "list_all quiet (Acquired r # snd rn @ [Released r]) \<or>
      (\<exists>a gw b. Acquired r # snd rn @ [Released r] = a @ serving_part gw ending @ b \<and> list_all quiet a \<and>
         list_all quiet b \<and> (\<forall>r. Released r \<notin> set a))"
    by blast
qed simp

lemma orderly_failed [simp]: "orderly ending (snd (failed e))"
  by (simp add: orderly_def failed_def)

lemma orderly_serve: "orderly ending (snd (serve_phase gw ending))"
proof -
  have "\<exists>b. snd (serve_phase gw ending) = [] @ serving_part gw ending @ b \<and> list_all quiet b"
    by (cases ending) (auto simp: serve_phase_def serving_part_def owning_def)
  then obtain b where "snd (serve_phase gw ending) = [] @ serving_part gw ending @ b" "list_all quiet b" by blast
  then show ?thesis unfolding orderly_def by (intro disjI2 exI [of _ "[]"] exI [of _ gw] exI [of _ b]) simp
qed

lemma orderly_listen: "orderly ending (snd (listen_phase w gw ending))"
  by (simp add: listen_phase_def orderly_owning orderly_serve split: option.split)

lemma orderly_validator: "orderly ending (snd (validator_phase w cfg sel ending))"
  by (auto simp: validator_phase_def orderly_owning orderly_listen split: sum.split option.split)

lemma quiet_select: "select_store w cfg = (Inl e, ev) \<Longrightarrow> list_all quiet ev"
  by (auto simp: select_store_def split: if_splits option.splits sum.splits)

lemma orderly_store: "orderly ending (snd (store_phase w cfg ending))"
proof (cases "select_store w cfg")
  case (Pair x ev)
  then show ?thesis
    using quiet_select [of w cfg _ ev]
    by (cases x) (auto simp: store_phase_def orderly_owning orderly_validator, auto simp: orderly_def)
qed

lemma orderly_run: "orderly ending (snd (run_gateway w ending))"
  by (simp add: run_gateway_def orderly_owning orderly_store split: sum.split option.split)

lemma probe_quiet: "list_all quiet ev \<Longrightarrow> probe_after ev h = h"
proof (induction ev arbitrary: h)
  case (Cons e ev)
  then show ?case by (cases e) simp_all
qed simp

lemma quiet_sets: "list_all quiet ev \<Longrightarrow> ReadySet b \<notin> set ev \<and> Serving gw \<notin> set ev"
  by (auto simp: list_all_iff)

text \<open>Where a run can be cut: before its serving part, inside it, or after it.\<close>

lemma orderly_prefix:
  assumes "orderly ending (pre @ post)"
  obtains (before_serving) "list_all quiet pre"
  | (within) a gw c d where "pre = a @ c" "list_all quiet a" "\<forall>r. Released r \<notin> set a"
      "serving_part gw ending = c @ d" "c \<noteq> []"
  | (after) a gw b where "pre = a @ serving_part gw ending @ b" "list_all quiet a" "list_all quiet b"
proof -
  consider "list_all quiet (pre @ post)"
    | a gw b where "pre @ post = a @ serving_part gw ending @ b" "list_all quiet a" "list_all quiet b"
      "\<forall>r. Released r \<notin> set a"
    using assms unfolding orderly_def by blast
  then show ?thesis
  proof cases
    case 1
    then show ?thesis by (intro before_serving) simp
  next
    case (2 a gw b)
    then obtain us where "pre = a @ us \<and> us @ post = serving_part gw ending @ b \<or> pre @ us = a"
      by (auto simp: append_eq_append_conv2)
    then show ?thesis
    proof (elim disjE conjE)
      assume "pre @ us = a"
      then show ?thesis using 2(2) by (intro before_serving) auto
    next
      assume us: "pre = a @ us" "us @ post = serving_part gw ending @ b"
      then obtain vs where "us = serving_part gw ending @ vs \<and> vs @ post = b \<or> us @ vs = serving_part gw ending"
        by (auto simp: append_eq_append_conv2)
      then show ?thesis
      proof (elim disjE conjE)
        assume "us = serving_part gw ending @ vs" "vs @ post = b"
        then show ?thesis using us 2 by (intro after [of a gw vs]) auto
      next
        assume vs: "us @ vs = serving_part gw ending"
        show ?thesis
        proof (cases "us = []")
          case True
          then show ?thesis using us 2 by (intro before_serving) simp
        next
          case False
          then show ?thesis using us 2 vs by (intro within [of a us gw vs]) auto
        qed
      qed
    qed
  qed
qed

definition withdrawn :: "event list \<Rightarrow> bool" where
  "withdrawn ev \<longleftrightarrow> ReadySet True \<notin> set ev \<or> ReadySet False \<in> set ev"

lemma orderly_probe:
  assumes "orderly ending (pre @ post)" and "\<not> ph_Ready h"
  shows "ph_Ready (probe_after pre h) = (\<not> withdrawn pre) \<and> (\<not> withdrawn pre \<longrightarrow> (\<exists>gw. Serving gw \<in> set pre)) \<and>
    (\<forall>e r. ending = Signalled e \<longrightarrow> Released r \<in> set pre \<longrightarrow> withdrawn pre)"
  using assms(1)
proof (cases rule: orderly_prefix)
  case before_serving
  then show ?thesis using assms(2) quiet_sets [OF before_serving] by (simp add: probe_quiet withdrawn_def)
next
  case (within a gw c d)
  from within(4,5) have "c \<in> {[Serving gw], [Serving gw, ReadySet True], [Serving gw, ReadySet True, ReadySet False]}"
    by (cases ending) (auto simp: serving_part_def Cons_eq_append_conv)
  with within quiet_sets [OF within(2)] assms(2) show ?thesis
    by (auto simp: probe_quiet withdrawn_def set_ready_def)
next
  case (after a gw b)
  with quiet_sets [OF after(2)] quiet_sets [OF after(3)] assms(2) show ?thesis
    by (cases ending) (auto simp: probe_quiet withdrawn_def set_ready_def serving_part_def)
qed

lemma probe_after_only_ready: "\<exists>b. probe_after ev h = h\<lparr> ph_Ready := b \<rparr>"
proof (induction ev arbitrary: h)
  case Nil
  then show ?case by (intro exI [of _ "ph_Ready h"]) simp
next
  case (Cons e ev)
  show ?case
  proof (cases e)
    case (ReadySet b)
    then show ?thesis using Cons.IH [of "set_ready b h"] by (simp add: set_ready_def)
  qed (use Cons.IH [of h] in simp_all)
qed

lemma ready_status:
  "fst (ready_probe (probe_after ev (gateway_probes m sel answer))) =
     (if ph_Ready (probe_after ev (gateway_probes m sel answer)) \<and> \<not> isl answer then 200 else 503)"
  using probe_after_only_ready [of ev "gateway_probes m sel answer"]
  by (auto simp: ready_probe_def gateway_probes_def set_dependency_check_def register_store_def)

section \<open>Properties\<close>


lemma served_Serving: "(gw, held) \<in> set (served st ev) \<Longrightarrow> Serving gw \<in> set ev"
  by (induction st ev rule: served.induct) auto


end
