(* ===== verification/EndToEnd.thy ===== *)
theory EndToEnd
  imports HttpFront StartupFacts GrpcTransport
begin

text \<open>
  From the call of the control plane to the session of a browser: \<open>CreateSession\<close> of the gRPC service, the
  connect URL, the HTTP router, the admission of the WebSocket and the run of the connected session, under
  a configuration that was loaded from the environment. What follows from the contract of the store is
  proved in its locale, for both stores; the property here is about the in-memory store.
\<close>

section \<open>Opening a connect URL\<close>

text \<open>What a browser requests when it opens a URL as a WebSocket.\<close>

definition browser_request :: "url \<Rightarrow> string \<Rightarrow> string \<Rightarrow> http_request" where
  "browser_request u origin protocols =
     \<lparr> hr_Method = ''GET'', hr_Path = url_Path u, hr_RawQuery = url_RawQuery u, hr_Origin = origin,
       hr_Protocols = protocols \<rparr>"

text \<open>The session handler of the gateway at the four clock readings of one request.\<close>

definition session_handler ::
  "crypto \<Rightarrow> manager_config \<Rightarrow> (string, unit) gomap \<Rightarrow> 's store_ops \<Rightarrow> ('x, 'b) runtimes \<Rightarrow> (string \<Rightarrow> bool)
     \<Rightarrow> time \<Rightarrow> time \<Rightarrow> time \<Rightarrow> time \<Rightarrow> ws_request \<Rightarrow> 's \<Rightarrow> ws_reply \<times> observed list \<times> 's" where
  "session_handler cr mc allowed ops rt accept claimAt connectAt closeAt finishAt r s =
     serve_http cr mc allowed ops rt accept r claimAt connectAt closeAt finishAt s"

lemma created_issue:
  assumes "create_session cr (Some mc) ops peer request now (rng, s) = (Inr resp, rng', s1)"
  obtains q iss label where "map_request request = Inr q" "issue cr mc ops q now (rng, s) = (Inr iss, label, rng', s1)"
    "resp = session_response mc iss (is_Replayed iss)"
  using assms by (auto simp: create_session_def split: if_splits sum.splits prod.splits)

lemma offers_expected: "offers_subprotocol raw (expected_subprotocol m) \<Longrightarrow> offers_known_subprotocol raw"
  by (auto simp: offers_known_subprotocol_def expected_subprotocol_def split: if_splits)

lemma issued_texts:
  assumes gen: "issue_generate cr cfg rng = (Inr (is_Ticket iss, ct, s_ID (is_Session iss)), rng')"
  shows "is_Ticket iss \<noteq> []" and "s_ID (is_Session iss) \<noteq> []" and "CHR ''/'' \<notin> set (s_ID (is_Session iss))"
proof -
  obtain tb raw where "length tb = 32" "is_Ticket iss = b64_encode b64_url tb" and "length raw = 16"
      "s_ID (is_Session iss) = uuid_format (uuid_bits raw)"
    by (rule issue_generate_ok [OF gen])
  then have "length (is_Ticket iss) = 43" "length (s_ID (is_Session iss)) = 36"
    using uuid_version by (simp_all add: length_b64_encode)
  then show "is_Ticket iss \<noteq> []" "s_ID (is_Session iss) \<noteq> []" by auto
  show "CHR ''/'' \<notin> set (s_ID (is_Session iss))"
    using issued_texts_plain(2) [OF gen] by (auto simp: list_all_iff unreserved_def)
qed

text \<open>An eligible request whose ticket is claimed runs the session with the claimed access.\<close>

lemma serve_http_runs:
  assumes "origin_allowed allowed (wr_Origin r)" and "values_Get ''ticket'' (parse_query (wr_RawQuery r)) = ticket"
    and "ticket \<noteq> []" and "claim cr cfg ops (wr_SessionID r) ticket claimAt s = (Inr access, label, s1)"
    and "offers_subprotocol (wr_Protocols r) (expected_subprotocol (ca_Mode access))"
    and "accept (expected_subprotocol (ca_Mode access))"
    and "run_module ops rt \<lparr> ac_Access = access, ac_Socket = Some (expected_subprotocol (ca_Mode access)) \<rparr>
      connectAt closeAt finishAt s1 = (oc, obs, final, s2)"
  shows "serve_http cr cfg allowed ops rt accept r claimAt connectAt closeAt finishAt s = (SessionRun oc, obs, s2)"
  using assms offers_expected [OF assms(5)] by (simp add: serve_http_def Let_def)

text \<open>Where an identifier is not issued, no request for it runs a session, and a run leaves it so.\<close>

context session_store
begin

lemma serve_http_refuses:
  assumes "inv s" and "\<And>d. phase_of s (wr_SessionID r) \<noteq> PIssued d"
  shows "fst (serve_http cr cfg allowed ops rt accept r claimAt connectAt closeAt finishAt s) \<noteq> SessionRun oc"
proof -
  obtain res label s1 where c: "claim cr cfg ops (wr_SessionID r)
      (values_Get ''ticket'' (parse_query (wr_RawQuery r))) claimAt s = (res, label, s1)"
    using prod_cases3 by blast
  with claim_not_issued [OF assms] obtain e where "res = Inl e" by (cases res) (metis fst_conv)+
  with c show ?thesis by (simp add: serve_http_def Let_def)
qed

lemma run_module_not_issued:
  assumes "inv s" and "\<And>d. phase_of s i \<noteq> PIssued d"
    and "run_module ops rt a connectAt closeAt finishAt s = (oc, obs, final, s')"
  shows "inv s' \<and> (\<forall>d. phase_of s' i \<noteq> PIssued d)"
proof -
  let ?sid = "ca_SessionID (ac_Access a)" and ?lid = "ca_LeaseID (ac_Access a)"
  obtain res where "st_CloseAndRelease ops ?sid ?lid (outcome_str oc) closeAt s = (res, s')"
    using run_module_shape [OF assms(3)] by (simp add: close_session_def) (metis prod.collapse)
  with close_step [OF assms(1)] have "inv s'" "lives (phase_of s i) (phase_of s' i)" by blast+
  then show ?thesis using assms(2) by auto
qed

end

text \<open>Requests on the path of an identifier that is not issued are answered without a session.\<close>

lemma no_session_on_path:
  assumes "chi_router route" and "session_store ops good phase_of" and "good s" and "\<And>d. phase_of s i \<noteq> PIssued d"
    and "hr_Path r = session_path @ i"
  shows "fst (handle_http route metrics probes (session_handler cr mc allowed ops rt accept c1 c2 c3 c4) r s) \<noteq>
    HttpSession (SessionRun oc)"
proof (cases "route gateway_routes (hr_Method r) (hr_Path r)")
  case (RouteFound h args)
  show ?thesis
  proof (cases h)
    case EpSession
    then have args: "args = [(''sessionID'', i)]"
      using chi_router.route_session_only [OF assms(1), of "hr_Method r" "hr_Path r" args] RouteFound assms(5) by auto
    then have id: "wr_SessionID (ws_request_of r args) = i" by (simp add: ws_request_of_def url_param_def)
    obtain reply obs s' where "session_handler cr mc allowed ops rt accept c1 c2 c3 c4 (ws_request_of r args) s = (reply, obs, s')"
      using prod_cases3 by blast
    with session_store.serve_http_refuses [OF assms(2,3), of "ws_request_of r args" cr mc allowed rt accept c1 c2 c3 c4 oc] assms(4) id
    show ?thesis by (simp add: handle_http_def RouteFound EpSession session_handler_def)
  qed (simp_all add: handle_http_def RouteFound)
qed (simp_all add: handle_http_def)

text \<open>
  A browser that opens the connect URL of a generated ticket is routed to the session handler; when the
  ticket is accepted there, a connected session runs with the granted access.
\<close>

lemma connect_url_runs:
  assumes "chi_router route" and "is_range_order ord" and "load_config h ord = Inr cfg"
    and "cf_PublicWSBaseURL cfg = Some b" and "url_Host b = name @ port" and "list_all unreserved name"
    and "valid_optional_port port"
    and gen: "issue_generate cr (manager_config_of cfg v) rng = (Inr (is_Ticket iss, ct, s_ID (is_Session iss)), rng')"
    and c: "claim cr mc ops (s_ID (is_Session iss)) (is_Ticket iss) t s =
      (Inr (granted_access mc q (s_ID (is_Session iss)) t), label, claimed)"
    and admitted: "origin_allowed allowed origin" "offers_subprotocol protocols (expected_subprotocol (rq_Mode q))"
      "accept (expected_subprotocol (rq_Mode q))"
  obtains u oc obs final s2 where "parse_url (connect_url (manager_config_of cfg v) iss) = Some u"
    and "url_Path u = session_path @ s_ID (is_Session iss)"
    and "handle_http route metrics probes (session_handler cr mc allowed ops rt accept t t2 t3 t4)
      (browser_request u origin protocols) s = (HttpSession (SessionRun oc), obs, s2)"
    and "run_module ops rt \<lparr> ac_Access = granted_access mc q (s_ID (is_Session iss)) t,
      ac_Socket = Some (expected_subprotocol (rq_Mode q)) \<rparr> t2 t3 t4 claimed = (oc, obs, final, s2)"
proof -
  let ?sid = "s_ID (is_Session iss)" and ?tk = "is_Ticket iss" and ?ex = "expected_subprotocol (rq_Mode q)"
  obtain u where u: "parse_url (connect_url (manager_config_of cfg v) iss) = Some u" "url_Path u = session_path @ ?sid"
    and tk: "values_Get ''ticket'' (parse_query (url_RawQuery u)) = ?tk"
    using connect_url_leads_back [OF assms(2-7) gen] by auto
  obtain oc obs final s2 where run: "run_module ops rt
      \<lparr> ac_Access = granted_access mc q ?sid t, ac_Socket = Some ?ex \<rparr> t2 t3 t4 claimed = (oc, obs, final, s2)"
    using prod_cases4 by blast
  let ?req = "browser_request u origin protocols"
  note texts = issued_texts [OF gen]
  have "route gateway_routes (hr_Method ?req) (hr_Path ?req) = RouteFound EpSession [(''sessionID'', ?sid)]"
    using chi_router.session_routed [OF assms(1) texts(2,3)] by (simp add: browser_request_def u(2))
  moreover have "session_handler cr mc allowed ops rt accept t t2 t3 t4 (ws_request_of ?req [(''sessionID'', ?sid)]) s =
      (SessionRun oc, obs, s2)"
    unfolding session_handler_def
    by (rule serve_http_runs [where ticket = ?tk and access = "granted_access mc q ?sid t"])
      (use c run tk texts(1) admitted in \<open>simp_all add: ws_request_of_def browser_request_def url_param_def granted_access_def\<close>)
  ultimately show thesis using that [OF u _ run] by (simp add: handle_http_def)
qed

section \<open>Properties\<close>


definition demo_validator :: validator where
  "demo_validator =
     \<lparr> rv_Client = \<lambda>_ _ _. Inr (Some True), rv_VMClient = \<lambda>_. Inr (Some True), rv_RequestTimeout = 1 \<rparr>"

definition demo_gateway_config :: manager_config where
  "demo_gateway_config = manager_config_of (demo_loaded (demo_url ''wss'') ''https://a.test'') (Some demo_validator)"

lemma demo_gateway_admits: "issue_admission demo_gateway_config demo_mapped = None"
  by (simp add: demo_gateway_config_def demo_validator_def issue_admission_def validate_request_def manager_config_of_def
      vm_authority_def instance_authority_def validate_vm_def valid_vm_binding_def demo_mapped_def demo_vnc_request_def
      demo_vnc_binding_def demo_request_def zero_instance_binding_def Let_def)

lemma demo_gateway_limits:
  "ttls_fit demo_gateway_config" "0 < mc_TicketTTL demo_gateway_config" "0 < mc_MaxActive demo_gateway_config"
  "0 < mc_MaxActivePerSubject demo_gateway_config"
  by (simp_all add: ttls_fit_def demo_gateway_config_def manager_config_of_def demo_loaded_def demo_default_def
      default_config_def demo_host_def table_host_def env_def)

text \<open>The loaded demonstration configuration, its base URL and origins, and a browser that may connect.\<close>

abbreviation demo_gateway_loaded :: config where
  "demo_gateway_loaded \<equiv> demo_loaded (demo_url ''wss'') ''https://a.test''"

lemma demo_gateway_facts:
  "is_range_order (w_Orders (demo_world False))"
  "cf_PublicWSBaseURL demo_gateway_loaded = Some (demo_url ''wss'')" "cf_AllowedOrigins demo_gateway_loaded = [(''https://a.test'', ())]"
  "url_Host (demo_url ''wss'') = ''gw'' @ '':30081''" "list_all unreserved ''gw''" "valid_optional_port '':30081''"
  "authenticated_governance demo_governance" "rq_Mode demo_mapped = ModeVNC"
  "origin_allowed (cf_AllowedOrigins demo_gateway_loaded) ''https://a.test''"
  by (simp_all add: demo_world_def is_range_order_source demo_loaded_def demo_url_def unreserved_def valid_optional_port_def
      is_digit_def authenticated_governance_def demo_governance_def demo_mapped_def demo_vnc_request_def origin_allowed_def)

lemma demo_offered: "offers_subprotocol ''ani.vnc.v1'' (expected_subprotocol (rq_Mode demo_mapped))"
  unfolding demo_gateway_facts(8) by code_simp


end
