(* ===== verification/RedisGateways.thy ===== *)
theory RedisGateways
  imports RedisLedger SessionService
begin

text \<open>
  Several gateways on one Redis server: the session manager of one gateway issues a ticket over its link,
  that of another takes it over its own.
\<close>

lemma tracks_redis_inv:
  assumes "tracks entry sha T A d"
  shows "redis_inv entry d"
  unfolding redis_inv_def
proof (intro allI impI)
  fix sid h e
  assume h: "entry d (session_key sid) = Some (VHash h, e)"
  then obtain v where v: "mget (lg_Sessions A) sid = Some v"
    using assms by (cases "mget (lg_Sessions A) sid") (auto simp: tracks_def)
  then have "h = session_hash v" "s_ID v = sid"
    using tracks_session(1,4) [OF assms v] h by (simp_all add: registered_def holds_def)
  then show "mget h ''id'' = Some sid" by (simp add: stored_fields)
qed

lemma tracks_phase:
  assumes "tracks entry sha T A d" and "mget (lg_Sessions A) i = Some v" and "s_State v = StateClaimed"
  shows "redis_phase entry d i \<noteq> PIssued b"
proof -
  have "entry d (session_key i) = Some (VHash (session_hash v), Some (unix_milli (s_TombstoneExpiresAt v)))"
    using tracks_session(1,4) [OF assms(1,2)] by (simp add: registered_def holds_def)
  then show ?thesis by (simp add: redis_phase_def hash_phase_def stored_fields assms(3))
qed

text \<open>The access survives the store when its strings are valid UTF-8, as those of a gRPC request are.\<close>

lemma access_of_stored:
  assumes "list_all utf8_valid (json_strings (issue_candidate cr cfg1 r now tk ct sid))"
  shows "access_of_lease \<lparr> le_ID = sid @ '':lease'',
      le_Session = stored_form (claimed_session (sid @ '':lease'') t (config_limits cfg) (issue_candidate cr cfg1 r now tk ct sid)),
      le_ExpiresAt = t + mc_SessionMaxDuration cfg \<rparr> = granted_access cfg r sid t"
proof -
  have "map utf8_sanitize (rq_Command r) = rq_Command r"
    "clean_instance_binding (rq_InstanceBinding r) = rq_InstanceBinding r" "clean_vm_binding (rq_VMBinding r) = rq_VMBinding r"
    using assms
    by (auto simp: json_strings_def issue_candidate_def utf8_valid_def clean_instance_binding_def clean_vm_binding_def
        list_all_iff intro: map_idI)
  then show ?thesis
    by (simp add: access_of_lease_def granted_access_def claimed_session_def stored_form_def issue_candidate_def Let_def)
qed

context redis_reliable
begin

text \<open>Issuing under an unused key and a new identifier, and claiming what was issued.\<close>

lemma issue_tracked:
  assumes run: "issue cr cfg (redis_ops rd sha256 lk) r now (rng, d) = (res, label, rng1, d1)"
    and A: "tracks entry sha256 T A d" "clock d1 \<le> T"
    and adm: "issue_admission cfg r = None" "issue_generate cr cfg rng = (Inr (tk, ct, sid), rng')"
    and c: "c = issue_candidate cr cfg r now tk ct sid" "admissible T (EvCreate (rq_IdempotencyKey r) c)"
    and free: "mget (lg_Keys A) (idem_key sha256 (rq_IdempotencyKey r)) = None" "mget (lg_Sessions A) sid = None"
  shows "res = Inr \<lparr> is_Session = stored_form c, is_Ticket = tk, is_Replayed = False \<rparr>"
    and "tracks entry sha256 T (A\<lparr> lg_Sessions := mput sid c (lg_Sessions A),
      lg_Keys := mput (idem_key sha256 (rq_IdempotencyKey r)) sid (lg_Keys A) \<rparr>) d1"
proof -
  have key: "s_IdempotencyKey c = rq_IdempotencyKey r" "s_ID c = sid" by (simp_all add: c(1) issue_candidate_def)
  obtain x where create: "redis_CreateOrGet rd sha256 lk (rq_IdempotencyKey r) c d = (x, d1)"
    using run adm c(1) by (auto simp: issue_def redis_ops_def split: prod.splits sum.splits if_splits)
  have ok: "storable c" "stamp (s_CreatedAt c)" "T < unix_milli (s_TombstoneExpiresAt c)" using c(2) by simp_all
  have free': "mget (lg_Sessions A) (s_ID c) = None" using free(2) key(2) by simp
  note tracked = redis_create_tracked [OF create [folded key(1)] A ok free']
  have L: "ledger_CreateOrGet sha256 (s_IdempotencyKey c) c A = (Inr (stored_form c, False),
      A\<lparr> lg_Sessions := mput sid c (lg_Sessions A), lg_Keys := mput (idem_key sha256 (rq_IdempotencyKey r)) sid (lg_Keys A) \<rparr>)"
    using free(1) by (simp add: ledger_CreateOrGet_def key)
  have "x = Inr (stored_form c, False)" using tracked(1) L by simp
  then show "res = Inr \<lparr> is_Session = stored_form c, is_Ticket = tk, is_Replayed = False \<rparr>"
    using run adm create c(1) by (simp add: issue_def redis_ops_def)
  show "tracks entry sha256 T (A\<lparr> lg_Sessions := mput sid c (lg_Sessions A),
      lg_Keys := mput (idem_key sha256 (rq_IdempotencyKey r)) sid (lg_Keys A) \<rparr>) d1"
    using tracked(2) L by simp
qed

lemma claim_tracked:
  assumes run: "claim cr cfg (redis_ops rd sha256 lk) sid tk t d = (res, label, d1)" and sha: "sha256 = cr_sha256 cr"
    and A: "tracks entry sha256 T A d" "clock d1 \<le> T" "mget (lg_Sessions A) sid = Some c"
    and c: "c = issue_candidate cr cfg1 r now tk ct sid" "list_all utf8_valid (json_strings c)"
    and stamps: "admissible T (EvClaim sid (s_TicketDigest c) t (config_limits cfg))"
    and live: "unix_milli t < unix_milli (s_TicketExpiresAt c)"
    and room: "int (length (unexpired (unix_milli t) (fst (ledger_leases sha256 c A)))) < mc_MaxActive cfg"
      "int (length (unexpired (unix_milli t) (snd (ledger_leases sha256 c A)))) < mc_MaxActivePerSubject cfg"
  shows "res = Inr (granted_access cfg r sid t)" and "redis_phase entry d1 sid \<noteq> PIssued b" and "redis_inv entry d1"
proof -
  let ?lim = "config_limits cfg" and ?dg = "s_TicketDigest c"
  have dg: "cr_sha256 cr (str_bytes tk) = ?dg" and st: "s_State c = StateIssued" "s_ID c = sid"
    by (simp_all add: c(1) issue_candidate_def)
  obtain x where take: "redis_ClaimAndReserve rd sha256 lk sid ?dg t ?lim d = (x, d1)"
    using run dg by (auto simp: claim_def redis_ops_def split: prod.splits sum.splits)
  have ok: "claim_stamps t ?lim" "T < unix_milli (t + cl_SessionMaxDuration ?lim + cl_IdempotencyTTL ?lim)"
    using stamps by simp_all
  note tracked = redis_claim_tracked [OF take A(1,2) ok]
  have "claim_answer c (ledger_leases sha256 c A) ?dg t ?lim = Inr \<lparr> le_ID = sid @ '':lease'',
      le_Session = stored_form (claimed_session (sid @ '':lease'') t ?lim c), le_ExpiresAt = t + mc_SessionMaxDuration cfg \<rparr>"
    using live room st by (simp add: claim_answer_def)
  then have L: "ledger_ClaimAndReserve sha256 sid ?dg t ?lim A = (Inr \<lparr> le_ID = sid @ '':lease'',
      le_Session = stored_form (claimed_session (sid @ '':lease'') t ?lim c), le_ExpiresAt = t + mc_SessionMaxDuration cfg \<rparr>,
      ledger_put sha256 (claimed_session (sid @ '':lease'') t ?lim c)
        (claim_leases c (ledger_leases sha256 c A) ?dg t ?lim) A)"
    using A(3) st by (simp add: ledger_ClaimAndReserve_def claim_record_def)
  then have "x = Inr \<lparr> le_ID = sid @ '':lease'', le_Session = stored_form (claimed_session (sid @ '':lease'') t ?lim c),
      le_ExpiresAt = t + mc_SessionMaxDuration cfg \<rparr>"
    using tracked(1) by simp
  then have "res = Inr (access_of_lease \<lparr> le_ID = sid @ '':lease'',
      le_Session = stored_form (claimed_session (sid @ '':lease'') t ?lim c), le_ExpiresAt = t + mc_SessionMaxDuration cfg \<rparr>)"
    using run dg take by (simp add: claim_def redis_ops_def)
  then show "res = Inr (granted_access cfg r sid t)"
    unfolding c(1) access_of_stored [OF c(2) [unfolded c(1)]] .
  have after: "tracks entry sha256 T (ledger_put sha256 (claimed_session (sid @ '':lease'') t ?lim c)
        (claim_leases c (ledger_leases sha256 c A) ?dg t ?lim) A) d1"
    using tracked(2) L by simp
  show "redis_inv entry d1" by (rule tracks_redis_inv [OF after])
  show "redis_phase entry d1 sid \<noteq> PIssued b"
    by (rule tracks_phase [OF after, where v = "claimed_session (sid @ '':lease'') t ?lim c"]) (simp_all add: ledger_put_def st)
qed

lemma manager_claim_clock:
  assumes "claim cr cfg (redis_ops rd sha256 lk) sid tk t d = (res, label, d')"
    and step: "\<And>n d. P (clock d) \<Longrightarrow> P (clock (lk_Before lk n d))" and "P (clock d)"
  shows "P (clock d')"
proof -
  obtain x where "redis_ClaimAndReserve rd sha256 lk sid (cr_sha256 cr (str_bytes tk)) t (config_limits cfg) d = (x, d')"
    using assms(1) by (auto simp: claim_def redis_ops_def split: prod.splits sum.splits)
  then show ?thesis by (rule claim_clock) (use step assms(3) in auto)
qed

lemma manager_issue_clock:
  assumes "issue cr cfg (redis_ops rd sha256 lk) r now (rng, d) = (res, label, rng', d')"
    and step: "\<And>n d. P (clock d) \<Longrightarrow> P (clock (lk_Before lk n d))" and "P (clock d)"
  shows "P (clock d')"
proof -
  have "d' = d \<or> (\<exists>c x. redis_CreateOrGet rd sha256 lk (rq_IdempotencyKey r) c d = (x, d'))"
    using assms(1) by (auto simp: issue_def redis_ops_def Let_def split: prod.splits sum.splits if_splits option.splits)
  then show ?thesis using create_clock [of _ _ d _ d' P] step assms(3) by blast
qed

end

section \<open>A ticket of one gateway, taken over another\<close>

text \<open>Every command over the link is carried out and answered; the clock may advance between them.\<close>

definition reliable_link :: "('d \<Rightarrow> string \<Rightarrow> redis_entry) \<Rightarrow> ('d \<Rightarrow> int) \<Rightarrow> 'd link \<Rightarrow> bool" where
  "reliable_link entry clock lk \<longleftrightarrow>
     (\<forall>n d. server_ticks entry clock d (lk_Before lk n d) \<and> lk_Fate lk n d = Delivered)"

text \<open>The live leases of the global set and of the subject leave room for one more.\<close>

definition room_for :: "(bytes \<Rightarrow> bytes) \<Rightarrow> manager_config \<Rightarrow> string \<Rightarrow> time \<Rightarrow> ledger \<Rightarrow> bool" where
  "room_for sha cfg subject t A \<longleftrightarrow>
     int (length (unexpired (unix_milli t) (lg_Leases A global_leases_key))) < mc_MaxActive cfg \<and>
     int (length (unexpired (unix_milli t) (lg_Leases A (subject_leases_key sha subject)))) < mc_MaxActivePerSubject cfg"

lemma reliable_client:
  assumes "redis_server rd entry clock" and "reliable_link entry clock lk"
  shows "redis_reliable rd entry clock lk"
  using assms by (simp add: reliable_link_def redis_reliable_def redis_reliable_axioms_def redis_client_def redis_client_axioms_def)

lemma redis_contract:
  assumes "redis_server rd entry clock" and "\<And>n d. server_ticks entry clock d (lk_Before lk n d)"
  shows "session_store (redis_ops rd sha lk) (redis_inv entry) (redis_phase entry)"
proof -
  have "redis_client rd entry clock lk"
    using assms by (simp add: redis_client_def redis_client_axioms_def)
  then show ?thesis by (rule redis_client.keeps_contract)
qed

lemma issued_elsewhere:
  assumes server: "redis_server rd entry clock" and links: "reliable_link entry clock lk1" "reliable_link entry clock lk2"
    and A: "tracks entry (cr_sha256 cr) T A d"
      "mget (lg_Keys A) (idem_key (cr_sha256 cr) (rq_IdempotencyKey r)) = None" "mget (lg_Sessions A) sid = None"
    and adm: "issue_admission cfg1 r = None" "issue_generate cr cfg1 rng = (Inr (tk, ct, sid), rng')"
    and c: "c = issue_candidate cr cfg1 r now tk ct sid" "admissible T (EvCreate (rq_IdempotencyKey r) c)"
      "list_all utf8_valid (json_strings c)"
    and issue: "issue cr cfg1 (redis_ops rd (cr_sha256 cr) lk1) r now (rng, d) = (issued, label1, rng1, d1)"
    and claim: "server_ticks entry clock d1 e"
      "claim cr cfg2 (redis_ops rd (cr_sha256 cr) lk2) sid tk t e = (access, label2, d2)" "clock d2 \<le> T"
    and stamps: "admissible T (EvClaim sid (s_TicketDigest c) t (config_limits cfg2))"
    and live: "unix_milli t < unix_milli (now + mc_TicketTTL cfg1)"
    and room: "room_for (cr_sha256 cr) cfg2 (rq_SubjectID r) t A"
  shows "issued = Inr \<lparr> is_Session = stored_form c, is_Ticket = tk, is_Replayed = False \<rparr>"
    and "access = Inr (granted_access cfg2 r sid t)"
    and "redis_inv entry d2" and "redis_phase entry d2 sid \<noteq> PIssued b"
proof -
  note one = reliable_client [OF server links(1)] and two = reliable_client [OF server links(2)]
  let ?B = "A\<lparr> lg_Sessions := mput sid c (lg_Sessions A),
      lg_Keys := mput (idem_key (cr_sha256 cr) (rq_IdempotencyKey r)) sid (lg_Keys A) \<rparr>"
  have later: "clock x \<le> clock (lk_Before lk2 n x)" for n x
    using links(2) by (simp add: reliable_link_def server_ticks_def)
  have "clock e \<le> clock d2"
    by (rule redis_reliable.manager_claim_clock [OF two claim(2), where P = "\<lambda>x. clock e \<le> x"])
      (use later order_trans in blast)+
  moreover have "clock d1 \<le> clock e" using claim(1) by (simp add: server_ticks_def)
  ultimately have late: "clock d1 \<le> T" "clock e \<le> T" using claim(3) by simp_all
  note issued = redis_reliable.issue_tracked [OF one issue A(1) late(1) adm c(1,2) A(2,3)]
  show "issued = Inr \<lparr> is_Session = stored_form c, is_Ticket = tk, is_Replayed = False \<rparr>" by (rule issued(1))
  have B: "tracks entry (cr_sha256 cr) T ?B e" by (rule tracks_ticks [OF issued(2) claim(1) late(2)])
  have leases: "ledger_leases (cr_sha256 cr) c ?B = (lg_Leases A global_leases_key,
      lg_Leases A (subject_leases_key (cr_sha256 cr) (rq_SubjectID r)))" "unix_milli t < unix_milli (s_TicketExpiresAt c)"
    using live by (simp_all add: ledger_leases_def c(1) issue_candidate_def)
  have found: "mget (lg_Sessions ?B) sid = Some c" by simp
  have free: "int (length (unexpired (unix_milli t) (fst (ledger_leases (cr_sha256 cr) c ?B)))) < mc_MaxActive cfg2"
    "int (length (unexpired (unix_milli t) (snd (ledger_leases (cr_sha256 cr) c ?B)))) < mc_MaxActivePerSubject cfg2"
    using room by (simp_all add: leases(1) room_for_def)
  note claimed = redis_reliable.claim_tracked [OF two claim(2) refl B claim(3) found c(1,3) stamps leases(2) free]
  show "access = Inr (granted_access cfg2 r sid t)" by (rule claimed(1))
  show "redis_phase entry d2 sid \<noteq> PIssued b" by (rule claimed(2))
  show "redis_inv entry d2" by (rule claimed(3))
qed

text \<open>
  A ticket issued by one gateway opens its session on another. Two gateways hold reliable links to
  one Redis server that obeys the Redis laws and whose content the ledger describes. The first admits
  a request and issues a ticket under an unused idempotency key and a new identifier; at any later
  moment before the ticket expires, with room under the limits, the second accepts exactly this
  ticket and grants the identity, target and options of the request. From then on no gateway, over any
  link and with any ticket, is granted that session.
\<close>

lemma ticket_crosses_gateways:
  assumes "redis_server rd entry clock" and "reliable_link entry clock lk1" and "reliable_link entry clock lk2"
    and "tracks entry (cr_sha256 cr) T A d"
    and "mget (lg_Keys A) (idem_key (cr_sha256 cr) (rq_IdempotencyKey r)) = None" and "mget (lg_Sessions A) sid = None"
    and "issue_admission cfg1 r = None" and "issue_generate cr cfg1 rng = (Inr (tk, ct, sid), rng')"
    and "c = issue_candidate cr cfg1 r now tk ct sid" and "admissible T (EvCreate (rq_IdempotencyKey r) c)"
    and "list_all utf8_valid (json_strings c)"
    and "issue cr cfg1 (redis_ops rd (cr_sha256 cr) lk1) r now (rng, d) = (issued, label1, rng1, d1)"
    and "server_ticks entry clock d1 e"
    and "claim cr cfg2 (redis_ops rd (cr_sha256 cr) lk2) sid tk t e = (access, label2, d2)" and "clock d2 \<le> T"
    and "admissible T (EvClaim sid (s_TicketDigest c) t (config_limits cfg2))"
    and "unix_milli t < unix_milli (now + mc_TicketTTL cfg1)"
    and "room_for (cr_sha256 cr) cfg2 (rq_SubjectID r) t A"
  shows "issued = Inr \<lparr> is_Session = stored_form c, is_Ticket = tk, is_Replayed = False \<rparr> \<and>
    access = Inr (granted_access cfg2 r sid t) \<and>
    (\<forall>cfg3 lk3 ticket t'. (\<forall>n d. server_ticks entry clock d (lk_Before lk3 n d)) \<longrightarrow>
       \<not> is_ok (fst (claim cr cfg3 (redis_ops rd (cr_sha256 cr) lk3) sid ticket t' d2)))"
  using issued_elsewhere [OF assms] session_store.claim_not_issued [OF redis_contract [OF assms(1)]] by blast

end
