(* ===== verification/GatewayEndToEnd.thy ===== *)
theory GatewayEndToEnd
  imports EndToEnd RedisGateways
begin

text \<open>
  The whole path over Redis: one gateway creates the session, the browser's WebSocket reaches another. The
  gateways share nothing but the Redis server.
\<close>

text \<open>A reliable link over which the server's clock stays before \<open>T\<close> when it was before it.\<close>

definition timely_link :: "('d \<Rightarrow> string \<Rightarrow> redis_entry) \<Rightarrow> ('d \<Rightarrow> int) \<Rightarrow> int \<Rightarrow> 'd link \<Rightarrow> bool" where
  "timely_link entry clock T lk \<longleftrightarrow> reliable_link entry clock lk \<and>
     (\<forall>n d. clock d \<le> T \<longrightarrow> clock (lk_Before lk n d) \<le> T)"

text \<open>What \<open>CreateSession\<close> answers when the manager issues.\<close>

lemma create_session_issues:
  assumes "map_request request = Inr q" and "managed_target request \<longrightarrow> authenticated_governance peer"
    and "create_session cr (Some mc) ops peer request now (rng, d) = (reply, rng', d')"
  obtains res label where "issue cr mc ops q now (rng, d) = (res, label, rng', d')"
    and "\<And>iss. res = Inr iss \<Longrightarrow> reply = Inr (session_response mc iss (is_Replayed iss))"
proof -
  obtain res label st where i: "issue cr mc ops q now (rng, d) = (res, label, st)" using prod_cases3 by blast
  then have "st = (rng', d')" and "\<And>iss. res = Inr iss \<Longrightarrow> reply = Inr (session_response mc iss (is_Replayed iss))"
    using assms by (auto simp: create_session_def split: sum.splits)
  with i that show thesis by simp
qed

section \<open>Properties\<close>

text \<open>
  C17: the connect URL of one gateway opens its session on any gateway, once. Two gateways hold reliable links
  to one Redis server that obeys the Redis laws. The first, under a loaded configuration, creates a session
  for an admitted request over gRPC, under an unused idempotency key and a new identifier; its answer
  carries a URL that parses. At any later moment before the ticket expires, with room under the limits, a
  browser that opens the URL on the second gateway from an allowed origin with the subprotocol of the
  mode is routed to the session handler, which runs a connected session with exactly the identity,
  target and options of the created request. Afterwards no request on that path runs a session again,
  on no gateway, over no link.
\<close>

theorem connect_url_opens_on_any_gateway:
  assumes "chi_router route" and "is_range_order ord" and "load_config h ord = Inr cfg"
    and "cf_PublicWSBaseURL cfg = Some b" and "url_Host b = name @ port" and "list_all unreserved name"
    and "valid_optional_port port" and mc1: "mc1 = manager_config_of cfg v"
    and server: "redis_server rd entry clock" and links: "reliable_link entry clock lk1" "timely_link entry clock T lk2"
    and A: "tracks entry (cr_sha256 cr) T A d"
      "mget (lg_Keys A) (idem_key (cr_sha256 cr) (rq_IdempotencyKey q)) = None" "mget (lg_Sessions A) sid = None"
    and request: "map_request request = Inr q" "managed_target request \<longrightarrow> authenticated_governance peer"
    and adm: "issue_admission mc1 q = None" "issue_generate cr mc1 rng = (Inr (tk, ct, sid), rng')"
    and c: "c = issue_candidate cr mc1 q now tk ct sid" "admissible T (EvCreate (rq_IdempotencyKey q) c)"
      "list_all utf8_valid (json_strings c)"
    and created: "create_session cr (Some mc1) (redis_ops rd (cr_sha256 cr) lk1) peer request now (rng, d) = (reply, rng1, d1)"
    and later: "server_ticks entry clock d1 e" "clock e \<le> T"
    and stamps: "admissible T (EvClaim sid (s_TicketDigest c) t (config_limits mc2))"
    and live: "unix_milli t < unix_milli (now + mc_TicketTTL mc1)"
    and room: "room_for (cr_sha256 cr) mc2 (rq_SubjectID q) t A"
    and admitted: "origin_allowed allowed origin" "offers_subprotocol protocols (expected_subprotocol (rq_Mode q))"
      "accept (expected_subprotocol (rq_Mode q))"
  shows "\<exists>resp u oc obs final claimed d2. reply = Inr resp \<and> parse_url (sr_ConnectUrl resp) = Some u \<and>
    handle_http route metrics probes (session_handler cr mc2 allowed (redis_ops rd (cr_sha256 cr) lk2) rt accept t t2 t3 t4)
      (browser_request u origin protocols) e = (HttpSession (SessionRun oc), obs, d2) \<and>
    run_module (redis_ops rd (cr_sha256 cr) lk2) rt \<lparr> ac_Access = granted_access mc2 q sid t,
      ac_Socket = Some (expected_subprotocol (rq_Mode q)) \<rparr> t2 t3 t4 claimed = (oc, obs, final, d2) \<and>
    (\<forall>lk3 r mc3 allowed3 rt3 accept3 t5 t6 t7 t8 oc3. (\<forall>n d. server_ticks entry clock d (lk_Before lk3 n d)) \<longrightarrow>
       hr_Path r = url_Path u \<longrightarrow>
       fst (handle_http route metrics probes (session_handler cr mc3 allowed3 (redis_ops rd (cr_sha256 cr) lk3)
         (rt3 :: ('x, 'y) runtimes) accept3 t5 t6 t7 t8) r d2) \<noteq> HttpSession (SessionRun oc3))"
proof -
  let ?ops = "redis_ops rd (cr_sha256 cr) lk2" and ?ex = "expected_subprotocol (rq_Mode q)"
  have reliable: "reliable_link entry clock lk1" "reliable_link entry clock lk2"
    using links by (simp_all add: timely_link_def)
  obtain issued label1 where issue: "issue cr mc1 (redis_ops rd (cr_sha256 cr) lk1) q now (rng, d) = (issued, label1, rng1, d1)"
    and reply: "\<And>iss. issued = Inr iss \<Longrightarrow> reply = Inr (session_response mc1 iss (is_Replayed iss))"
    using create_session_issues [OF request created] by blast
  obtain access label2 claimed where claim: "claim cr mc2 ?ops sid tk t e = (access, label2, claimed)"
    using prod_cases3 by blast
  have "clock claimed \<le> T"
    by (rule redis_reliable.manager_claim_clock [OF reliable_client [OF server reliable(2)] claim, where P = "\<lambda>x. x \<le> T"])
      (use links(2) later(2) in \<open>simp_all add: timely_link_def\<close>)
  note elsewhere = issued_elsewhere [OF server reliable A adm c issue later(1) claim this stamps live room]
  define iss where "iss = \<lparr> is_Session = stored_form c, is_Ticket = tk, is_Replayed = False \<rparr>"
  have iss: "is_Ticket iss = tk" "s_ID (is_Session iss) = sid"
    by (simp_all add: iss_def stored_form_def c(1) issue_candidate_def)
  have gen: "issue_generate cr (manager_config_of cfg v) rng = (Inr (is_Ticket iss, ct, s_ID (is_Session iss)), rng')"
    using adm(2) by (simp add: iss mc1)
  have granted: "claim cr mc2 ?ops (s_ID (is_Session iss)) (is_Ticket iss) t e =
      (Inr (granted_access mc2 q (s_ID (is_Session iss)) t), label2, claimed)"
    using claim elsewhere(2) by (simp add: iss)
  obtain u oc obs final d2 where u: "parse_url (connect_url (manager_config_of cfg v) iss) = Some u"
      "url_Path u = session_path @ s_ID (is_Session iss)"
    and handled: "handle_http route metrics probes (session_handler cr mc2 allowed ?ops rt accept t t2 t3 t4)
      (browser_request u origin protocols) e = (HttpSession (SessionRun oc), obs, d2)"
    and run: "run_module ?ops rt \<lparr> ac_Access = granted_access mc2 q (s_ID (is_Session iss)) t, ac_Socket = Some ?ex \<rparr>
      t2 t3 t4 claimed = (oc, obs, final, d2)"
    by (rule connect_url_runs [where accept = accept, OF assms(1-7) gen granted admitted])
  have "session_store ?ops (redis_inv entry) (redis_phase entry)"
    using redis_contract [OF server] reliable(2) by (simp add: reliable_link_def)
  note after = session_store.run_module_not_issued [OF this elsewhere(3,4) run]
  have "fst (handle_http route metrics probes (session_handler cr mc3 allowed3 (redis_ops rd (cr_sha256 cr) lk3)
       (rt3 :: ('x, 'y) runtimes) accept3 t5 t6 t7 t8) r d2) \<noteq> HttpSession (SessionRun oc3)"
    if "\<forall>n d. server_ticks entry clock d (lk_Before lk3 n d)" "hr_Path r = url_Path u"
    for lk3 r mc3 allowed3 rt3 accept3 t5 t6 t7 t8 oc3
    using no_session_on_path [OF assms(1) redis_contract [OF server], of lk3 d2 sid r] that after u(2) iss(2) by simp
  moreover have "reply = Inr (session_response mc1 iss False)"
    "parse_url (sr_ConnectUrl (session_response mc1 iss False)) = Some u"
    using reply [OF elsewhere(1)] u(1) by (simp_all add: iss_def session_response_def mc1)
  ultimately show ?thesis using handled run iss(2) by blast
qed

text \<open>The demonstration request on two gateways over the table server.\<close>

definition gateway_crypto :: crypto where
  "gateway_crypto = demo_crypto\<lparr> cr_sha256 := test_sha \<rparr>"

lemma gateway_sha [simp]: "cr_sha256 gateway_crypto = test_sha" "length (test_sha b) = 32"
  by (simp_all add: gateway_crypto_def test_sha_def)

lemma gateway_durations:
  "mc_TicketTTL demo_gateway_config = 60000000000" "mc_SessionMaxDuration demo_gateway_config = 900000000000"
  "mc_IdempotencyTTL demo_gateway_config = 900000000000" "mc_MaxActive demo_gateway_config = 100"
  "mc_MaxActivePerSubject demo_gateway_config = 5"
  by (simp_all add: demo_gateway_config_def manager_config_of_def demo_loaded_def demo_default_def
      default_config_def demo_host_def table_host_def env_def)

lemma gateway_candidate:
  assumes "c = issue_candidate gateway_crypto demo_gateway_config demo_mapped 2000000000 tk ct sid"
  shows "admissible 100000 (EvCreate (rq_IdempotencyKey demo_mapped) c)" and "list_all utf8_valid (json_strings c)"
    and "admissible 100000 (EvClaim sid (s_TicketDigest c) 3000000000 (config_limits demo_gateway_config))"
proof -
  note demo = demo_mapped_def demo_vnc_request_def demo_request_def demo_vnc_binding_def zero_instance_binding_def
  have storable: "storable c"
    unfolding storable_def assms
    by (simp add: issue_candidate_def session_times_def storable_time_def gateway_durations fingerprint_def demo
        int64_def unix_milli_def dur_add_def wrap64_def zero_time_def)
  have "s_CreatedAt c = 2000000000" "s_TombstoneExpiresAt c = 962000000000" "s_IdempotencyKey c = rq_IdempotencyKey demo_mapped"
    by (simp_all add: assms issue_candidate_def gateway_durations dur_add_def wrap64_def)
  with storable show "admissible 100000 (EvCreate (rq_IdempotencyKey demo_mapped) c)"
    by (simp add: stamp_def unix_milli_def)
  show "list_all utf8_valid (json_strings c)"
    by (simp add: assms json_strings_def issue_candidate_def demo utf8_valid_def utf8_sanitize_ascii)
  show "admissible 100000 (EvClaim sid (s_TicketDigest c) 3000000000 (config_limits demo_gateway_config))"
    by (simp add: claim_stamps_def stamp_def unix_milli_def gateway_durations)
qed

theorem connect_url_opens_on_any_gateway_witness:
  "\<exists>resp rng1 d1 u oc obs d2.
     create_session gateway_crypto (Some demo_gateway_config) (redis_ops table_redis test_sha (steady_link 100000))
       demo_governance (Some demo_pb) 2000000000 (demo_random, empty_table 1000) = (Inr resp, rng1, d1) \<and>
     parse_url (sr_ConnectUrl resp) = Some u \<and>
     handle_http first_route [] new_probe_handler (session_handler gateway_crypto demo_gateway_config
       [(''https://a.test'', ())] (redis_ops table_redis test_sha (steady_link 100000)) demo_ws_runtimes (\<lambda>_. True)
       3000000000 4000000000 5000000000 6000000000)
       (browser_request u ''https://a.test'' ''ani.vnc.v1'') d1 = (HttpSession (SessionRun oc), obs, d2)"
proof -
  let ?ops = "redis_ops table_redis test_sha (steady_link 100000)"
  have "60 \<le> length demo_random" by (simp add: demo_random_def)
  then obtain tk ct sid where gen: "issue_generate gateway_crypto demo_gateway_config demo_random = (Inr (tk, ct, sid), drop 60 demo_random)"
    by (rule issue_generate_enough)
  obtain c where c: "c = issue_candidate gateway_crypto demo_gateway_config demo_mapped 2000000000 tk ct sid" by simp
  obtain reply rng1 d1 where created: "create_session gateway_crypto (Some demo_gateway_config) ?ops
      demo_governance (Some demo_pb) 2000000000 (demo_random, empty_table 1000) = (reply, rng1, d1)"
    using prod_cases3 by blast
  have peer: "managed_target (Some demo_pb) \<longrightarrow> authenticated_governance demo_governance"
    by (simp add: demo_gateway_facts)
  obtain issued l1 where "issue gateway_crypto demo_gateway_config ?ops demo_mapped 2000000000
      (demo_random, empty_table 1000) = (issued, l1, rng1, d1)"
    using create_session_issues [OF demo_pb_mapped peer created] by blast
  then have clock: "tb_Clock d1 \<le> 100000"
    by (rule steady.manager_issue_clock [where P = "\<lambda>x. x \<le> 100000"]) (simp_all add: steady_link_facts(3) empty_table_def)
  have start: "tracks table_entry test_sha 100000 empty_ledger (empty_table 1000)"
    by (rule tracks_empty) (rule empty_table_entry)
  have link: "reliable_link table_entry tb_Clock (steady_link 100000)"
    by (simp add: reliable_link_def steady_link_facts)
  then have timely: "timely_link table_entry tb_Clock 100000 (steady_link 100000)"
    by (simp add: timely_link_def steady_link_facts(3))
  have still: "server_ticks table_entry tb_Clock d1 d1"
    by (simp add: server_ticks_def table.entry_live)
  have fresh: "mget (lg_Keys empty_ledger) k = None" "mget (lg_Sessions empty_ledger) sid = None" for k
    by (simp_all add: empty_ledger_def)
  have live: "unix_milli 3000000000 < unix_milli (2000000000 + mc_TicketTTL demo_gateway_config)"
    by (simp add: unix_milli_def gateway_durations)
  have room: "room_for test_sha demo_gateway_config (rq_SubjectID demo_mapped) 3000000000 empty_ledger"
    by (simp add: room_for_def empty_ledger_def unexpired_def gateway_durations)
  note opens = connect_url_opens_on_any_gateway [where cr = gateway_crypto and accept = "\<lambda>_. True" and rt = demo_ws_runtimes
      and metrics = "[]" and probes = new_probe_handler and ?t2.0 = 4000000000 and ?t3.0 = 5000000000 and ?t4.0 = 6000000000,
      unfolded gateway_sha(1), OF first.chi_router_axioms demo_gateway_facts(1) demo_world_loads [of False]
      demo_gateway_facts(2,4,5,6) demo_gateway_config_def table.redis_server_axioms link timely start fresh demo_pb_mapped peer
      demo_gateway_admits gen c gateway_candidate(1,2) [OF c] created still clock gateway_candidate(3) [OF c] live room
      demo_gateway_facts(9) demo_offered]
  then show ?thesis using created unfolding demo_gateway_facts(3) by blast
qed

end
