(* ===== verification/Drain.thy ===== *)
theory Drain
  imports Startup
begin

text \<open>
  The end of the serving phase in \<open>run\<close> of \<open>cmd/session-gateway/main.go\<close>, with what goes on beside it.
  A signal cancels the context of all requests; \<open>GracefulStop\<close> waits for the pending RPCs, then
  \<open>http.Server.Shutdown\<close> waits for the ordinary HTTP requests, at most for the grace period. A WebSocket
  is a hijacked connection, which \<open>Shutdown\<close> by its contract neither closes nor waits for: its session
  ends when its own goroutine has seen the cancellation and has closed the session in the store.
\<close>

datatype drain_phase = DrainServing | DrainGraceful | DrainHttp | DrainReturned

datatype session_life = Carrying | LeaseReturned

record drain =
  dr_Phase :: drain_phase
  dr_Rpcs :: nat
  dr_Requests :: nat
  dr_Sockets :: "(string, session_life) gomap"

definition new_drain :: drain where
  "new_drain = \<lparr> dr_Phase = DrainServing, dr_Rpcs = 0, dr_Requests = 0, dr_Sockets = [] \<rparr>"

inductive drain_step :: "drain \<Rightarrow> drain \<Rightarrow> bool" where
  rpc_begins: "dr_Phase d = DrainServing \<Longrightarrow> drain_step d (d\<lparr> dr_Rpcs := Suc (dr_Rpcs d) \<rparr>)"
| rpc_ends: "dr_Phase d \<noteq> DrainReturned \<Longrightarrow> dr_Rpcs d = Suc n \<Longrightarrow> drain_step d (d\<lparr> dr_Rpcs := n \<rparr>)"
| request_begins: "dr_Phase d \<in> {DrainServing, DrainGraceful} \<Longrightarrow> drain_step d (d\<lparr> dr_Requests := Suc (dr_Requests d) \<rparr>)"
| request_ends: "dr_Phase d \<noteq> DrainReturned \<Longrightarrow> dr_Requests d = Suc n \<Longrightarrow> drain_step d (d\<lparr> dr_Requests := n \<rparr>)"
| hijacked: "dr_Phase d \<noteq> DrainReturned \<Longrightarrow> dr_Requests d = Suc n \<Longrightarrow> mget (dr_Sockets d) sid = None \<Longrightarrow>
    drain_step d (d\<lparr> dr_Requests := n, dr_Sockets := mput sid Carrying (dr_Sockets d) \<rparr>)"
| session_closed: "dr_Phase d \<noteq> DrainReturned \<Longrightarrow> mget (dr_Sockets d) sid = Some Carrying \<Longrightarrow>
    drain_step d (d\<lparr> dr_Sockets := mput sid LeaseReturned (dr_Sockets d) \<rparr>)"
| signalled: "dr_Phase d = DrainServing \<Longrightarrow> drain_step d (d\<lparr> dr_Phase := DrainGraceful \<rparr>)"
| graceful_stop: "dr_Phase d = DrainGraceful \<Longrightarrow> dr_Rpcs d = 0 \<Longrightarrow> drain_step d (d\<lparr> dr_Phase := DrainHttp \<rparr>)"
| http_shutdown: "dr_Phase d = DrainHttp \<Longrightarrow> dr_Requests d = 0 \<Longrightarrow> drain_step d (d\<lparr> dr_Phase := DrainReturned \<rparr>)"
| grace_expired: "dr_Phase d = DrainHttp \<Longrightarrow> drain_step d (d\<lparr> dr_Phase := DrainReturned \<rparr>)"

inductive_cases drain_stepE: "drain_step d d'"

text \<open>The process has returned when no step is left, so what it left behind stays.\<close>

lemma returned_is_final: "dr_Phase d = DrainReturned \<Longrightarrow> \<not> drain_step d d'"
  by (auto elim: drain_stepE)

text \<open>
  An orderly return, without any timeout, has no RPC and no HTTP request in flight, but it can leave a
  session with its lease: a socket that was open when the signal came.
\<close>

definition abandoned :: drain where
  "abandoned = \<lparr> dr_Phase = DrainReturned, dr_Rpcs = 0, dr_Requests = 0, dr_Sockets = [(''s'', Carrying)] \<rparr>"

lemma shutdown_can_abandon_sessions:
  "drain_step\<^sup>*\<^sup>* new_drain abandoned \<and> mget (dr_Sockets abandoned) ''s'' = Some Carrying \<and> (\<forall>d. \<not> drain_step abandoned d)"
proof (intro conjI allI)
  let ?d1 = "new_drain\<lparr> dr_Requests := 1 \<rparr>"
  let ?d2 = "new_drain\<lparr> dr_Sockets := [(''s'', Carrying)] \<rparr>"
  have "drain_step new_drain ?d1"
    using drain_step.request_begins [of new_drain] by (simp add: new_drain_def)
  moreover have "drain_step ?d1 ?d2"
    using drain_step.hijacked [of ?d1 0 "''s''"] by (simp add: new_drain_def mget_def mput_def)
  moreover have "drain_step ?d2 (?d2\<lparr> dr_Phase := DrainGraceful \<rparr>)"
    by (rule drain_step.signalled) (simp add: new_drain_def)
  moreover have "drain_step (?d2\<lparr> dr_Phase := DrainGraceful \<rparr>) (?d2\<lparr> dr_Phase := DrainHttp \<rparr>)"
    using drain_step.graceful_stop [of "?d2\<lparr> dr_Phase := DrainGraceful \<rparr>"] by (simp add: new_drain_def)
  moreover have "drain_step (?d2\<lparr> dr_Phase := DrainHttp \<rparr>) abandoned"
    using drain_step.http_shutdown [of "?d2\<lparr> dr_Phase := DrainHttp \<rparr>"] by (simp add: new_drain_def abandoned_def)
  ultimately show "drain_step\<^sup>*\<^sup>* new_drain abandoned"
    by (meson converse_rtranclp_into_rtranclp r_into_rtranclp)
  show "mget (dr_Sockets abandoned) ''s'' = Some Carrying" by (simp add: abandoned_def mget_def)
  show "\<not> drain_step abandoned d" for d by (rule returned_is_final) (simp add: abandoned_def)
qed

end
