(* ===== verification/Spec2Isabelle.thy ===== *)
theory Spec2Isabelle
  imports TerminalFrames RedisScenarios StoreEquivalence RuntimePipes SessionTimers Wiring GatewayEndToEnd Drain
begin

text \<open>
  A verification library for the session gateway: the service that hands out one-time tickets for
  interactive sessions (exec terminals in pods, serial and VNC consoles of virtual machines) and
  carries the WebSocket of whoever presents a ticket.

  \<^bold>\<open>The program.\<close> The control plane calls \<open>CreateSession\<close> over gRPC
  (\<open>internal/transport/grpc\<close>); the session manager (\<open>internal/session\<close>) validates the request, draws an
  identifier and a ticket, and stores a record with the ticket's digest and ciphertext under the
  idempotency key. The caller passes the connect URL to a browser. The browser opens the WebSocket
  (\<open>internal/transport/websocket\<close>): the handler claims the session with the ticket, which the store
  (\<open>internal/store\<close>) allows once and within the capacity limits, and runs the connected session on the
  accepted socket: it opens the runtime stream (\<open>internal/runtime/kubernetes\<close>,
  \<open>internal/runtime/kubevirt\<close>), pumps bytes in both directions, classifies the end, and closes the
  session, which gives the lease back. \<open>internal/observability\<close> counts all of that. The process itself
  (\<open>cmd/session-gateway\<close>) loads its configuration (\<open>internal/config\<close>), selects the store and builds these
  components before it listens.

  \<^bold>\<open>Theories and sources.\<close>
  \<^item> \<open>Prelude\<close>, \<open>Codecs\<close>, \<open>Urls\<close>, \<open>UrlParse\<close>, \<open>Json\<close>: what the code uses of the Go language and library:
    wrapped errors and \<open>errors.Is\<close>, maps as association lists, times, readers; hex, base64, decimals,
    UUIDs; percent escaping, query strings and \<open>url.Parse\<close>; UTF-8 and \<open>encoding/json\<close> (tokens, values,
    structs), with the theorem that a printed value is parsed back.
  \<^item> \<open>SessionModel\<close>: \<open>model.go\<close> and the \<open>Store\<close> interface of \<open>store.go\<close>. \<open>StoreContract\<close>: the contract of
    that interface as the locale \<open>session_store\<close> (each operation keeps the invariant and moves every
    session only forward, from issued over claimed to closed and gone), and what follows for histories.
  \<^item> \<open>MemoryStore\<close>, \<open>MemoryHistories\<close>: \<open>internal/store/memory/store.go\<close>, its invariant, the
    interpretation \<open>mem\<close> of the contract, and the properties of histories: single claim, exact
    claim decision, capacity, consistency of the three maps, idempotent creation and close, and that
    the iteration order of Go maps is not observable. \<open>StoreScenarios\<close>: the contract tests of
    \<open>internal/store/storetest\<close> as predicates over any store; the memory store passes them at every clock
    reading.
  \<^item> \<open>RedisServer\<close>: the commands of a Redis server the store uses, as a record of functions with the
    locale \<open>redis_server\<close> of the laws they obey, interpreted on a table with expiry. \<open>RedisStore\<close>:
    \<open>internal/store/redis/store.go\<close>, the three Lua scripts and the methods, each a sequence of requests
    that can be lost and between which the server moves on. \<open>RedisRecords\<close>: a stored session is read
    back. \<open>RedisContract\<close>: the locale \<open>redis_client\<close>, the invariant of the stored records, and the
    \<open>sublocale\<close> that makes the Redis store a \<open>session_store\<close>, the contract the memory store obeys too.
    \<open>RedisSafety\<close>: any number of clients on one server; the single claim, and the contract as a closed
    statement. \<open>RedisScripts\<close>: what each script answers and leaves behind on a stored session, in terms of
    the memory store's \<open>claimed_session\<close> and \<open>closed_session\<close>. \<open>RedisLedger\<close>: the abstract store (sessions
    by identifier, identifiers by key, lease sets) that the Redis store refines while no record expires:
    the relation \<open>tracks\<close>, the locale \<open>redis_reliable\<close>, and the refinement of whole histories.
    \<open>RedisScenarios\<close>: the Redis store passes the contract tests too, proved on the ledger.
    \<open>StoreEquivalence\<close>: the memory store and the Redis store answer every history alike while nothing
    expires, and how they differ after the maximum duration.
  \<^item> \<open>Fingerprinting\<close>, \<open>SessionManager\<close>, \<open>SessionService\<close>: \<open>internal/session/manager.go\<close>: the
    fingerprint and its injectivity; \<open>Issue\<close>, \<open>Replay\<close>, \<open>ClaimAndReserve\<close> and \<open>CloseAndRelease\<close>
    over any store; the life of a ticket over the memory store, and the connect URL. \<open>RedisGateways\<close>: the
    manager over the Redis store: a ticket issued by one gateway is accepted, once, by another.
  \<^item> \<open>GrpcTransport\<close>: \<open>internal/transport/grpc/server.go\<close> and \<open>instance_identity.go\<close>: mapping of messages,
    peer checks and status codes, composed with the manager.
  \<^item> \<open>KubernetesExec\<close>: \<open>internal/runtime/stream.go\<close> and \<open>internal/runtime/kubernetes\<close>: pod selection, the
    exec request with its identity guard, the stream's life and resize queue.
  \<^item> \<open>KubeVirtConsole\<close>: \<open>internal/runtime/kubevirt/adapter.go\<close> and \<open>internal/runtime/resource/validator.go\<close>:
    preflight and postflight identity checks against a changing cluster, the hand-over of the
    connection between two goroutines, and the resource service's validators.
  \<^item> \<open>RuntimePipes\<close>: the pipes, goroutines and clean-up of both runtime streams (\<open>execStream\<close>,
    \<open>managedStream\<close>): an end of file is the end of the output, and every clean-up ends with nothing open.
  \<^item> \<open>ConnectedSession\<close>: \<open>connectedsession/module.go\<close>: outcomes, close codes, frames, the start frame,
    and \<open>Run\<close> from the accepted socket to the released lease. \<open>TerminalFrames\<close>: what the JSON frames carry
    and which client frames pass. \<open>ExecCarry\<close> and \<open>ByteCarry\<close>: the pumps
    of exec and console sessions as step relations, one rule per send, receive or select case, in
    any interleaving. \<open>SessionTimers\<close>: the same loops beside a clock, with the timers of \<open>clock.go\<close>,
    \<open>resetTimer\<close> and the bounded end of a carry; the locale \<open>timed_loop\<close> is what a select loop owes its
    timers, interpreted on both carries, and every timed run is a run of the untimed carry.
  \<^item> \<open>Observability\<close>: \<open>internal/observability\<close>: the registered metrics, the observation of one session with its
    span and log lines, the traced store, readiness. \<open>WebsocketAdmission\<close>: \<open>handler.go\<close>: the whole handler, from the origin check
    through the claim to the run. \<open>HttpFront\<close>: the routes of \<open>internal/transport/http/router.go\<close> and
    \<open>RegisterRoutes\<close>, the probes, and the dispatch of every request over the locale \<open>chi_router\<close>.
  \<^item> \<open>Config\<close>, \<open>ConfigFacts\<close>: \<open>internal/config/config.go\<close>: \<open>Load\<close> from the texts of the environment, with
    durations, integers, addresses, origins; a loaded configuration is sound whatever the order of Go's
    map iteration. \<open>Startup\<close>, \<open>StartupFacts\<close>: \<open>internal/store/select.go\<close>, \<open>NewFromEnv\<close>,
    \<open>internal/observability/tracing.go\<close> and \<open>run\<close> of \<open>cmd/session-gateway\<close> with its deferred releases: when
    the process serves, what it holds, and that a connect URL leads back to it. \<open>Drain\<close>: the end of the
    process beside its open sockets. \<open>Wiring\<close>: the constructors \<open>run\<close> connects, and the readiness probe
    over the events of a run.
  \<^item> \<open>EndToEnd\<close>: the composition: from \<open>CreateSession\<close> over the connect URL, the router and the admission to the
    connected session, once, over the in-memory store; what only needs the contract of the store is proved
    in its locale. \<open>GatewayEndToEnd\<close>: the same path over Redis, from the gateway that created the session to
    any other.

  \<^bold>\<open>How code becomes definitions.\<close> Structs are records and named constants datatypes; a fallible
  function returns \<open>error + 'a\<close>; a method of the store or manager passes the store state; a method
  that runs under the mutex is one function. What several goroutines do is an \<open>inductive\<close> step relation
  whose state holds the channels, and a property holds in every reachable state. Byte counters are
  64-bit words; terminal sizes are 16-bit words where the code has them so. Clock readings and random
  readers are arguments, and so is the order of an iteration over a map where it could matter. No
  definition uses fuel: every loop of the modelled code is a recursion over the data it ranges over, with
  a measure where it is not structural, or a step of a relation.

  \<^bold>\<open>Parameters.\<close> SHA-256 and AES-GCM (\<open>crypto\<close>; the property that needs it assumes that opening
  inverts sealing), the Redis server (a record of commands with named laws, met by a concrete table), the Kubernetes and KubeVirt API
  servers (functions of the world's state), the resource service, the WebSocket upgrade, the peer's
  certificate, the chi router (named laws, met by a first-match table), the environment and files of the host, the double-precision product of a fractional
  duration, and the constructors of client libraries are arguments.

  \<^bold>\<open>Bounds.\<close> The refinement of the ledger holds up to a moment \<open>T\<close> of the server's clock before which no
  record the history creates or claims expires; the gateway sets the expiry of a record to the end of its
  tombstone, so \<open>T\<close> ranges over the whole time in which the record matters. Beyond it, and over links
  that lose requests or replies, the contract of \<open>RedisContract\<close> holds without a bound. Times are those
  Redis can store: from the first millisecond after the epoch to 64 bits of milliseconds.

  \<^bold>\<open>What is not modelled.\<close> Spans other than that of a connected session, and log lines other than those of
  its observation; the exposition of the metrics as text; the contents of certificates; the middleware that
  recovers from a panic in a handler, as no modelled handler panics; the generated gRPC code; the wire
  formats of HTTP, WebSocket, gRPC and Redis, which belong to libraries. What is left of the sources
  is imports, interface declarations, fields that hold clients of libraries and one-line calls to those
  libraries.

  \<^bold>\<open>State of the development.\<close> Every component of the program with logic of its own is modelled. Open are
  the refinement of the ledger past the expiry of records, where the answers depend on when the server
  removes a key, and the liveness of the carries under a fair scheduler.
\<close>

end
